(* ===== verification/Prelude.thy ===== *)
theory Prelude
  imports Main "HOL-Library.Code_Target_Numeral" "HOL-Library.AList" "HOL-Library.Char_ord" "HOL-Library.List_Lexorder"
    "HOL-Library.Sublist"
begin

text \<open>
  Shared ground of the development: the names of the types the program's Python values are
  modelled with, the collections of rewrite rules the component theories extend, and generic
  facts on lists and insertion-ordered dictionaries.

  A Python \<^verbatim>\<open>str\<close> is a list of characters (code points below 256), a \<^verbatim>\<open>dict\<close> is an
  association list in insertion order without duplicate keys: \<^const>\<open>AList.update\<close> keeps the
  position of a key that is present and appends a new one, which is what item assignment does.
\<close>

type_synonym str = string
type_synonym ('k, 'v) dict = "('k \<times> 'v) list"

named_theorems str_simps \<open>evaluation of the string primitives\<close>
named_theorems dict_simps \<open>lookup after update on dictionaries\<close>
named_theorems keeps \<open>an operation keeps an invariant or a field\<close>

subsection \<open>Dictionaries\<close>

abbreviation dict_ok :: "('k, 'v) dict \<Rightarrow> bool" where
  "dict_ok d \<equiv> distinct (map fst d)"

abbreviation dget :: "('k, 'v) dict \<Rightarrow> 'k \<Rightarrow> 'v option" where
  "dget \<equiv> map_of"

abbreviation dset :: "'k \<Rightarrow> 'v \<Rightarrow> ('k, 'v) dict \<Rightarrow> ('k, 'v) dict" where
  "dset \<equiv> AList.update"

definition dget_default :: "('k, 'v) dict \<Rightarrow> 'k \<Rightarrow> 'v \<Rightarrow> 'v" where
  "dget_default d k v = (case dget d k of None \<Rightarrow> v | Some x \<Rightarrow> x)"

lemma dget_dset [dict_simps]: "dget (dset k v d) k' = (if k' = k then Some v else dget d k')"
  by (simp add: update_conv')

lemma dict_ok_dset [keeps]: "dict_ok d \<Longrightarrow> dict_ok (dset k v d)"
  by (simp add: distinct_update)

lemma keys_dset [dict_simps]: "fst ` set (dset k v d) = insert k (fst ` set d)"
  by (simp add: dom_update)

lemma dget_None_iff [dict_simps]: "dget d k = None \<longleftrightarrow> k \<notin> fst ` set d"
  by (rule map_of_eq_None_iff)

text \<open>
  The interface a client of a dictionary relies on: what a lookup returns after a store, and
  that a store keeps the representation invariant. Item assignment on an association list
  provides it.
\<close>

locale store =
  fixes empty :: "'d"
    and put :: "'k \<Rightarrow> 'v \<Rightarrow> 'd \<Rightarrow> 'd"
    and look :: "'d \<Rightarrow> 'k \<Rightarrow> 'v option"
    and ok :: "'d \<Rightarrow> bool"
  assumes look_empty: "look empty k = None"
    and look_put: "look (put k v d) k' = (if k' = k then Some v else look d k')"
    and ok_empty: "ok empty"
    and ok_put: "ok d \<Longrightarrow> ok (put k v d)"
begin

definition put_all :: "('k \<times> 'v) list \<Rightarrow> 'd \<Rightarrow> 'd" where
  "put_all kvs d = fold (\<lambda>(k, v). put k v) kvs d"

lemma put_all_Nil: "put_all [] d = d"
  by (simp add: put_all_def)

lemma put_all_Cons: "put_all ((k, v) # kvs) d = put_all kvs (put k v d)"
  by (simp add: put_all_def)

lemma ok_put_all: "ok d \<Longrightarrow> ok (put_all kvs d)"
  by (induction kvs arbitrary: d) (auto simp: put_all_Nil put_all_Cons ok_put)

lemma look_put_all:
  "look (put_all kvs d) k = (case map_of (rev kvs) k of None \<Rightarrow> look d k | Some v \<Rightarrow> Some v)"
proof (induction kvs arbitrary: d)
  case Nil
  then show ?case by (simp add: put_all_Nil)
next
  case (Cons kv kvs)
  obtain k0 v0 where "kv = (k0, v0)" by (cases kv)
  with Cons show ?case
    by (auto simp: put_all_Cons look_put map_add_def split: option.splits)
qed

lemma look_put_all_other: "k \<notin> fst ` set kvs \<Longrightarrow> look (put_all kvs d) k = look d k"
  by (force simp: look_put_all split: option.splits dest: map_of_SomeD)

end

interpretation dict_store: store "[] :: ('k, 'v) dict" dset dget dict_ok
  by unfold_locales (auto simp: dict_simps keeps)

text \<open>
  The interface a persistent value relies on: what is written reads back. Two codecs compose,
  which is how a Python object becomes text: first its dictionary form, then its JSON text.
\<close>

locale codec =
  fixes enc :: "'a \<Rightarrow> 'b" and dec :: "'b \<Rightarrow> 'a option" and good :: "'a \<Rightarrow> bool"
  assumes dec_enc: "good x \<Longrightarrow> dec (enc x) = Some x"
begin

lemma enc_inject: "good x \<Longrightarrow> good y \<Longrightarrow> enc x = enc y \<longleftrightarrow> x = y"
  by (metis dec_enc option.inject)

lemma dec_enc_unique: "good x \<Longrightarrow> dec (enc x) = Some y \<longleftrightarrow> y = x"
  by (auto simp: dec_enc)

end

locale codec_chain = inner: codec enc1 dec1 good1 + outer: codec enc2 dec2 good2
  for enc1 :: "'a \<Rightarrow> 'b" and dec1 good1 and enc2 :: "'b \<Rightarrow> 'c" and dec2 good2 +
  assumes good_enc: "good1 x \<Longrightarrow> good2 (enc1 x)"
begin

sublocale chain: codec "\<lambda>x. enc2 (enc1 x)" "\<lambda>s. Option.bind (dec2 s) dec1" good1
  by unfold_locales (simp add: outer.dec_enc inner.dec_enc good_enc)

end

subsection \<open>Lists\<close>

lemma takeWhile_append_stop:
  "\<forall>x \<in> set xs. P x \<Longrightarrow> ys = [] \<or> \<not> P (hd ys) \<Longrightarrow> takeWhile P (xs @ ys) = xs"
  by (cases ys) (auto simp: takeWhile_append2)

lemma dropWhile_append_stop:
  "\<forall>x \<in> set xs. P x \<Longrightarrow> ys = [] \<or> \<not> P (hd ys) \<Longrightarrow> dropWhile P (xs @ ys) = ys"
  by (cases ys) (auto simp: dropWhile_append2)

lemma dropWhile_id: "xs = [] \<or> \<not> P (hd xs) \<Longrightarrow> dropWhile P xs = xs"
  by (cases xs) auto

lemma length_dropWhile_le_eq: "length (dropWhile P xs) \<le> length xs"
  by (rule length_dropWhile_le)

lemma take_length_append: "take (length xs) (xs @ ys) = xs"
  by simp

end
