(* ===== verification/PyText.thy ===== *)
theory PyText
  imports Prelude
begin

text \<open>
  The part of Python's \<^verbatim>\<open>str\<close>, \<^verbatim>\<open>int\<close> and format library the program uses:
  character classes, \<^verbatim>\<open>strip\<close>, \<^verbatim>\<open>split\<close>, \<^verbatim>\<open>splitlines\<close>,
  \<^verbatim>\<open>startswith\<close>, \<^verbatim>\<open>in\<close>, \<^verbatim>\<open>join\<close>, decimal and hexadecimal numerals and
  their reading back. Characters are the code points 0..255; case mapping is the ASCII one.
\<close>

subsection \<open>Character classes\<close>

definition ws_chars :: "str" where
  "ws_chars = [CHR 0x09, CHR 0x0A, CHR 0x0B, CHR 0x0C, CHR 0x0D,
     CHR 0x1C, CHR 0x1D, CHR 0x1E, CHR 0x1F, CHR '' '', CHR 0x85, CHR 0xA0]"

definition is_space :: "char \<Rightarrow> bool" where
  "is_space c \<longleftrightarrow> c \<in> set ws_chars"

definition line_breaks :: "str" where
  "line_breaks = [CHR 0x0A, CHR 0x0B, CHR 0x0C, CHR 0x0D, CHR 0x1C, CHR 0x1D, CHR 0x1E, CHR 0x85]"

definition is_digit :: "char \<Rightarrow> bool" where
  "is_digit c \<longleftrightarrow> CHR ''0'' \<le> c \<and> c \<le> CHR ''9''"

definition is_upper :: "char \<Rightarrow> bool" where
  "is_upper c \<longleftrightarrow> CHR ''A'' \<le> c \<and> c \<le> CHR ''Z''"

definition is_lower :: "char \<Rightarrow> bool" where
  "is_lower c \<longleftrightarrow> CHR ''a'' \<le> c \<and> c \<le> CHR ''z''"

definition is_hexdig :: "char \<Rightarrow> bool" where
  "is_hexdig c \<longleftrightarrow> is_digit c \<or> (CHR ''a'' \<le> c \<and> c \<le> CHR ''f'') \<or> (CHR ''A'' \<le> c \<and> c \<le> CHR ''F'')"

text \<open>\<^verbatim>\<open>\w\<close> of the \<^verbatim>\<open>re\<close> module: alphanumerics of the first 256 code points, and the underscore.\<close>

definition is_word :: "char \<Rightarrow> bool" where
  "is_word c \<longleftrightarrow> is_digit c \<or> is_upper c \<or> is_lower c \<or> c = CHR ''_''
     \<or> c \<in> set [CHR 0xAA, CHR 0xB2, CHR 0xB3, CHR 0xB5, CHR 0xB9, CHR 0xBA, CHR 0xBC, CHR 0xBD, CHR 0xBE]
     \<or> (CHR 0xC0 \<le> c \<and> c \<noteq> CHR 0xD7 \<and> c \<noteq> CHR 0xF7)"

lemmas char_class_defs = is_space_def ws_chars_def is_digit_def is_upper_def is_lower_def
  is_hexdig_def is_word_def

definition to_upper :: "char \<Rightarrow> char" where
  "to_upper c = (if is_lower c then char_of (of_char c - 32 :: nat) else c)"

definition to_lower :: "char \<Rightarrow> char" where
  "to_lower c = (if is_upper c then char_of (of_char c + 32 :: nat) else c)"

definition upper :: "str \<Rightarrow> str" where
  "upper s = map to_upper s"

definition lower :: "str \<Rightarrow> str" where
  "lower s = map to_lower s"

fun capitalize :: "str \<Rightarrow> str" where
  "capitalize [] = []"
| "capitalize (c # cs) = to_upper c # lower cs"

subsection \<open>Stripping, splitting, searching\<close>

definition lstrip :: "str \<Rightarrow> str" where
  "lstrip s = dropWhile is_space s"

definition strip :: "str \<Rightarrow> str" where
  "strip s = rev (dropWhile is_space (rev (lstrip s)))"

definition strip_chars :: "str \<Rightarrow> str \<Rightarrow> str" where
  "strip_chars cs s = rev (dropWhile (\<lambda>c. c \<in> set cs) (rev (dropWhile (\<lambda>c. c \<in> set cs) s)))"

definition rstrip_chars :: "str \<Rightarrow> str \<Rightarrow> str" where
  "rstrip_chars cs s = rev (dropWhile (\<lambda>c. c \<in> set cs) (rev s))"

definition starts_with :: "str \<Rightarrow> str \<Rightarrow> bool" where
  "starts_with p s \<longleftrightarrow> take (length p) s = p"

definition ends_with :: "str \<Rightarrow> str \<Rightarrow> bool" where
  "ends_with p s \<longleftrightarrow> length p \<le> length s \<and> drop (length s - length p) s = p"

fun contains :: "str \<Rightarrow> str \<Rightarrow> bool" where
  "contains p [] = (p = [])"
| "contains p (c # cs) = (starts_with p (c # cs) \<or> contains p cs)"

text \<open>\<^verbatim>\<open>s.split()\<close>: maximal runs of non-space characters.\<close>

fun words_acc :: "str \<Rightarrow> str \<Rightarrow> str list" where
  "words_acc cur [] = (if cur = [] then [] else [cur])"
| "words_acc cur (c # cs) =
     (if is_space c then (if cur = [] then words_acc [] cs else cur # words_acc [] cs)
      else words_acc (cur @ [c]) cs)"

definition words :: "str \<Rightarrow> str list" where
  "words s = words_acc [] s"

text \<open>\<^verbatim>\<open>s.split(None, 1)\<close>: the first word and the rest, stripped of leading space.\<close>

definition split_first :: "str \<Rightarrow> str list" where
  "split_first s =
     (let s' = lstrip s; w = takeWhile (Not \<circ> is_space) s';
          r = lstrip (dropWhile (Not \<circ> is_space) s')
      in if w = [] then [] else if r = [] then [w] else [w, r])"

text \<open>\<^verbatim>\<open>s.split(c)\<close> for a one-character separator.\<close>

fun split_on_acc :: "char \<Rightarrow> str \<Rightarrow> str \<Rightarrow> str list" where
  "split_on_acc d cur [] = [cur]"
| "split_on_acc d cur (c # cs) =
     (if c = d then cur # split_on_acc d [] cs else split_on_acc d (cur @ [c]) cs)"

definition split_on :: "char \<Rightarrow> str \<Rightarrow> str list" where
  "split_on d s = split_on_acc d [] s"

text \<open>\<^verbatim>\<open>s.splitlines()\<close>: a final line without a break counts, a final break opens no line.\<close>

fun splitlines_acc :: "str \<Rightarrow> str \<Rightarrow> str list" where
  "splitlines_acc cur [] = (if cur = [] then [] else [cur])"
| "splitlines_acc cur [c] = (if c \<in> set line_breaks then [cur] else [cur @ [c]])"
| "splitlines_acc cur (c # c' # cs) =
     (if c = CHR 0x0D \<and> c' = CHR 0x0A then cur # splitlines_acc [] cs
      else if c \<in> set line_breaks then cur # splitlines_acc [] (c' # cs)
      else splitlines_acc (cur @ [c]) (c' # cs))"

definition splitlines :: "str \<Rightarrow> str list" where
  "splitlines s = splitlines_acc [] s"

fun join :: "str \<Rightarrow> str list \<Rightarrow> str" where
  "join sep [] = []"
| "join sep [x] = x"
| "join sep (x # y # ys) = x @ sep @ join sep (y # ys)"

text \<open>Lines written out one after the other are read back.\<close>

definition unlines :: "str list \<Rightarrow> str" where
  "unlines ls = concat (map (\<lambda>l. l @ [CHR 0x0A]) ls)"

definition one_line :: "str \<Rightarrow> bool" where
  "one_line l \<longleftrightarrow> (\<forall>c \<in> set l. c \<notin> set line_breaks)"

lemma unlines_simps: "unlines [] = []" "unlines (l # ls) = l @ CHR 0x0A # unlines ls"
  "unlines (ls @ ms) = unlines ls @ unlines ms"
  by (simp_all add: unlines_def)

lemma splitlines_acc_line:
  "one_line l \<Longrightarrow> splitlines_acc cur (l @ CHR 0x0A # rest) = (cur @ l) # splitlines_acc [] rest"
proof (induction l arbitrary: cur)
  case Nil
  show ?case by (cases rest) (simp_all add: line_breaks_def)
next
  case (Cons c cs)
  have lf: "CHR 0x0D \<in> set line_breaks" by (simp add: line_breaks_def)
  obtain d ds where "cs @ CHR 0x0A # rest = d # ds" by (cases "cs @ CHR 0x0A # rest") auto
  moreover have "c \<notin> set line_breaks" "one_line cs" using Cons.prems by (simp_all add: one_line_def)
  ultimately show ?case using Cons.IH [of "cur @ [c]"] lf by auto
qed

lemma splitlines_unlines: "\<forall>l \<in> set ls. one_line l \<Longrightarrow> splitlines (unlines ls) = ls"
proof -
  have "\<forall>l \<in> set ls. one_line l \<Longrightarrow> splitlines_acc [] (unlines ls) = ls"
    by (induction ls) (simp_all add: unlines_simps splitlines_acc_line)
  then show "\<forall>l \<in> set ls. one_line l \<Longrightarrow> splitlines (unlines ls) = ls" by (simp add: splitlines_def)
qed

text \<open>Stripping and splitting text of a known shape.\<close>

definition trimmed :: "str \<Rightarrow> bool" where
  "trimmed s \<longleftrightarrow> s \<noteq> [] \<and> \<not> is_space (hd s) \<and> \<not> is_space (last s)"

definition one_word :: "str \<Rightarrow> bool" where
  "one_word s \<longleftrightarrow> s \<noteq> [] \<and> (\<forall>c \<in> set s. \<not> is_space c)"

lemma one_word_trimmed: "one_word s \<Longrightarrow> trimmed s"
  by (auto simp: one_word_def trimmed_def)

lemma strip_trimmed: "trimmed s \<Longrightarrow> strip s = s"
  by (simp add: trimmed_def strip_def lstrip_def dropWhile_id hd_rev)

lemma strip_space_Cons: "is_space c \<Longrightarrow> strip (c # s) = strip s"
  by (simp add: strip_def lstrip_def)

lemma trimmed_append: "s \<noteq> [] \<Longrightarrow> \<not> is_space (hd s) \<Longrightarrow> trimmed t \<Longrightarrow> trimmed (s @ u @ t)"
  by (simp add: trimmed_def)

lemma words_acc_word: "\<forall>c \<in> set s. \<not> is_space c \<Longrightarrow> words_acc cur (s @ t) = words_acc (cur @ s) t"
  by (induction s arbitrary: cur) auto

lemma words_one: "one_word s \<Longrightarrow> words s = [s]"
  using words_acc_word [of s "[]" "[]"] by (simp add: words_def one_word_def)

lemma words_two: "one_word s \<Longrightarrow> one_word t \<Longrightarrow> is_space c \<Longrightarrow> words (s @ c # t) = [s, t]"
  using words_acc_word [of s "[]" "c # t"] words_one [of t] by (auto simp: words_def one_word_def)

lemma split_first_two:
  assumes "one_word s" and "is_space c" and "t \<noteq> []" and "\<not> is_space (hd t)"
  shows "split_first (s @ c # t) = [s, t]"
proof -
  have "lstrip (s @ c # t) = s @ c # t" using assms(1) by (cases s) (auto simp: lstrip_def one_word_def)
  moreover have "takeWhile (Not \<circ> is_space) (s @ c # t) = s" "dropWhile (Not \<circ> is_space) (s @ c # t) = c # t"
    using assms(1,2) by (auto intro!: takeWhile_append_stop dropWhile_append_stop simp: one_word_def)
  moreover have "lstrip (c # t) = t" using assms(2-4) by (simp add: lstrip_def dropWhile_id)
  ultimately show ?thesis using assms(1,3) by (simp add: split_first_def Let_def one_word_def)
qed

definition replace_char :: "char \<Rightarrow> char \<Rightarrow> str \<Rightarrow> str" where
  "replace_char a b s = map (\<lambda>c. if c = a then b else c) s"

subsection \<open>Numerals\<close>

definition dig :: "nat \<Rightarrow> char" where
  "dig n = ''0123456789'' ! n"

definition hexdig_up :: "nat \<Rightarrow> char" where
  "hexdig_up n = ''0123456789ABCDEF'' ! n"

definition hexdig_lo :: "nat \<Rightarrow> char" where
  "hexdig_lo n = ''0123456789abcdef'' ! n"

fun digits :: "nat \<Rightarrow> (nat \<Rightarrow> char) \<Rightarrow> nat \<Rightarrow> str" where
  "digits b f n = (if b < 2 \<or> n < b then [f n] else digits b f (n div b) @ [f (n mod b)])"

declare digits.simps [simp del]

definition str_of_nat :: "nat \<Rightarrow> str" where
  "str_of_nat n = digits 10 dig n"

definition str_of_int :: "int \<Rightarrow> str" where
  "str_of_int i = (if i < 0 then CHR ''-'' # str_of_nat (nat (- i)) else str_of_nat (nat i))"

definition zpad :: "nat \<Rightarrow> str \<Rightarrow> str" where
  "zpad w s = replicate (w - length s) CHR ''0'' @ s"

text \<open>The format specifications \<^verbatim>\<open>0wX\<close> and \<^verbatim>\<open>0wx\<close> on an unbounded integer: the sign counts towards the width.\<close>

definition fmt_hex :: "(nat \<Rightarrow> char) \<Rightarrow> nat \<Rightarrow> int \<Rightarrow> str" where
  "fmt_hex f w i =
     (if i < 0 then CHR ''-'' # zpad (w - 1) (digits 16 f (nat (- i))) else zpad w (digits 16 f (nat i)))"

abbreviation fmt_X :: "nat \<Rightarrow> int \<Rightarrow> str" where
  "fmt_X \<equiv> fmt_hex hexdig_up"

abbreviation fmt_x :: "nat \<Rightarrow> int \<Rightarrow> str" where
  "fmt_x \<equiv> fmt_hex hexdig_lo"

definition digit_val :: "char \<Rightarrow> nat" where
  "digit_val c =
     (let n = of_char c in if n < 58 then n - 48 else if n < 71 then n - 55 else n - 87)"

definition num_val :: "nat \<Rightarrow> str \<Rightarrow> nat" where
  "num_val b s = foldl (\<lambda>a c. a * b + digit_val c) 0 s"

subsection \<open>Reading numerals back\<close>

lemma replicate_numeral_unfold [str_simps]:
  "replicate (numeral v) x = x # replicate (pred_numeral v) x"
  by (simp add: numeral_eq_Suc)

text \<open>A statement about the ten or sixteen digits is a case per digit.\<close>

lemma all_less_10: "(\<forall>k < (10::nat). P k) \<longleftrightarrow>
    P 0 \<and> P 1 \<and> P 2 \<and> P 3 \<and> P 4 \<and> P 5 \<and> P 6 \<and> P 7 \<and> P 8 \<and> P 9"
  by (simp add: numeral_eq_Suc All_less_Suc) blast

lemma all_less_16: "(\<forall>k < (16::nat). P k) \<longleftrightarrow>
    P 0 \<and> P 1 \<and> P 2 \<and> P 3 \<and> P 4 \<and> P 5 \<and> P 6 \<and> P 7 \<and> P 8 \<and> P 9
    \<and> P 10 \<and> P 11 \<and> P 12 \<and> P 13 \<and> P 14 \<and> P 15"
  by (simp add: numeral_eq_Suc All_less_Suc) blast

lemma digit_val_dig: "k < 10 \<Longrightarrow> digit_val (dig k) = k"
proof -
  have "\<forall>k < (10::nat). digit_val (dig k) = k"
    by (simp only: all_less_10) code_simp
  then show "k < 10 \<Longrightarrow> digit_val (dig k) = k" by blast
qed

lemma digit_val_hexdig_up: "k < 16 \<Longrightarrow> digit_val (hexdig_up k) = k"
proof -
  have "\<forall>k < (16::nat). digit_val (hexdig_up k) = k"
    by (simp only: all_less_16) code_simp
  then show "k < 16 \<Longrightarrow> digit_val (hexdig_up k) = k" by blast
qed

lemma digit_val_hexdig_lo: "k < 16 \<Longrightarrow> digit_val (hexdig_lo k) = k"
proof -
  have "\<forall>k < (16::nat). digit_val (hexdig_lo k) = k"
    by (simp only: all_less_16) code_simp
  then show "k < 16 \<Longrightarrow> digit_val (hexdig_lo k) = k" by blast
qed

lemma is_digit_dig: "k < 10 \<Longrightarrow> is_digit (dig k)"
proof -
  have "\<forall>k < (10::nat). is_digit (dig k)"
    by (simp only: all_less_10) code_simp
  then show "k < 10 \<Longrightarrow> is_digit (dig k)" by blast
qed

lemma is_hexdig_up: "k < 16 \<Longrightarrow> is_hexdig (hexdig_up k) \<and> \<not> is_lower (hexdig_up k)"
proof -
  have "\<forall>k < (16::nat). is_hexdig (hexdig_up k) \<and> \<not> is_lower (hexdig_up k)"
    by (simp only: all_less_16) code_simp
  then show "k < 16 \<Longrightarrow> is_hexdig (hexdig_up k) \<and> \<not> is_lower (hexdig_up k)" by blast
qed

lemma digits_nonempty: "digits b f n \<noteq> []"
  by (subst digits.simps) simp

lemma digits_all: "2 \<le> b \<Longrightarrow> \<forall>k < b. P (f k) \<Longrightarrow> \<forall>c \<in> set (digits b f n). P c"
proof (induction b f n rule: digits.induct)
  case (1 b f n)
  show ?case
  proof (cases "n < b")
    case True
    with 1 show ?thesis by (subst digits.simps) simp
  next
    case False
    with 1 have "\<forall>c \<in> set (digits b f (n div b)). P c" by simp
    with False 1 show ?thesis by (subst digits.simps) auto
  qed
qed

lemma num_val_snoc: "num_val b (s @ [c]) = num_val b s * b + digit_val c"
  by (simp add: num_val_def)

lemma num_val_digits:
  "2 \<le> b \<Longrightarrow> \<forall>k < b. digit_val (f k) = k \<Longrightarrow> num_val b (digits b f n) = n"
proof (induction b f n rule: digits.induct)
  case (1 b f n)
  show ?case
  proof (cases "n < b")
    case True
    with 1 show ?thesis by (subst digits.simps) (simp add: num_val_def)
  next
    case False
    with 1 have "num_val b (digits b f (n div b)) = n div b" by simp
    with False 1 show ?thesis
      by (subst digits.simps) (auto simp: num_val_snoc)
  qed
qed

lemma num_val_replicate_zero: "num_val b (replicate k CHR ''0'' @ s) = num_val b s"
proof -
  have "foldl (\<lambda>a c. a * b + digit_val c) 0 (replicate k CHR ''0'') = 0"
    by (induction k) (simp_all add: digit_val_def)
  then show ?thesis by (simp add: num_val_def)
qed

lemma num_val_str_of_nat: "num_val 10 (str_of_nat n) = n"
  by (simp add: str_of_nat_def num_val_digits digit_val_dig)

lemma str_of_nat_digits: "c \<in> set (str_of_nat n) \<Longrightarrow> is_digit c"
  using digits_all [of 10 is_digit dig n] by (auto simp: str_of_nat_def is_digit_dig)

lemma str_of_nat_nonempty: "str_of_nat n \<noteq> []"
  by (simp add: str_of_nat_def digits_nonempty)

text \<open>A non-negative number in upper-case hexadecimal reads back, and has no lower-case letter.\<close>

lemma num_val_fmt_X: "0 \<le> i \<Longrightarrow> num_val 16 (fmt_X w i) = nat i"
  by (simp add: fmt_hex_def zpad_def num_val_replicate_zero num_val_digits digit_val_hexdig_up)

lemma fmt_X_inj: "0 \<le> i \<Longrightarrow> 0 \<le> j \<Longrightarrow> fmt_X w i = fmt_X w j \<longleftrightarrow> i = j"
  using num_val_fmt_X [of i w] num_val_fmt_X [of j w] by (metis int_nat_eq)

lemma fmt_X_chars: "c \<in> set (fmt_X w i) \<Longrightarrow> \<not> is_lower c"
proof -
  have d: "c \<in> set (digits 16 hexdig_up n) \<Longrightarrow> \<not> is_lower c" for n
    using digits_all [of 16 "\<lambda>c. \<not> is_lower c" hexdig_up n] by (auto simp: is_hexdig_up)
  have z: "\<not> is_lower CHR ''0''" "\<not> is_lower CHR ''-''" by code_simp+
  show "c \<in> set (fmt_X w i) \<Longrightarrow> \<not> is_lower c"
    using d z by (auto simp: fmt_hex_def zpad_def split: if_splits)
qed

end
