(* ===== verification/Json.thy ===== *)
theory Json
  imports PyText
begin

text \<open>
  The \<^verbatim>\<open>json\<close> module as the program uses it: \<^verbatim>\<open>json.dumps(v, indent=2)\<close> and
  \<^verbatim>\<open>json.loads(s)\<close> on the values the program stores (no floating point numbers). The
  parser is recursive descent with fuel; \<open>loads_dumps\<close> shows that the fuel \<open>loads\<close> gives
  it is enough to read back everything \<open>dumps\<close> writes.
\<close>

datatype json =
    JNull
  | JBool bool
  | JInt int
  | JStr str
  | JList "json list"
  | JObj "(str \<times> json) list"

subsection \<open>Printing\<close>

definition is_ctrl :: "char \<Rightarrow> bool" where
  "is_ctrl c \<longleftrightarrow> c < CHR '' '' \<or> CHR ''~'' < c"

text \<open>ASCII output: quotes, backslashes and everything outside the printable range are escaped.\<close>

definition esc_char :: "char \<Rightarrow> str" where
  "esc_char c =
     (if c = CHR 0x22 then [CHR 0x5C, CHR 0x22]
      else if c = CHR 0x5C then [CHR 0x5C, CHR 0x5C]
      else if c = CHR 0x0A then [CHR 0x5C, CHR ''n'']
      else if c = CHR 0x0D then [CHR 0x5C, CHR ''r'']
      else if c = CHR 0x09 then [CHR 0x5C, CHR ''t'']
      else if c = CHR 0x0C then [CHR 0x5C, CHR ''f'']
      else if c = CHR 0x08 then [CHR 0x5C, CHR ''b'']
      else if is_ctrl c then
        [CHR 0x5C, CHR ''u'', CHR ''0'', CHR ''0'',
         hexdig_lo (of_char c div 16), hexdig_lo (of_char c mod 16)]
      else [c])"

definition dump_str :: "str \<Rightarrow> str" where
  "dump_str s = CHR 0x22 # concat (map esc_char s) @ [CHR 0x22]"

definition newline_indent :: "nat \<Rightarrow> str" where
  "newline_indent n = CHR 0x0A # replicate (2 * n) CHR '' ''"

fun dump_at :: "nat \<Rightarrow> json \<Rightarrow> str" where
  "dump_at n JNull = ''null''"
| "dump_at n (JBool b) = (if b then ''true'' else ''false'')"
| "dump_at n (JInt i) = str_of_int i"
| "dump_at n (JStr s) = dump_str s"
| "dump_at n (JList []) = ''[]''"
| "dump_at n (JList (v # vs)) =
     ''['' @ newline_indent (Suc n) @ dump_at (Suc n) v
     @ concat (map (\<lambda>w. '','' @ newline_indent (Suc n) @ dump_at (Suc n) w) vs)
     @ newline_indent n @ '']''"
| "dump_at n (JObj []) = ''{}''"
| "dump_at n (JObj (kv # kvs)) =
     ''{'' @ newline_indent (Suc n) @ dump_str (fst kv) @ '': '' @ dump_at (Suc n) (snd kv)
     @ concat (map (\<lambda>kw. '','' @ newline_indent (Suc n) @ dump_str (fst kw) @ '': ''
         @ dump_at (Suc n) (snd kw)) kvs)
     @ newline_indent n @ ''}''"

definition dumps :: "json \<Rightarrow> str" where
  "dumps v = dump_at 0 v"

subsection \<open>Parsing\<close>

definition json_ws :: "char \<Rightarrow> bool" where
  "json_ws c \<longleftrightarrow> c = CHR '' '' \<or> c = CHR 0x09 \<or> c = CHR 0x0A \<or> c = CHR 0x0D"

definition skip_ws :: "str \<Rightarrow> str" where
  "skip_ws s = dropWhile json_ws s"

definition unescape :: "char \<Rightarrow> char option" where
  "unescape c =
     map_of [(CHR 0x22, CHR 0x22), (CHR 0x5C, CHR 0x5C), (CHR ''/'', CHR ''/''),
       (CHR ''n'', CHR 0x0A), (CHR ''r'', CHR 0x0D), (CHR ''t'', CHR 0x09),
       (CHR ''f'', CHR 0x0C), (CHR ''b'', CHR 0x08)] c"

text \<open>The body of a string literal, after its opening quote. A code point above 255 is outside the model.\<close>

fun parse_str :: "str \<Rightarrow> (str \<times> str) option" where
  "parse_str [] = None"
| "parse_str (c # cs) =
     (if c = CHR 0x22 then Some ([], cs)
      else if c = CHR 0x5C then
        (case cs of
           [] \<Rightarrow> None
         | e # es \<Rightarrow>
             if e = CHR ''u'' then
               (case es of
                  a # b # d # f # rest \<Rightarrow>
                    if list_all is_hexdig [a, b, d, f] \<and> num_val 16 [a, b, d, f] < 256
                    then map_option (apfst (Cons (char_of (num_val 16 [a, b, d, f])))) (parse_str rest)
                    else None
                | _ \<Rightarrow> None)
             else
               (case unescape e of
                  None \<Rightarrow> None
                | Some x \<Rightarrow> map_option (apfst (Cons x)) (parse_str es)))
      else if c < CHR '' '' then None
      else map_option (apfst (Cons c)) (parse_str cs))"

text \<open>An integer literal; a fraction or exponent after it is outside the model.\<close>

definition parse_nat :: "str \<Rightarrow> (nat \<times> str) option" where
  "parse_nat t =
     (let ds = (if t \<noteq> [] \<and> hd t = CHR ''0'' then ''0'' else takeWhile is_digit t);
          rest = drop (length ds) t
      in if ds = [] then None
         else if rest \<noteq> [] \<and> hd rest \<in> {CHR ''.'', CHR ''e'', CHR ''E''} then None
         else Some (num_val 10 ds, rest))"

definition parse_int :: "str \<Rightarrow> (json \<times> str) option" where
  "parse_int s =
     (if s \<noteq> [] \<and> hd s = CHR ''-'' then map_option (apfst (\<lambda>n. JInt (- int n))) (parse_nat (tl s))
      else map_option (apfst (\<lambda>n. JInt (int n))) (parse_nat s))"

definition parse_lit :: "str \<Rightarrow> (json \<times> str) option" where
  "parse_lit s =
     (if starts_with ''null'' s then Some (JNull, drop 4 s)
      else if starts_with ''true'' s then Some (JBool True, drop 4 s)
      else if starts_with ''false'' s then Some (JBool False, drop 5 s)
      else parse_int s)"

definition eat :: "char \<Rightarrow> str \<Rightarrow> str option" where
  "eat c s = (case s of [] \<Rightarrow> None | x # xs \<Rightarrow> if x = c then Some xs else None)"

fun parse_value :: "nat \<Rightarrow> str \<Rightarrow> (json \<times> str) option"
and parse_elems :: "nat \<Rightarrow> json list \<Rightarrow> str \<Rightarrow> (json \<times> str) option"
and parse_members :: "nat \<Rightarrow> (str, json) dict \<Rightarrow> str \<Rightarrow> (json \<times> str) option"
where
  "parse_value 0 s = None"
| "parse_value (Suc n) s =
     (case s of
        [] \<Rightarrow> None
      | c # cs \<Rightarrow>
          if c = CHR 0x22 then map_option (apfst JStr) (parse_str cs)
          else if c = CHR ''['' then
            (case eat (CHR '']'') (skip_ws cs) of
               Some r \<Rightarrow> Some (JList [], r)
             | None \<Rightarrow> parse_elems n [] (skip_ws cs))
          else if c = CHR ''{'' then
            (case eat (CHR ''}'') (skip_ws cs) of
               Some r \<Rightarrow> Some (JObj [], r)
             | None \<Rightarrow> parse_members n [] (skip_ws cs))
          else parse_lit s)"
| "parse_elems 0 acc s = None"
| "parse_elems (Suc n) acc s =
     (case parse_value n s of
        None \<Rightarrow> None
      | Some (v, r) \<Rightarrow>
          (case eat (CHR '','') (skip_ws r) of
             Some r' \<Rightarrow> parse_elems n (acc @ [v]) (skip_ws r')
           | None \<Rightarrow> map_option (Pair (JList (acc @ [v]))) (eat (CHR '']'') (skip_ws r))))"
| "parse_members 0 acc s = None"
| "parse_members (Suc n) acc s =
     (case Option.bind (eat (CHR 0x22) s) parse_str of
        None \<Rightarrow> None
      | Some (k, r) \<Rightarrow>
          (case eat (CHR '':'') (skip_ws r) of
             None \<Rightarrow> None
           | Some r' \<Rightarrow>
               (case parse_value n (skip_ws r') of
                  None \<Rightarrow> None
                | Some (v, q) \<Rightarrow>
                    (case eat (CHR '','') (skip_ws q) of
                       Some q' \<Rightarrow> parse_members n (dset k v acc) (skip_ws q')
                     | None \<Rightarrow> map_option (Pair (JObj (dset k v acc))) (eat (CHR ''}'') (skip_ws q))))))"

declare parse_value.simps(2) [simp del] parse_elems.simps(2) [simp del] parse_members.simps(2) [simp del]

definition loads :: "str \<Rightarrow> json option" where
  "loads s =
     (case parse_value (Suc (2 * length s)) (skip_ws s) of
        None \<Rightarrow> None
      | Some (v, r) \<Rightarrow> if skip_ws r = [] then Some v else None)"

subsection \<open>Reading back what was written\<close>

text \<open>The keys of every object are distinct, which a Python dictionary guarantees.\<close>

fun json_ok :: "json \<Rightarrow> bool" where
  "json_ok (JList vs) = (\<forall>v \<in> set vs. json_ok v)"
| "json_ok (JObj kvs) = (dict_ok kvs \<and> (\<forall>kv \<in> set kvs. json_ok (snd kv)))"
| "json_ok _ = True"

lemma char_of_hex_pair: "char_of ((of_char c div 16) * 16 + (of_char c :: nat) mod 16) = c"
  by (simp add: div_mult_mod_eq)

lemma of_char_div_16: "of_char c div 16 < (16::nat)"
  by (simp add: less_mult_imp_div_less)

lemma num_val_esc:
  "num_val 16 [CHR ''0'', CHR ''0'', hexdig_lo (of_char c div 16), hexdig_lo (of_char c mod 16)]
     = of_char c"
  by (simp add: num_val_def digit_val_hexdig_lo of_char_div_16) (simp add: digit_val_def)

lemma is_hexdig_lo: "k < 16 \<Longrightarrow> is_hexdig (hexdig_lo k)"
proof -
  have "\<forall>k < (16::nat). is_hexdig (hexdig_lo k)"
    by (simp only: all_less_16) code_simp
  then show "k < 16 \<Longrightarrow> is_hexdig (hexdig_lo k)" by blast
qed

lemma parse_str_esc_char: "parse_str (esc_char c @ rest) = map_option (apfst (Cons c)) (parse_str rest)"
proof (cases "c \<in> {CHR 0x22, CHR 0x5C, CHR 0x0A, CHR 0x0D, CHR 0x09, CHR 0x0C, CHR 0x08}")
  case True
  then show ?thesis by (auto simp: esc_char_def unescape_def)
next
  case no_short: False
  show ?thesis
  proof (cases "is_ctrl c")
    case True
    have "is_hexdig CHR ''0''" by code_simp
    then have
      "list_all is_hexdig [CHR ''0'', CHR ''0'', hexdig_lo (of_char c div 16), hexdig_lo (of_char c mod 16)]"
      by (simp add: is_hexdig_lo of_char_div_16)
    then show ?thesis using no_short True num_val_esc [of c] nat_of_char_less_256 [of c]
      by (simp add: esc_char_def)
  next
    case False
    with no_short show ?thesis by (simp add: esc_char_def is_ctrl_def)
  qed
qed

lemma parse_str_dump: "parse_str (concat (map esc_char s) @ CHR 0x22 # rest) = Some (s, rest)"
  by (induction s) (simp_all add: parse_str_esc_char)

text \<open>A value is followed by the end of the text, a comma or a line break.\<close>

definition stop :: "str \<Rightarrow> bool" where
  "stop s \<longleftrightarrow> s = [] \<or> hd s = CHR '','' \<or> hd s = CHR 0x0A"

lemma stop_not_digit: "stop s \<Longrightarrow> s = [] \<or> \<not> is_digit (hd s)"
proof -
  have "\<not> is_digit CHR '',''" "\<not> is_digit CHR 0x0A" by code_simp+
  then show "stop s \<Longrightarrow> s = [] \<or> \<not> is_digit (hd s)" by (auto simp: stop_def)
qed

lemma str_of_nat_zero_head:
  "hd (str_of_nat n) = CHR ''0'' \<Longrightarrow> str_of_nat n = ''0''"
proof (induction n rule: less_induct)
  case (less n)
  show ?case
  proof (cases "n < 10")
    case True
    then show ?thesis using less.prems by (simp add: str_of_nat_def digits.simps)
  next
    case False
    then have eq: "str_of_nat n = str_of_nat (n div 10) @ [dig (n mod 10)]"
      unfolding str_of_nat_def by (subst digits.simps) simp
    then have "hd (str_of_nat (n div 10)) = CHR ''0''"
      using less.prems str_of_nat_nonempty [of "n div 10"] by simp
    then have "str_of_nat (n div 10) = ''0''" using less.IH [of "n div 10"] False by simp
    then have "n div 10 = 0" using num_val_str_of_nat [of "n div 10"]
      by (simp add: num_val_def digit_val_def)
    with False show ?thesis by simp
  qed
qed

lemma int_digits:
  assumes "stop rest"
  shows "(if str_of_nat n @ rest \<noteq> [] \<and> hd (str_of_nat n @ rest) = CHR ''0'' then ''0''
     else takeWhile is_digit (str_of_nat n @ rest)) = str_of_nat n"
proof -
  have "takeWhile is_digit (str_of_nat n @ rest) = str_of_nat n"
    by (rule takeWhile_append_stop) (auto simp: str_of_nat_digits stop_not_digit [OF assms])
  then show ?thesis
    using str_of_nat_zero_head [of n] str_of_nat_nonempty [of n] by (cases "str_of_nat n") auto
qed

lemma str_of_int_head: "hd (str_of_int i) = CHR ''-'' \<or> is_digit (hd (str_of_int i))"
proof -
  have "is_digit (hd (str_of_nat n))" for n
    using str_of_nat_digits [OF hd_in_set [OF str_of_nat_nonempty]] .
  then show ?thesis by (simp add: str_of_int_def)
qed

lemma str_of_int_nonempty: "str_of_int i \<noteq> []"
  by (simp add: str_of_int_def str_of_nat_nonempty)

lemma parse_nat_str:
  assumes "stop rest"
  shows "parse_nat (str_of_nat n @ rest) = Some (n, rest)"
proof -
  have "\<not> (rest \<noteq> [] \<and> hd rest \<in> {CHR ''.'', CHR ''e'', CHR ''E''})"
    using assms by (auto simp: stop_def)
  then show ?thesis
    unfolding parse_nat_def Let_def int_digits [OF assms]
    by (simp add: str_of_nat_nonempty num_val_str_of_nat)
qed

lemma parse_int_str: "stop rest \<Longrightarrow> parse_int (str_of_int i @ rest) = Some (JInt i, rest)"
proof -
  assume st: "stop rest"
  have "\<not> is_digit CHR ''-''" by code_simp
  then have "hd (str_of_nat n @ rest) \<noteq> CHR ''-''" for n
    using str_of_nat_digits [of "hd (str_of_nat n)" n] str_of_nat_nonempty [of n] by auto
  then show ?thesis
    by (simp add: parse_int_def str_of_int_def parse_nat_str [OF st] str_of_nat_nonempty)
qed

text \<open>The first character of a printed value: no white space and no closing bracket.\<close>

definition value_head :: "char \<Rightarrow> bool" where
  "value_head c \<longleftrightarrow> \<not> json_ws c \<and> c \<noteq> CHR '']'' \<and> c \<noteq> CHR ''}''"

lemma value_head_int: "value_head (hd (str_of_int i))"
proof -
  have h: "value_head CHR ''-''" by code_simp
  have "\<not> is_digit c" if "\<not> value_head c" for c
  proof -
    have "\<not> is_digit CHR '' ''" "\<not> is_digit CHR 0x09" "\<not> is_digit CHR 0x0A" "\<not> is_digit CHR 0x0D"
      "\<not> is_digit CHR '']''" "\<not> is_digit CHR ''}''"
      by code_simp+
    with that show ?thesis by (auto simp: value_head_def json_ws_def)
  qed
  with h str_of_int_head [of i] show ?thesis by metis
qed

lemma dump_head: "dump_at k v \<noteq> [] \<and> value_head (hd (dump_at k v))"
proof -
  have l: "value_head CHR ''n''" "value_head CHR ''t''" "value_head CHR ''f''" "value_head CHR 0x22"
    "value_head CHR ''[''" "value_head CHR ''{''"
    by code_simp+
  show ?thesis
    by (cases "(k, v)" rule: dump_at.cases)
       (simp_all add: l str_of_int_nonempty value_head_int dump_str_def)
qed

lemma skip_ws_dump: "skip_ws (dump_at k v @ rest) = dump_at k v @ rest"
proof -
  obtain c cs where c: "dump_at k v = c # cs" using dump_head [of k v] by (cases "dump_at k v") auto
  then have "\<not> json_ws c" using dump_head [of k v] by (simp add: value_head_def)
  with c show ?thesis by (simp add: skip_ws_def)
qed

lemma skip_ws_indent: "skip_ws (newline_indent n @ s) = skip_ws s"
proof -
  have w: "json_ws CHR 0x0A" "json_ws CHR '' ''" by code_simp+
  have "dropWhile json_ws (replicate k CHR '' '' @ s) = dropWhile json_ws s" for k
    by (induction k) (simp_all add: w)
  then show ?thesis by (simp add: skip_ws_def newline_indent_def w)
qed

lemma skip_ws_nonws: "\<not> json_ws c \<Longrightarrow> skip_ws (c # s) = c # s"
  by (simp add: skip_ws_def)

lemma skip_ws_space: "skip_ws (CHR '' '' # s) = skip_ws s"
proof -
  have "json_ws CHR '' ''" by code_simp
  then show ?thesis by (simp add: skip_ws_def)
qed

lemma json_punct: "\<not> json_ws CHR '',''" "\<not> json_ws CHR '']''" "\<not> json_ws CHR ''}''" "\<not> json_ws CHR '':''"
  "\<not> json_ws CHR 0x22"
  by code_simp+

lemma eat_dump: "c = CHR '']'' \<or> c = CHR ''}'' \<Longrightarrow> eat c (dump_at k v @ rest) = None"
  using dump_head [of k v] by (cases "dump_at k v") (auto simp: eat_def value_head_def)

lemma stop_simps: "stop []" "stop (CHR '','' # s)" "stop (newline_indent n @ s)"
  by (simp_all add: stop_def newline_indent_def)

lemmas json_step_simps = eat_def skip_ws_space skip_ws_indent skip_ws_dump skip_ws_nonws json_punct stop_simps

text \<open>The text between the first element of a list, or the first member of an object, and the closing bracket.\<close>

definition elems_tail :: "nat \<Rightarrow> json list \<Rightarrow> str" where
  "elems_tail k vs = concat (map (\<lambda>w. '','' @ newline_indent k @ dump_at k w) vs)"

definition dump_member :: "nat \<Rightarrow> str \<times> json \<Rightarrow> str" where
  "dump_member k kv = dump_str (fst kv) @ '': '' @ dump_at k (snd kv)"

definition members_tail :: "nat \<Rightarrow> (str \<times> json) list \<Rightarrow> str" where
  "members_tail k kvs = concat (map (\<lambda>kv. '','' @ newline_indent k @ dump_member k kv) kvs)"

lemma tail_simps:
  "elems_tail k [] = []" "elems_tail k (w # ws) = CHR '','' # newline_indent k @ dump_at k w @ elems_tail k ws"
  "members_tail k [] = []"
  "members_tail k (kv # kvs) = CHR '','' # newline_indent k @ dump_member k kv @ members_tail k kvs"
  by (simp_all add: elems_tail_def members_tail_def)

lemma dump_at_nonempty_list:
  "dump_at k (JList (v # vs)) = CHR ''['' # newline_indent (Suc k) @ dump_at (Suc k) v
     @ elems_tail (Suc k) vs @ newline_indent k @ '']''"
  by (simp add: elems_tail_def)

lemma dump_at_nonempty_obj:
  "dump_at k (JObj (kv # kvs)) = CHR ''{'' # newline_indent (Suc k) @ dump_member (Suc k) kv
     @ members_tail (Suc k) kvs @ newline_indent k @ ''}''"
  by (simp add: members_tail_def dump_member_def)

lemma length_newline_indent: "length (newline_indent k) = Suc (2 * k)"
  by (simp add: newline_indent_def)

lemma Suc_Suc_if_two_le: "2 \<le> m \<Longrightarrow> \<exists>m'. m = Suc (Suc m')"
  by presburger

lemma parse_elems_dump:
  assumes "\<And>w m rest. w \<in> set (v # vs) \<Longrightarrow> length (dump_at k w) \<le> m \<Longrightarrow> stop rest \<Longrightarrow>
      parse_value (Suc m) (dump_at k w @ rest) = Some (w, rest)"
    and "length (dump_at k v @ elems_tail k vs) + 1 < m"
  shows "parse_elems m acc (dump_at k v @ elems_tail k vs @ newline_indent j @ CHR '']'' # rest)
     = Some (JList (acc @ v # vs), rest)"
  using assms
proof (induction vs arbitrary: v m acc)
  case Nil
  then obtain m' where m: "m = Suc (Suc m')" using Suc_Suc_if_two_le [of m] by auto
  with Nil.prems have "parse_value (Suc m') (dump_at k v @ newline_indent j @ CHR '']'' # rest)
      = Some (v, newline_indent j @ CHR '']'' # rest)"
    by (simp add: json_step_simps tail_simps)
  with m show ?case by (simp add: json_step_simps tail_simps parse_elems.simps(2))
next
  case (Cons u us)
  from Cons.prems(2) have "2 \<le> m" by linarith
  then obtain m' where m: "m = Suc (Suc m')" using Suc_Suc_if_two_le by blast
  have l: "length (dump_at k v) \<le> m'" "length (dump_at k u @ elems_tail k us) + 1 < Suc m'"
    using Cons.prems(2) by (simp_all add: m tail_simps length_newline_indent)
  let ?r = "dump_at k u @ elems_tail k us @ newline_indent j @ CHR '']'' # rest"
  have head: "parse_value (Suc m') (dump_at k v @ CHR '','' # newline_indent k @ ?r)
      = Some (v, CHR '','' # newline_indent k @ ?r)"
    by (rule Cons.prems(1)) (simp_all add: l stop_simps)
  have "parse_elems (Suc m') (acc @ [v]) ?r = Some (JList ((acc @ [v]) @ u # us), rest)"
    by (rule Cons.IH) (use Cons.prems(1) l(2) in auto)
  with head show ?case
    by (simp add: m json_step_simps tail_simps parse_elems.simps(2) [of "Suc m'"])
qed

lemma dset_new: "k \<notin> set (map fst d) \<Longrightarrow> dset k v d = d @ [(k, v)]"
  by (induction d) auto

lemma parse_members_dump:
  assumes "\<And>w m rest. w \<in> set (kv # kvs) \<Longrightarrow> length (dump_at k (snd w)) \<le> m \<Longrightarrow> stop rest \<Longrightarrow>
      parse_value (Suc m) (dump_at k (snd w) @ rest) = Some (snd w, rest)"
    and "length (dump_member k kv @ members_tail k kvs) + 1 < m"
    and "dict_ok (acc @ kv # kvs)"
  shows "parse_members m acc (dump_member k kv @ members_tail k kvs @ newline_indent j @ CHR ''}'' # rest)
     = Some (JObj (acc @ kv # kvs), rest)"
  using assms
proof (induction kvs arbitrary: kv m acc)
  case Nil
  then obtain m' where m: "m = Suc (Suc m')" using Suc_Suc_if_two_le [of m] by auto
  with Nil.prems(1) [of kv m'] Nil.prems(2)
  have "parse_value (Suc m') (dump_at k (snd kv) @ newline_indent j @ CHR ''}'' # rest)
      = Some (snd kv, newline_indent j @ CHR ''}'' # rest)"
    by (simp add: json_step_simps tail_simps dump_member_def)
  with m Nil.prems(3) show ?case
    by (simp add: json_step_simps tail_simps dump_member_def dump_str_def parse_str_dump dset_new
        parse_members.simps(2))
next
  case (Cons kw kws)
  from Cons.prems(2) have "2 \<le> m" by linarith
  then obtain m' where m: "m = Suc (Suc m')" using Suc_Suc_if_two_le by blast
  have l: "length (dump_at k (snd kv)) \<le> m'" "length (dump_member k kw @ members_tail k kws) + 1 < Suc m'"
    using Cons.prems(2) by (simp_all add: m tail_simps length_newline_indent dump_member_def [of k kv])
  let ?r = "dump_member k kw @ members_tail k kws @ newline_indent j @ CHR ''}'' # rest"
  have head: "parse_value (Suc m') (dump_at k (snd kv) @ CHR '','' # newline_indent k @ ?r)
      = Some (snd kv, CHR '','' # newline_indent k @ ?r)"
    by (rule Cons.prems(1)) (simp_all add: l stop_simps)
  have ws: "skip_ws ?r = ?r"
    by (simp add: dump_member_def dump_str_def skip_ws_nonws json_punct)
  have "parse_members (Suc m') (acc @ [kv]) ?r = Some (JObj ((acc @ [kv]) @ kw # kws), rest)"
    by (rule Cons.IH) (use Cons.prems l(2) in auto)
  with head ws Cons.prems(3) show ?case
    by (simp add: m json_step_simps tail_simps dump_member_def [of k kv] dump_str_def [of "fst kv"]
        parse_str_dump dset_new parse_members.simps(2) [of "Suc m'"])
qed


lemma parse_dump:
  "json_ok v \<Longrightarrow> length (dump_at k v) \<le> m \<Longrightarrow> stop rest \<Longrightarrow>
     parse_value (Suc m) (dump_at k v @ rest) = Some (v, rest)"
proof (induction v arbitrary: k m rest)
  case JNull
  then show ?case by (simp add: parse_value.simps(2) parse_lit_def starts_with_def)
next
  case (JBool b)
  then show ?case by (simp add: parse_value.simps(2) parse_lit_def starts_with_def)
next
  case (JInt i)
  obtain c cs where c: "str_of_int i = c # cs" using str_of_int_nonempty by (cases "str_of_int i") auto
  have "\<not> is_digit CHR 0x22" "\<not> is_digit CHR ''[''" "\<not> is_digit CHR ''{''"
    "\<not> is_digit CHR ''n''" "\<not> is_digit CHR ''t''" "\<not> is_digit CHR ''f''"
    by code_simp+
  then have "c \<notin> {CHR 0x22, CHR ''['', CHR ''{'', CHR ''n'', CHR ''t'', CHR ''f''}"
    using str_of_int_head [of i] c by auto
  moreover have "parse_int (c # cs @ rest) = Some (JInt i, rest)"
    using parse_int_str [OF JInt.prems(3), of i] c by simp
  ultimately show ?case by (simp add: parse_value.simps(2) parse_lit_def starts_with_def c)
next
  case (JStr s)
  then show ?case by (simp add: parse_value.simps(2) dump_str_def parse_str_dump)
next
  case (JList vs)
  show ?case
  proof (cases vs)
    case Nil
    then show ?thesis by (simp add: parse_value.simps(2) json_step_simps)
  next
    case (Cons w ws)
    let ?r = "dump_at (Suc k) w @ elems_tail (Suc k) ws @ newline_indent k @ CHR '']'' # rest"
    have "parse_elems m [] ?r = Some (JList ([] @ w # ws), rest)"
    proof (rule parse_elems_dump)
      show "parse_value (Suc m') (dump_at (Suc k) u @ r) = Some (u, r)"
        if "u \<in> set (w # ws)" "length (dump_at (Suc k) u) \<le> m'" "stop r" for u m' r
        using that JList.IH JList.prems(1) Cons by auto
      show "length (dump_at (Suc k) w @ elems_tail (Suc k) ws) + 1 < m"
        using JList.prems(2) unfolding Cons dump_at_nonempty_list by (simp add: length_newline_indent)
    qed
    then show ?thesis
      by (simp add: Cons parse_value.simps(2) dump_at_nonempty_list json_step_simps(3-) eat_dump
          del: dump_at.simps)
  qed
next
  case (JObj kvs)
  show ?case
  proof (cases kvs)
    case Nil
    then show ?thesis by (simp add: parse_value.simps(2) json_step_simps)
  next
    case (Cons w ws)
    let ?r = "dump_member (Suc k) w @ members_tail (Suc k) ws @ newline_indent k @ CHR ''}'' # rest"
    have "parse_members m [] ?r = Some (JObj ([] @ w # ws), rest)"
    proof (rule parse_members_dump)
      show "parse_value (Suc m') (dump_at (Suc k) (snd u) @ r) = Some (snd u, r)"
        if "u \<in> set (w # ws)" "length (dump_at (Suc k) (snd u)) \<le> m'" "stop r" for u m' r
        using that JObj.IH [of u "snd u"] JObj.prems(1) Cons by (auto simp: snds.simps)
      show "length (dump_member (Suc k) w @ members_tail (Suc k) ws) + 1 < m"
        using JObj.prems(2) unfolding Cons dump_at_nonempty_obj by (simp add: length_newline_indent)
      show "dict_ok ([] @ w # ws)" using JObj.prems(1) Cons by simp
    qed
    moreover have "skip_ws ?r = ?r" "eat CHR ''}'' ?r = None"
      by (simp_all add: dump_member_def dump_str_def skip_ws_nonws json_punct eat_def)
    ultimately show ?thesis
      by (simp add: Cons parse_value.simps(2) dump_at_nonempty_obj skip_ws_indent del: dump_at.simps)
  qed
qed

lemma loads_dumps: "json_ok v \<Longrightarrow> loads (dumps v) = Some v"
proof -
  assume ok: "json_ok v"
  have "parse_value (Suc (2 * length (dump_at 0 v))) (dump_at 0 v @ []) = Some (v, [])"
    by (rule parse_dump) (simp_all add: ok stop_simps)
  moreover have "skip_ws (dump_at 0 v) = dump_at 0 v" using skip_ws_dump [of 0 v "[]"] by simp
  moreover have "skip_ws [] = []" by (simp add: skip_ws_def)
  ultimately show "loads (dumps v) = Some v" by (simp add: loads_def dumps_def)
qed

text \<open>The JSON text form is a codec for values with well-formed objects.\<close>

interpretation json_text: codec dumps loads json_ok
  by unfold_locales (rule loads_dumps)

subsection \<open>Properties\<close>

text \<open>What \<^verbatim>\<open>json.dumps\<close> writes for a value whose objects have distinct keys, \<^verbatim>\<open>json.loads\<close> reads back as the same value.\<close>

lemma json_round_trip:
  assumes "json_ok v"
  shows "loads (dumps v) = Some v"
  using json_text.dec_enc [OF assms] .

end
