(* ===== verification/World.thy ===== *)
theory World
  imports PyText
begin

text \<open>
  What surrounds the program: file paths, the file system, external commands, the clock, and
  Python's exceptions. A computation is a function from a state to an exception or a value,
  and the new state; what happened before an exception stays done, as in Python.

  The file system maps absolute normalised paths to nodes. External commands, permissions,
  the clock, the network and the number of processors are the fields of \<open>env\<close>, an argument of
  every definition that uses them: nothing is assumed of them. \<open>events\<close> records what the
  program itself did, in order.
\<close>

subsection \<open>Exceptions and computations\<close>

datatype exn =
    StepError str
  | OSErr str
  | FileNotFound str
  | CalledProcess int
  | KeyErr str
  | ValueErr str
  | TypeErr str
  | AttributeErr str
  | IndexErr
  | StructErr
  | RecursionErr
  | KeyboardInterrupt
  | SystemExit int

text \<open>The subclasses of \<^verbatim>\<open>Exception\<close>, of \<^verbatim>\<open>OSError\<close>, and the text \<^verbatim>\<open>str(e)\<close>.\<close>

fun is_exception :: "exn \<Rightarrow> bool" where
  "is_exception KeyboardInterrupt = False"
| "is_exception (SystemExit _) = False"
| "is_exception _ = True"

fun is_oserror :: "exn \<Rightarrow> bool" where
  "is_oserror (OSErr _) = True"
| "is_oserror (FileNotFound _) = True"
| "is_oserror _ = False"

fun exn_str :: "exn \<Rightarrow> str" where
  "exn_str (StepError m) = m"
| "exn_str (OSErr m) = m"
| "exn_str (FileNotFound m) = m"
| "exn_str (CalledProcess rc) = ''Command returned non-zero exit status '' @ str_of_int rc @ ''.''"
| "exn_str (KeyErr k) = CHR 0x27 # k @ [CHR 0x27]"
| "exn_str (ValueErr m) = m"
| "exn_str (TypeErr m) = m"
| "exn_str (AttributeErr m) = m"
| "exn_str IndexErr = ''list index out of range''"
| "exn_str StructErr = ''unpack_from requires a longer buffer''"
| "exn_str RecursionErr = ''maximum recursion depth exceeded''"
| "exn_str KeyboardInterrupt = []"
| "exn_str (SystemExit rc) = str_of_int rc"

type_synonym ('s, 'a) act = "'s \<Rightarrow> (exn + 'a) \<times> 's"

definition ret :: "'a \<Rightarrow> ('s, 'a) act" where
  "ret x = (\<lambda>s. (Inr x, s))"

definition raise :: "exn \<Rightarrow> ('s, 'a) act" where
  "raise e = (\<lambda>s. (Inl e, s))"

definition bindM :: "('s, 'a) act \<Rightarrow> ('a \<Rightarrow> ('s, 'b) act) \<Rightarrow> ('s, 'b) act" where
  "bindM m f = (\<lambda>s. case m s of (Inl e, s') \<Rightarrow> (Inl e, s') | (Inr x, s') \<Rightarrow> f x s')"

definition thenM :: "('s, 'a) act \<Rightarrow> ('s, 'b) act \<Rightarrow> ('s, 'b) act" where
  "thenM m n = bindM m (\<lambda>_. n)"

fun seqM :: "('s, unit) act list \<Rightarrow> ('s, unit) act" where
  "seqM [] = ret ()"
| "seqM (m # ms) = thenM m (seqM ms)"

fun mapM :: "('a \<Rightarrow> ('s, unit) act) \<Rightarrow> 'a list \<Rightarrow> ('s, unit) act" where
  "mapM f [] = ret ()"
| "mapM f (x # xs) = thenM (f x) (mapM f xs)"

definition whenM :: "bool \<Rightarrow> ('s, unit) act \<Rightarrow> ('s, unit) act" where
  "whenM b m = (if b then m else ret ())"

text \<open>\<^verbatim>\<open>try: m / except e if p(e): h(e)\<close>, and \<^verbatim>\<open>try: m / finally: n\<close> where an exception of \<open>n\<close> replaces the one of \<open>m\<close>.\<close>

definition catchM :: "('s, 'a) act \<Rightarrow> (exn \<Rightarrow> bool) \<Rightarrow> (exn \<Rightarrow> ('s, 'a) act) \<Rightarrow> ('s, 'a) act" where
  "catchM m p h = (\<lambda>s. case m s of (Inl e, s') \<Rightarrow> if p e then h e s' else (Inl e, s') | (Inr x, s') \<Rightarrow> (Inr x, s'))"

definition finallyM :: "('s, 'a) act \<Rightarrow> ('s, unit) act \<Rightarrow> ('s, 'a) act" where
  "finallyM m n = (\<lambda>s. case m s of (r, s') \<Rightarrow> (case n s' of (Inl e, s'') \<Rightarrow> (Inl e, s'') | (Inr _, s'') \<Rightarrow> (r, s'')))"

definition getM :: "('s \<Rightarrow> 'a) \<Rightarrow> ('s, 'a) act" where
  "getM f = (\<lambda>s. (Inr (f s), s))"

definition liftR :: "exn + 'a \<Rightarrow> ('s, 'a) act" where
  "liftR r = (\<lambda>s. (r, s))"

lemmas monad_defs = ret_def raise_def bindM_def thenM_def whenM_def catchM_def finallyM_def
  getM_def liftR_def

lemma thenM_Inr: "m s = (Inr x, s') \<Longrightarrow> thenM m n s = n s'"
  by (simp add: thenM_def bindM_def)

lemma thenM_Inl: "m s = (Inl x, s') \<Longrightarrow> thenM m n s = (Inl x, s')"
  by (simp add: thenM_def bindM_def)

lemma bindM_Inr: "m s = (Inr x, s') \<Longrightarrow> bindM m f s = f x s'"
  by (simp add: bindM_def)

lemma bindM_Inl: "m s = (Inl x, s') \<Longrightarrow> bindM m f s = (Inl x, s')"
  by (simp add: bindM_def)

lemma thenM_apply: "thenM m n s = (case m s of (Inl e, s') \<Rightarrow> (Inl e, s') | (Inr x, s') \<Rightarrow> n s')"
  by (simp add: thenM_def bindM_def)

lemma bindM_InrE:
  assumes "bindM m f s = (Inr y, t)"
  obtains x s1 where "m s = (Inr x, s1)" "f x s1 = (Inr y, t)"
  using assms by (auto simp: bindM_def split: prod.splits sum.splits)

lemma thenM_InrE:
  assumes "thenM m n s = (Inr y, t)"
  obtains x s1 where "m s = (Inr x, s1)" "n s1 = (Inr y, t)"
  using assms unfolding thenM_def by (rule bindM_InrE)

lemma thenM_ret_unit [simp]: "thenM m (ret ()) = m"
  by (rule ext) (auto simp: monad_defs split: prod.splits sum.splits)

text \<open>
  A relation every part of a computation keeps between the state before and after. It is
  reflexive and transitive, and each combinator keeps what its parts keep.
\<close>

definition preserves :: "('s \<Rightarrow> 's \<Rightarrow> bool) \<Rightarrow> ('s, 'a) act \<Rightarrow> bool" where
  "preserves R m \<longleftrightarrow> (\<forall>s. R s (snd (m s)))"

lemma pres_if: "(b \<Longrightarrow> preserves R m) \<Longrightarrow> (\<not> b \<Longrightarrow> preserves R n) \<Longrightarrow> preserves R (if b then m else n)"
  by simp

lemma pres_prod: "(\<And>a b. preserves R (f a b)) \<Longrightarrow> preserves R (case x of (a, b) \<Rightarrow> f a b)"
  by (cases x) simp

lemma pres_option:
  "preserves R m \<Longrightarrow> (\<And>y. preserves R (f y)) \<Longrightarrow> preserves R (case x of None \<Rightarrow> m | Some y \<Rightarrow> f y)"
  by (cases x) simp_all

lemma pres_let: "preserves R (f x) \<Longrightarrow> preserves R (Let x f)"
  by simp

lemmas pres_splits = pres_if pres_prod pres_option pres_let

locale frame =
  fixes R :: "'s \<Rightarrow> 's \<Rightarrow> bool"
  assumes frame_refl: "R s s"
    and frame_trans: "R s t \<Longrightarrow> R t u \<Longrightarrow> R s u"
begin

lemma pres_ret: "preserves R (ret x)"
  by (simp add: preserves_def ret_def frame_refl)

lemma pres_raise: "preserves R (raise e)"
  by (simp add: preserves_def raise_def frame_refl)

lemma pres_getM: "preserves R (getM f)"
  by (simp add: preserves_def getM_def frame_refl)

lemma pres_liftR: "preserves R (liftR r)"
  by (simp add: preserves_def liftR_def frame_refl)

lemma pres_bind:
  assumes "preserves R m" and "\<And>x. preserves R (f x)"
  shows "preserves R (bindM m f)"
  using assms by (auto simp: preserves_def bindM_def split: prod.splits sum.splits)
    (metis frame_trans snd_conv)+

lemma pres_then: "preserves R m \<Longrightarrow> preserves R n \<Longrightarrow> preserves R (thenM m n)"
  by (simp add: thenM_def pres_bind)

lemma pres_seq: "preserves R (seqM [])" "preserves R m \<Longrightarrow> preserves R (seqM ms) \<Longrightarrow> preserves R (seqM (m # ms))"
  by (simp_all add: pres_ret pres_then)

lemma pres_mapM: "(\<And>x. x \<in> set xs \<Longrightarrow> preserves R (f x)) \<Longrightarrow> preserves R (mapM f xs)"
  by (induction xs) (auto intro: pres_ret pres_then)

lemma pres_when: "(b \<Longrightarrow> preserves R m) \<Longrightarrow> preserves R (whenM b m)"
  by (simp add: whenM_def pres_ret)

lemma pres_catch:
  assumes "preserves R m" and "\<And>e. preserves R (h e)"
  shows "preserves R (catchM m p h)"
  using assms by (auto simp: preserves_def catchM_def split: prod.splits sum.splits)
    (metis frame_trans snd_conv)+

lemma pres_finally: "preserves R m \<Longrightarrow> preserves R n \<Longrightarrow> preserves R (finallyM m n)"
  by (auto simp: preserves_def finallyM_def split: prod.splits sum.splits)
    (metis frame_trans snd_conv)+

lemmas pres_intros = pres_ret pres_raise pres_getM pres_liftR pres_bind pres_then pres_seq
  pres_mapM pres_when pres_catch pres_finally

end

subsection \<open>Paths\<close>

text \<open>A \<^verbatim>\<open>PurePosixPath\<close>: its root (empty for a relative path) and its parts.\<close>

datatype path = Path (proot: str) (pparts: "str list")

definition mk_path :: "str \<Rightarrow> path" where
  "mk_path s =
     Path (if starts_with ''//'' s \<and> \<not> starts_with ''///'' s then ''//''
           else if starts_with ''/'' s then ''/'' else [])
       (filter (\<lambda>c. c \<noteq> [] \<and> c \<noteq> ''.'') (split_on CHR ''/'' s))"

definition str_path :: "path \<Rightarrow> str" where
  "str_path p = (if proot p = [] \<and> pparts p = [] then ''.'' else proot p @ join ''/'' (pparts p))"

definition is_absolute :: "path \<Rightarrow> bool" where
  "is_absolute p \<longleftrightarrow> proot p \<noteq> []"

text \<open>\<^verbatim>\<open>p / q\<close>: an absolute right operand wins.\<close>

definition path_join :: "path \<Rightarrow> path \<Rightarrow> path" where
  "path_join p q = (if is_absolute q then q else Path (proot p) (pparts p @ pparts q))"

definition path_div :: "path \<Rightarrow> str list \<Rightarrow> path" where
  "path_div p cs = Path (proot p) (pparts p @ cs)"

definition path_parent :: "path \<Rightarrow> path" where
  "path_parent p = Path (proot p) (butlast (pparts p))"

definition path_name :: "path \<Rightarrow> str" where
  "path_name p = (if pparts p = [] then [] else last (pparts p))"

text \<open>\<^verbatim>\<open>p.stem\<close>: the name up to its last dot, unless that dot comes first or last.\<close>

definition name_stem :: "str \<Rightarrow> str" where
  "name_stem n =
     (let i = length (takeWhile (\<lambda>c. c \<noteq> CHR ''.'') (rev n)); k = length n - i - 1
      in if i < length n \<and> 0 < k \<and> 0 < i then take k n else n)"

definition ancestors :: "path \<Rightarrow> path list" where
  "ancestors p = map (\<lambda>i. Path (proot p) (take i (pparts p))) [0..<Suc (length (pparts p))]"

subsection \<open>File system, environment, events\<close>

datatype node = FDir | FFile str | FLink str

type_synonym fsys = "path \<Rightarrow> node option"

text \<open>How an external command ends: with a status and output, not found, or interrupted from the keyboard.\<close>

datatype proc = Exit int str | NoProgram | Interrupted

text \<open>A call of \<^verbatim>\<open>subprocess\<close>: the argument vector, the working directory, the standard input and the environment when they are set.\<close>

record invocation =
  argv :: "str list"
  cwd :: "path option"
  stdin :: str
  environ :: "(str, str) dict option"

definition plain_cmd :: "str list \<Rightarrow> invocation" where
  "plain_cmd cmd = \<lparr>argv = cmd, cwd = None, stdin = [], environ = None\<rparr>"

datatype event =
    Cmd invocation
  | Wrote path str
  | Chmod path nat
  | Symlink path str
  | CopyTree path path
  | RmTree path

record env =
  ext_cmd :: "invocation \<Rightarrow> fsys \<Rightarrow> proc \<times> fsys"
  may_write :: "fsys \<Rightarrow> path \<Rightarrow> bool"
  stamp :: "nat \<Rightarrow> str"
  cpus :: nat
  fetch_url :: "str \<Rightarrow> str option"
  sha512_hex :: "str \<Rightarrow> str"
  term_var :: "str option"

record world =
  fs :: fsys
  events :: "event list"
  ticks :: nat

definition exists_at :: "world \<Rightarrow> path \<Rightarrow> bool" where
  "exists_at w p \<longleftrightarrow> fs w p \<noteq> None"

definition is_dir_at :: "world \<Rightarrow> path \<Rightarrow> bool" where
  "is_dir_at w p \<longleftrightarrow> fs w p = Some FDir"

definition read_text :: "path \<Rightarrow> (world, str) act" where
  "read_text p = (\<lambda>w. (case fs w p of
       Some (FFile t) \<Rightarrow> Inr t
     | Some _ \<Rightarrow> Inl (OSErr ''Is a directory'')
     | None \<Rightarrow> Inl (FileNotFound (str_path p)), w))"

text \<open>Making directories: \<^verbatim>\<open>mkdir(parents=True, exist_ok=True)\<close>. Every missing ancestor is made, outermost first.\<close>

fun make_dirs :: "env \<Rightarrow> path list \<Rightarrow> fsys \<Rightarrow> (exn + unit) \<times> fsys" where
  "make_dirs e [] f = (Inr (), f)"
| "make_dirs e (p # ps) f =
     (case f p of
        Some FDir \<Rightarrow> make_dirs e ps f
      | Some _ \<Rightarrow> (Inl (OSErr ''Not a directory''), f)
      | None \<Rightarrow> if may_write e f p then make_dirs e ps (f(p \<mapsto> FDir))
                else (Inl (OSErr ''Permission denied''), f))"

definition mkdir_parents :: "env \<Rightarrow> path \<Rightarrow> (world, unit) act" where
  "mkdir_parents e p = (\<lambda>w. case make_dirs e (ancestors p) (fs w) of (r, f) \<Rightarrow> (r, w\<lparr>fs := f\<rparr>))"

definition write_text :: "env \<Rightarrow> path \<Rightarrow> str \<Rightarrow> (world, unit) act" where
  "write_text e p t = (\<lambda>w.
     if fs w (path_parent p) \<noteq> Some FDir then (Inl (FileNotFound (str_path p)), w)
     else if fs w p = Some FDir \<or> \<not> may_write e (fs w) p then (Inl (OSErr ''Permission denied''), w)
     else (Inr (), w\<lparr>fs := (fs w)(p \<mapsto> FFile t), events := events w @ [Wrote p t]\<rparr>))"

definition append_text :: "env \<Rightarrow> path \<Rightarrow> str \<Rightarrow> (world, unit) act" where
  "append_text e p t = (\<lambda>w. write_text e p ((case fs w p of Some (FFile old) \<Rightarrow> old | _ \<Rightarrow> []) @ t) w)"

text \<open>\<^verbatim>\<open>subprocess.run(cmd, check=False)\<close> gives the exit status and the output; with \<^verbatim>\<open>check=True\<close> a non-zero status raises.\<close>

definition run_inv :: "env \<Rightarrow> invocation \<Rightarrow> (world, int \<times> str) act" where
  "run_inv e c = (\<lambda>w.
     let w' = w\<lparr>events := events w @ [Cmd c]\<rparr>
     in case ext_cmd e c (fs w) of
          (Exit rc out, f) \<Rightarrow> (Inr (rc, out), w'\<lparr>fs := f\<rparr>)
        | (NoProgram, f) \<Rightarrow> (Inl (FileNotFound (hd (argv c))), w')
        | (Interrupted, f) \<Rightarrow> (Inl KeyboardInterrupt, w'\<lparr>fs := f\<rparr>))"

definition check_inv :: "env \<Rightarrow> invocation \<Rightarrow> (world, str) act" where
  "check_inv e c = bindM (run_inv e c)
     (\<lambda>(rc, out). if rc = 0 then ret out else raise (CalledProcess rc))"

definition run_cmd :: "env \<Rightarrow> str list \<Rightarrow> (world, int \<times> str) act" where
  "run_cmd e cmd = run_inv e (plain_cmd cmd)"

definition run_check :: "env \<Rightarrow> str list \<Rightarrow> (world, str) act" where
  "run_check e cmd = check_inv e (plain_cmd cmd)"

text \<open>Changes of the file system other than writing a file.\<close>

definition chmod :: "path \<Rightarrow> nat \<Rightarrow> (world, unit) act" where
  "chmod p mode = (\<lambda>w.
     if fs w p = None then (Inl (FileNotFound (str_path p)), w)
     else (Inr (), w\<lparr>events := events w @ [Chmod p mode]\<rparr>))"

definition symlink_to :: "env \<Rightarrow> path \<Rightarrow> str \<Rightarrow> (world, unit) act" where
  "symlink_to e p t = (\<lambda>w.
     if fs w (path_parent p) \<noteq> Some FDir then (Inl (FileNotFound (str_path p)), w)
     else if fs w p \<noteq> None \<or> \<not> may_write e (fs w) p then (Inl (OSErr ''File exists''), w)
     else (Inr (), w\<lparr>fs := (fs w)(p \<mapsto> FLink t), events := events w @ [Symlink p t]\<rparr>))"

definition copy_file :: "env \<Rightarrow> path \<Rightarrow> path \<Rightarrow> (world, unit) act" where
  "copy_file e p q = bindM (read_text p) (\<lambda>t. write_text e q t)"

definition below :: "path \<Rightarrow> path \<Rightarrow> bool" where
  "below p q \<longleftrightarrow> proot q = proot p \<and> prefix (pparts p) (pparts q)"

definition rm_tree :: "env \<Rightarrow> path \<Rightarrow> (world, unit) act" where
  "rm_tree e p = (\<lambda>w.
     if fs w p \<noteq> Some FDir then (Inl (OSErr ''Not a directory''), w)
     else if \<not> may_write e (fs w) p then (Inl (OSErr ''Permission denied''), w)
     else (Inr (), w\<lparr>fs := (\<lambda>q. if below p q then None else fs w q), events := events w @ [RmTree p]\<rparr>))"

text \<open>\<^verbatim>\<open>shutil.copytree(src, dest, ignore)\<close> with the ignored names as a predicate.\<close>

definition copy_tree :: "env \<Rightarrow> (str \<Rightarrow> bool) \<Rightarrow> path \<Rightarrow> path \<Rightarrow> (world, unit) act" where
  "copy_tree e ignored p q = (\<lambda>w.
     if fs w p \<noteq> Some FDir then (Inl (FileNotFound (str_path p)), w)
     else if fs w q \<noteq> None then (Inl (OSErr ''File exists''), w)
     else (case make_dirs e (ancestors q) (fs w) of
         (Inl x, f) \<Rightarrow> (Inl x, w\<lparr>fs := f\<rparr>)
       | (Inr _, f) \<Rightarrow>
           (Inr (), w\<lparr>fs := (\<lambda>r. if below q r \<and> r \<noteq> q
               then (let rel = drop (length (pparts q)) (pparts r)
                     in if list_ex ignored rel then None else f (path_div p rel))
               else f r),
             events := events w @ [CopyTree p q]\<rparr>)))"

definition run_do :: "env \<Rightarrow> str list \<Rightarrow> (world, unit) act" where
  "run_do e cmd = thenM (run_check e cmd) (ret ())"

definition run_quiet :: "env \<Rightarrow> str list \<Rightarrow> (world, unit) act" where
  "run_quiet e cmd = thenM (run_cmd e cmd) (ret ())"

subsection \<open>Facts about the file system operations\<close>

lemma ancestors_last: "p \<in> set (ancestors p)"
  by (cases p) (force simp: ancestors_def image_iff intro: bexI [of _ "length (pparts p)"])

lemma make_dirs_keep: "f q = Some x \<Longrightarrow> snd (make_dirs e ps f) q = Some x"
proof (induction ps arbitrary: f)
  case (Cons a ps)
  then have "f a = None \<Longrightarrow> (f(a \<mapsto> FDir)) q = Some x" by auto
  with Cons show ?case by (auto simp del: fun_upd_apply split: option.splits node.splits)
qed simp

lemma make_dirs_dirs: "make_dirs e ps f = (Inr (), f') \<Longrightarrow> p \<in> set ps \<Longrightarrow> f' p = Some FDir"
proof (induction ps arbitrary: f)
  case Nil
  then show ?case by simp
next
  case (Cons q qs)
  have "f'' q = Some FDir \<Longrightarrow> make_dirs e qs f'' = (Inr (), f') \<Longrightarrow> f' q = Some FDir" for f''
    using make_dirs_keep [of f'' q FDir e qs] by simp
  from this [of f] this [of "f(q \<mapsto> FDir)"] Cons show ?case
    by (auto split: option.splits node.splits if_splits)
qed

lemma make_dirs_error: "make_dirs e ps f = (Inl x, f') \<Longrightarrow> is_oserror x"
  by (induction ps arbitrary: f) (auto split: option.splits node.splits if_splits)

lemma mkdir_parents_dir: "mkdir_parents e p w = (Inr (), w') \<Longrightarrow> fs w' p = Some FDir"
  by (auto simp: mkdir_parents_def split: prod.splits intro: make_dirs_dirs ancestors_last)

lemma mkdir_parents_keep:
  "mkdir_parents e p w = (r, w') \<Longrightarrow> fs w q = Some x \<Longrightarrow> fs w' q = Some x"
  using make_dirs_keep [of "fs w" q x e "ancestors p"]
  by (auto simp: mkdir_parents_def split: prod.splits)

lemma make_dirs_noop: "\<forall>p \<in> set ps. f p = Some FDir \<Longrightarrow> make_dirs e ps f = (Inr (), f)"
  by (induction ps) auto

lemma mkdir_parents_events: "mkdir_parents e p w = (r, w') \<Longrightarrow> events w' = events w \<and> ticks w' = ticks w"
  by (auto simp: mkdir_parents_def split: prod.splits)

lemma write_text_fs:
  "write_text e p t w = (Inr (), w') \<Longrightarrow> fs w' = (fs w)(p \<mapsto> FFile t)"
  by (auto simp: write_text_def split: if_splits)

lemma write_text_fail: "write_text e p t w = (Inl x, w') \<Longrightarrow> w' = w \<and> is_oserror x"
  by (auto simp: write_text_def split: if_splits)

text \<open>Every operation only adds events; what it writes carries the name of its target.\<close>

definition adds_events :: "(event \<Rightarrow> bool) \<Rightarrow> world \<Rightarrow> world \<Rightarrow> bool" where
  "adds_events P w w' \<longleftrightarrow> (\<exists>es. events w' = events w @ es \<and> (\<forall>x \<in> set es. P x))"

lemma adds_events_refl: "adds_events P w w"
  by (simp add: adds_events_def)

lemma adds_events_trans: "adds_events P w w' \<Longrightarrow> adds_events P w' w'' \<Longrightarrow> adds_events P w w''"
  by (force simp: adds_events_def)

lemma adds_events_same: "events w' = events w \<Longrightarrow> adds_events P w w'"
  by (simp add: adds_events_def)

lemma adds_events_mono: "adds_events P w w' \<Longrightarrow> (\<And>x. P x \<Longrightarrow> Q x) \<Longrightarrow> adds_events Q w w'"
  by (force simp: adds_events_def)

lemma adds_events_left: "adds_events P w w' \<Longrightarrow> adds_events (\<lambda>x. P x \<or> Q x) w w'"
  by (auto simp: adds_events_def)

lemma adds_events_right: "adds_events Q w w' \<Longrightarrow> adds_events (\<lambda>x. P x \<or> Q x) w w'"
  by (auto simp: adds_events_def)

interpretation adds: frame "adds_events P" for P
  by unfold_locales (rule adds_events_refl, erule (1) adds_events_trans)

lemma adds_events_join:
  "adds_events P w w' \<Longrightarrow> adds_events Q w' w'' \<Longrightarrow> adds_events (\<lambda>x. P x \<or> Q x) w w''"
  by (rule adds_events_trans [OF adds_events_left adds_events_right])

lemma run_inv_adds: "P (Cmd c) \<Longrightarrow> adds_events P w (snd (run_inv e c w))"
  by (auto simp: run_inv_def adds_events_def Let_def split: prod.splits proc.splits)

lemma write_text_adds: "P (Wrote p t) \<Longrightarrow> adds_events P w (snd (write_text e p t w))"
  by (auto simp: write_text_def adds_events_def)

lemma mkdir_parents_adds: "adds_events P w (snd (mkdir_parents e p w))"
  by (auto simp: mkdir_parents_def intro: adds_events_same split: prod.splits)

text \<open>Which events an operation adds, as rules for the frame of \<^const>\<open>adds_events\<close>.\<close>

lemma pres_run_inv: "P (Cmd c) \<Longrightarrow> preserves (adds_events P) (run_inv e c)"
  by (simp add: preserves_def run_inv_adds)

lemma pres_check_inv: "P (Cmd c) \<Longrightarrow> preserves (adds_events P) (check_inv e c)"
  unfolding check_inv_def
  by (rule adds.pres_bind, erule pres_run_inv) (auto intro: adds.pres_ret adds.pres_raise)

lemma pres_run_cmd: "P (Cmd (plain_cmd c)) \<Longrightarrow> preserves (adds_events P) (run_cmd e c)"
  by (simp add: run_cmd_def pres_run_inv)

lemma pres_run_check: "P (Cmd (plain_cmd c)) \<Longrightarrow> preserves (adds_events P) (run_check e c)"
  by (simp add: run_check_def pres_check_inv)

lemma pres_run_do: "P (Cmd (plain_cmd c)) \<Longrightarrow> preserves (adds_events P) (run_do e c)"
  by (simp add: run_do_def adds.pres_then adds.pres_ret pres_run_check)

lemma pres_run_quiet: "P (Cmd (plain_cmd c)) \<Longrightarrow> preserves (adds_events P) (run_quiet e c)"
  by (simp add: run_quiet_def adds.pres_then adds.pres_ret pres_run_cmd)

lemma pres_read_text: "preserves (adds_events P) (read_text p)"
  by (simp add: preserves_def read_text_def adds_events_refl)

lemma pres_mkdir_parents: "preserves (adds_events P) (mkdir_parents e p)"
  by (simp add: preserves_def mkdir_parents_adds)

lemma pres_write_text: "P (Wrote p t) \<Longrightarrow> preserves (adds_events P) (write_text e p t)"
  by (simp add: preserves_def write_text_adds)

lemma pres_append_text: "(\<And>t'. P (Wrote p t')) \<Longrightarrow> preserves (adds_events P) (append_text e p t)"
  by (simp add: preserves_def append_text_def write_text_adds)

lemma pres_copy_file: "(\<And>t. P (Wrote q t)) \<Longrightarrow> preserves (adds_events P) (copy_file e p q)"
  by (simp add: copy_file_def adds.pres_bind pres_read_text pres_write_text)

lemma pres_chmod: "P (Chmod p m) \<Longrightarrow> preserves (adds_events P) (chmod p m)"
  by (auto simp: preserves_def chmod_def adds_events_def)

lemma pres_symlink_to: "P (Symlink p t) \<Longrightarrow> preserves (adds_events P) (symlink_to e p t)"
  by (auto simp: preserves_def symlink_to_def adds_events_def)

lemma pres_rm_tree: "P (RmTree p) \<Longrightarrow> preserves (adds_events P) (rm_tree e p)"
  by (auto simp: preserves_def rm_tree_def adds_events_def)

lemma pres_copy_tree: "P (CopyTree p q) \<Longrightarrow> preserves (adds_events P) (copy_tree e ig p q)"
  by (auto simp: preserves_def copy_tree_def adds_events_def split: prod.splits sum.splits)

lemmas event_rules = pres_run_inv pres_check_inv pres_run_cmd pres_run_check pres_run_do pres_run_quiet
  pres_read_text pres_mkdir_parents pres_write_text pres_append_text pres_copy_file pres_chmod
  pres_symlink_to pres_rm_tree pres_copy_tree pres_splits adds.pres_intros

subsection \<open>A world to run examples in\<close>

text \<open>Everything may be written, every command succeeds without output, and only the root directory exists.\<close>

definition calm_env :: env where
  "calm_env = \<lparr>ext_cmd = (\<lambda>c f. (Exit 0 [], f)), may_write = (\<lambda>f p. True), stamp = (\<lambda>n. str_of_nat n),
     cpus = 4, fetch_url = (\<lambda>u. None), sha512_hex = (\<lambda>s. s), term_var = None\<rparr>"

definition empty_world :: world where
  "empty_world = \<lparr>fs = (\<lambda>p. if pparts p = [] then Some FDir else None), events = [], ticks = 0\<rparr>"

end
