(* ===== verification/State.thy ===== *)
theory State
  imports Json World
begin

text \<open>
  \<^verbatim>\<open>installer/state.py\<close>: the installer state, its JSON persistence and its step control.
  The fields of \<open>installer_state\<close> are those of the dataclass. A state file is any text; loading
  it gives a typed state, an object whose fields have other types than annotated (\<open>Untyped\<close>,
  which Python builds without complaint), or the fresh state when anything raises.
\<close>

subsection \<open>Data\<close>

definition STAGE1_STEPS :: "str list" where
  "STAGE1_STEPS =
    [''hardware_detect'', ''disk_select'', ''partition'', ''format'', ''mount'',
     ''stage3_download'', ''stage3_extract'', ''makeconf'', ''chroot_init'', ''portage_sync'',
     ''timezone'', ''locale'', ''kernel_config'', ''kernel_compile'', ''kernel_install'',
     ''fstab'', ''hostname'', ''root_password'', ''network'', ''bootloader'',
     ''continuation_agent'', ''unmount'']"

definition STAGE3_STEPS :: "str list" where
  "STAGE3_STEPS = [''portage_update'', ''world_update'', ''cleanup'', ''disable_agent'']"

record installer_state =
  phase :: str
  completed :: "str list"
  current :: "str option"
  failed :: "str option"
  config :: "(str, json) dict"
  mountpoint :: str
  log_lines :: "str list"

definition fresh_state :: installer_state where
  "fresh_state = \<lparr>phase = ''stage1'', completed = [], current = None, failed = None,
     config = [], mountpoint = ''/mnt/gentoo'', log_lines = []\<rparr>"

type_synonym sys = "installer_state \<times> world"

definition live_state_path :: path where
  "live_state_path = Path ''/'' [''var'', ''lib'', ''anaconda-gentoo'', ''state.json'']"

definition target_rel :: path where
  "target_rel = Path [] [''var'', ''lib'', ''anaconda-gentoo'', ''state.json'']"

definition candidates :: "path option \<Rightarrow> path list" where
  "candidates p = (case p of Some q \<Rightarrow> [q] | None \<Rightarrow> [live_state_path])"

subsection \<open>Dictionary form\<close>

definition opt_str :: "str option \<Rightarrow> json" where
  "opt_str x = (case x of None \<Rightarrow> JNull | Some s \<Rightarrow> JStr s)"

definition asdict :: "installer_state \<Rightarrow> json" where
  "asdict s = JObj
    [(''phase'', JStr (phase s)), (''completed'', JList (map JStr (completed s))),
     (''current'', opt_str (current s)), (''failed'', opt_str (failed s)),
     (''config'', JObj (config s)), (''mountpoint'', JStr (mountpoint s)),
     (''log'', JList (map JStr (log_lines s)))]"

definition field_names :: "str list" where
  "field_names = [''phase'', ''completed'', ''current'', ''failed'', ''config'', ''mountpoint'', ''log'']"

fun as_str :: "json \<Rightarrow> str option" where
  "as_str (JStr s) = Some s"
| "as_str _ = None"

fun as_opt_str :: "json \<Rightarrow> str option option" where
  "as_opt_str JNull = Some None"
| "as_opt_str (JStr s) = Some (Some s)"
| "as_opt_str _ = None"

fun as_strs :: "json \<Rightarrow> str list option" where
  "as_strs (JList vs) = those (map as_str vs)"
| "as_strs _ = None"

fun as_obj :: "json \<Rightarrow> (str, json) dict option" where
  "as_obj (JObj d) = Some d"
| "as_obj _ = None"

definition typed_field :: "(json \<Rightarrow> 'a option) \<Rightarrow> (str, json) dict \<Rightarrow> str \<Rightarrow> 'a \<Rightarrow> 'a option" where
  "typed_field f d k v0 = (case dget d k of None \<Rightarrow> Some v0 | Some v \<Rightarrow> f v)"

datatype loaded = Typed installer_state | Untyped "(str, json) dict"

text \<open>\<^verbatim>\<open>cls(**data)\<close>: unknown keywords raise, missing ones take the default, nothing checks the types.\<close>

definition construct :: "(str, json) dict \<Rightarrow> exn + loaded" where
  "construct d =
     (if \<exists>k \<in> set (map fst d). k \<notin> set field_names then Inl (TypeErr ''unexpected keyword argument'')
      else Inr (case (typed_field as_str d ''phase'' (phase fresh_state),
           typed_field as_strs d ''completed'' (completed fresh_state),
           typed_field as_opt_str d ''current'' (current fresh_state),
           typed_field as_opt_str d ''failed'' (failed fresh_state),
           typed_field as_obj d ''config'' (config fresh_state),
           typed_field as_str d ''mountpoint'' (mountpoint fresh_state),
           typed_field as_strs d ''log'' (log_lines fresh_state)) of
         (Some p, Some c, Some cu, Some fa, Some co, Some mp, Some lg) \<Rightarrow>
           Typed \<lparr>phase = p, completed = c, current = cu, failed = fa, config = co,
             mountpoint = mp, log_lines = lg\<rparr>
       | _ \<Rightarrow> Untyped d))"

definition load_text :: "str \<Rightarrow> exn + loaded" where
  "load_text t =
     (case loads t of
        None \<Rightarrow> Inl (ValueErr ''JSONDecodeError'')
      | Some (JObj d) \<Rightarrow> construct d
      | Some _ \<Rightarrow> Inl (TypeErr ''argument after ** must be a mapping''))"

subsection \<open>Loading and saving\<close>

fun load_from :: "path list \<Rightarrow> world \<Rightarrow> loaded" where
  "load_from [] w = Typed fresh_state"
| "load_from (p # ps) w =
     (if exists_at w p then
        (case fst (read_text p w) of
           Inl _ \<Rightarrow> load_from ps w
         | Inr t \<Rightarrow> (case load_text t of Inl _ \<Rightarrow> load_from ps w | Inr l \<Rightarrow> l))
      else load_from ps w)"

definition load :: "path option \<Rightarrow> world \<Rightarrow> loaded" where
  "load p w = load_from (candidates p) w"

definition state_text :: "installer_state \<Rightarrow> str" where
  "state_text s = dumps (asdict s)"

definition try_write :: "env \<Rightarrow> path \<Rightarrow> str \<Rightarrow> (world, unit) act" where
  "try_write e p t =
     catchM (thenM (mkdir_parents e (path_parent p)) (write_text e p t)) is_oserror (\<lambda>_. ret ())"

definition target_path :: "installer_state \<Rightarrow> path" where
  "target_path s = path_join (mk_path (mountpoint s)) target_rel"

definition on_world :: "(world, 'a) act \<Rightarrow> (sys, 'a) act" where
  "on_world m = (\<lambda>(s, w). case m w of (r, w') \<Rightarrow> (r, (s, w')))"

definition save :: "env \<Rightarrow> path option \<Rightarrow> (sys, unit) act" where
  "save e p = (\<lambda>(s, w). on_world
     (thenM (mapM (\<lambda>c. try_write e c (state_text s)) (candidates p))
        (try_write e (target_path s) (state_text s))) (s, w))"

subsection \<open>Step control\<close>

definition upd_state :: "(installer_state \<Rightarrow> installer_state) \<Rightarrow> (sys, unit) act" where
  "upd_state f = (\<lambda>(s, w). (Inr (), (f s, w)))"

definition append_log :: "env \<Rightarrow> str \<Rightarrow> (sys, unit) act" where
  "append_log e msg = (\<lambda>(s, w).
     let l = log_lines s @ [''['' @ stamp e (ticks w) @ ''] '' @ msg]
     in (Inr (), (s\<lparr>log_lines := if 500 < length l then drop (length l - 500) l else l\<rparr>,
           w\<lparr>ticks := Suc (ticks w)\<rparr>)))"

definition is_done :: "installer_state \<Rightarrow> str \<Rightarrow> bool" where
  "is_done s step \<longleftrightarrow> step \<in> set (completed s)"

definition mark_started :: "env \<Rightarrow> str \<Rightarrow> (sys, unit) act" where
  "mark_started e step = seqM
     [upd_state (\<lambda>s. s\<lparr>current := Some step, failed := None\<rparr>),
      append_log e (''START '' @ step), save e None]"

definition mark_done :: "env \<Rightarrow> str \<Rightarrow> (sys, unit) act" where
  "mark_done e step = seqM
     [upd_state (\<lambda>s. s\<lparr>completed := (if step \<notin> set (completed s) then completed s @ [step] else completed s),
        current := None\<rparr>),
      append_log e (''DONE  '' @ step), save e None]"

definition mark_failed :: "env \<Rightarrow> str \<Rightarrow> str \<Rightarrow> (sys, unit) act" where
  "mark_failed e step reason = seqM
     [upd_state (\<lambda>s. s\<lparr>failed := Some step, current := None\<rparr>),
      append_log e (''FAIL  '' @ step @ '': '' @ reason), save e None]"

definition set_config :: "env \<Rightarrow> str \<Rightarrow> json \<Rightarrow> (sys, unit) act" where
  "set_config e k v = seqM [upd_state (\<lambda>s. s\<lparr>config := dset k v (config s)\<rparr>), save e None]"

definition get_config :: "installer_state \<Rightarrow> str \<Rightarrow> json \<Rightarrow> json" where
  "get_config s k v0 = dget_default (config s) k v0"

definition steps_of_phase :: "str \<Rightarrow> str list" where
  "steps_of_phase p = (if p = ''stage1'' then STAGE1_STEPS else STAGE3_STEPS)"

definition pending_steps :: "installer_state \<Rightarrow> str option \<Rightarrow> str list" where
  "pending_steps s p =
     (let q = (case p of None \<Rightarrow> phase s | Some x \<Rightarrow> if x = [] then phase s else x)
      in filter (\<lambda>x. x \<notin> set (completed s)) (steps_of_phase q))"

definition progress :: "installer_state \<Rightarrow> nat \<times> nat" where
  "progress s = (length (completed s), length (steps_of_phase (phase s)))"

subsection \<open>A state survives its text form\<close>

definition dict_to_state :: "json \<Rightarrow> installer_state option" where
  "dict_to_state j =
     (case j of JObj d \<Rightarrow> (case construct d of Inr (Typed s) \<Rightarrow> Some s | _ \<Rightarrow> None) | _ \<Rightarrow> None)"

definition good_state :: "installer_state \<Rightarrow> bool" where
  "good_state s \<longleftrightarrow> json_ok (JObj (config s))"

lemma those_as_str: "those (map as_str (map JStr xs)) = Some xs"
  by (induction xs) auto

lemma as_opt_str_opt_str: "as_opt_str (opt_str x) = Some x"
  by (cases x) (simp_all add: opt_str_def)

lemma construct_asdict:
  "asdict s = JObj d \<Longrightarrow> construct d = Inr (Typed s)"
  by (auto simp: asdict_def construct_def field_names_def typed_field_def as_opt_str_opt_str
      those_as_str [unfolded list.map_comp])

lemma asdict_obj: "\<exists>d. asdict s = JObj d"
  by (simp add: asdict_def)

interpretation state_dict: codec asdict dict_to_state good_state
proof
  fix s
  obtain d where "asdict s = JObj d" using asdict_obj by blast
  then show "dict_to_state (asdict s) = Some s"
    by (simp add: dict_to_state_def construct_asdict)
qed

lemma json_ok_asdict: "good_state s \<Longrightarrow> json_ok (asdict s)"
  by (auto simp: good_state_def asdict_def opt_str_def split: option.splits)

interpretation state_file: codec_chain asdict dict_to_state good_state dumps loads json_ok
  by unfold_locales (rule json_ok_asdict)

lemma load_text_state_text: "good_state s \<Longrightarrow> load_text (state_text s) = Inr (Typed s)"
proof -
  assume g: "good_state s"
  obtain d where d: "asdict s = JObj d" using asdict_obj by blast
  have "loads (state_text s) = Some (JObj d)"
    using json_text.dec_enc [OF json_ok_asdict [OF g]] d by (simp add: state_text_def)
  then show ?thesis by (simp add: load_text_def construct_asdict [OF d])
qed

subsection \<open>What the operations do to the state\<close>

lemma save_state_kept [keeps]: "fst (snd (save e p sw)) = fst sw"
  by (cases sw) (auto simp: save_def on_world_def split: prod.splits)

lemma try_write_no_exception: "fst (try_write e p t w) = Inr ()"
proof (cases "mkdir_parents e (path_parent p) w")
  case (Pair r w1)
  show ?thesis
  proof (cases r)
    case (Inl x)
    then have "is_oserror x"
      using Pair by (auto simp: mkdir_parents_def split: prod.splits)
        (metis make_dirs_error)
    with Pair Inl show ?thesis by (simp add: try_write_def monad_defs)
  next
    case (Inr u)
    then show ?thesis using Pair write_text_fail [of e p t w1]
      by (auto simp: try_write_def monad_defs split: prod.splits sum.splits)
  qed
qed

lemma thenM_no_exception:
  "(\<And>w. fst (m w) = Inr ()) \<Longrightarrow> (\<And>w. fst (n w) = Inr ()) \<Longrightarrow> fst (thenM m n w) = Inr ()"
  by (auto simp: monad_defs split: prod.splits sum.splits) (metis Inl_Inr_False fst_conv)

lemma save_no_exception: "fst (save e p sw) = Inr ()"
proof -
  have "fst (mapM (\<lambda>c. try_write e c t) ps w) = Inr ()" for t ps w
    by (induction ps arbitrary: w) (auto intro: thenM_no_exception simp: ret_def try_write_no_exception)
  then have "fst (thenM (mapM (\<lambda>c. try_write e c t) ps) (try_write e q t) w) = Inr ()" for t ps q w
    by (intro thenM_no_exception try_write_no_exception)
  then show ?thesis
    by (cases sw) (auto simp: save_def on_world_def split: prod.splits, metis fst_conv)
qed

lemma save_eq: "save e p (s, w) = (Inr (), (s, snd (snd (save e p (s, w)))))"
  using save_no_exception [of e p "(s, w)"] save_state_kept [of e p "(s, w)"]
  by (metis fst_conv prod.collapse)

text \<open>The three step marks and \<open>set\<close> never raise; their effect on the state, and on the world only through \<open>save\<close>.\<close>

definition logged :: "env \<Rightarrow> str \<Rightarrow> installer_state \<Rightarrow> world \<Rightarrow> installer_state" where
  "logged e msg s w =
     (let l = log_lines s @ [''['' @ stamp e (ticks w) @ ''] '' @ msg]
      in s\<lparr>log_lines := if 500 < length l then drop (length l - 500) l else l\<rparr>)"

definition saved :: "env \<Rightarrow> installer_state \<Rightarrow> world \<Rightarrow> sys" where
  "saved e s w = (s, snd (snd (save e None (s, w))))"

lemma logged_fields [simp]:
  "phase (logged e m s w) = phase s" "completed (logged e m s w) = completed s"
  "current (logged e m s w) = current s" "failed (logged e m s w) = failed s"
  "config (logged e m s w) = config s" "mountpoint (logged e m s w) = mountpoint s"
  by (simp_all add: logged_def Let_def)

lemma saved_state [simp]: "fst (saved e s w) = s"
  by (simp add: saved_def)

abbreviation tick :: "world \<Rightarrow> world" where
  "tick w \<equiv> w\<lparr>ticks := Suc (ticks w)\<rparr>"

lemma append_log_eq: "append_log e msg (s, w) = (Inr (), (logged e msg s w, tick w))"
  by (simp add: append_log_def logged_def Let_def)

lemma upd_state_eq: "upd_state f (s, w) = (Inr (), (f s, w))"
  by (simp add: upd_state_def)

lemma seqM_log_save:
  "seqM [upd_state f, append_log e msg, save e None] (s, w)
     = (Inr (), saved e (logged e msg (f s) w) (tick w))"
  by (simp add: thenM_apply upd_state_eq append_log_eq saved_def flip: save_eq)

lemma mark_started_eq:
  "mark_started e x (s, w) =
     (Inr (), saved e (logged e (''START '' @ x) (s\<lparr>current := Some x, failed := None\<rparr>) w) (tick w))"
  unfolding mark_started_def by (rule seqM_log_save)

lemma mark_done_eq:
  "mark_done e x (s, w) =
     (Inr (), saved e (logged e (''DONE  '' @ x)
       (s\<lparr>completed := (if x \<notin> set (completed s) then completed s @ [x] else completed s), current := None\<rparr>) w)
       (tick w))"
  unfolding mark_done_def by (rule seqM_log_save)

lemma mark_failed_eq:
  "mark_failed e x r (s, w) =
     (Inr (), saved e (logged e (''FAIL  '' @ x @ '': '' @ r) (s\<lparr>failed := Some x, current := None\<rparr>) w) (tick w))"
  unfolding mark_failed_def by (rule seqM_log_save)

lemma set_config_eq:
  "set_config e k v (s, w) = (Inr (), saved e (s\<lparr>config := dset k v (config s)\<rparr>) w)"
  by (simp add: set_config_def thenM_apply upd_state_eq saved_def flip: save_eq)

lemmas mark_eqs = mark_started_eq mark_done_eq mark_failed_eq set_config_eq

subsection \<open>The state file after a save\<close>

lemma make_dirs_ok:
  assumes "\<forall>p \<in> set ps. f p = None \<or> f p = Some FDir" and "\<forall>p \<in> set ps. \<forall>f. may_write e f p"
  shows "fst (make_dirs e ps f) = Inr ()"
  using assms by (induction ps arbitrary: f) auto

lemma make_dirs_frame:
  "snd (make_dirs e ps f) q = f q \<or> (q \<in> set ps \<and> f q = None \<and> snd (make_dirs e ps f) q = Some FDir)"
proof (induction ps arbitrary: f)
  case (Cons p ps)
  show ?case
  proof (cases "f p = None \<and> may_write e f p")
    case True
    define g where "g = f(p \<mapsto> FDir)"
    have g: "g p = Some FDir" "q \<noteq> p \<Longrightarrow> g q = f q" by (simp_all add: g_def)
    have eq: "make_dirs e (p # ps) f = make_dirs e ps g" using True by (simp add: g_def)
    have "snd (make_dirs e ps g) p = Some FDir" by (rule make_dirs_keep) (rule g(1))
    with Cons [of g] g True show ?thesis unfolding eq by (cases "q = p") auto
  next
    case False
    with Cons [of f] show ?thesis by (auto split: option.splits node.splits)
  qed
qed simp

lemma mkdir_parents_frame:
  "fs (snd (mkdir_parents e p w)) q = fs w q
     \<or> (q \<in> set (ancestors p) \<and> fs w q = None \<and> fs (snd (mkdir_parents e p w)) q = Some FDir)"
  using make_dirs_frame [of e "ancestors p" "fs w" q]
  by (auto simp: mkdir_parents_def split: prod.splits)

lemma write_text_frame:
  "fs (snd (write_text e p t w)) q = fs w q
     \<or> (q = p \<and> fs w q \<noteq> Some FDir \<and> fs (snd (write_text e p t w)) q = Some (FFile t))"
  by (simp add: write_text_def)

text \<open>A write attempt leaves each path as it was, or makes a missing directory, or stores the text at its target.\<close>

lemma try_write_frame:
  "fs (snd (try_write e p t w)) q = fs w q
     \<or> (fs w q = None \<and> q \<in> set (ancestors (path_parent p)) \<and> fs (snd (try_write e p t w)) q = Some FDir)
     \<or> (q = p \<and> fs w q \<noteq> Some FDir \<and> fs (snd (try_write e p t w)) q = Some (FFile t))"
  using mkdir_parents_frame [of e "path_parent p" w q]
    write_text_frame [of e p t "snd (mkdir_parents e (path_parent p) w)" q]
  by (auto simp: try_write_def monad_defs split: prod.splits sum.splits if_splits)

text \<open>Nothing stands in the way of the live state file, and it may be written.\<close>

definition live_writable :: "env \<Rightarrow> bool" where
  "live_writable e \<longleftrightarrow> (\<forall>f. \<forall>p \<in> set (ancestors live_state_path). may_write e f p)"

definition live_clear :: "world \<Rightarrow> bool" where
  "live_clear w \<longleftrightarrow> (\<forall>p \<in> set (ancestors (path_parent live_state_path)). fs w p = None \<or> fs w p = Some FDir)
     \<and> fs w live_state_path \<noteq> Some FDir"

lemma catchM_Inr: "m s = (Inr x, s') \<Longrightarrow> catchM m p h s = (Inr x, s')"
  by (simp add: catchM_def)

lemma try_write_ok:
  assumes may: "\<forall>f. \<forall>q \<in> set (ancestors p). may_write e f q"
    and free: "\<forall>q \<in> set (ancestors (path_parent p)). fs w q = None \<or> fs w q = Some FDir"
    and p: "fs w p \<noteq> Some FDir" "p \<notin> set (ancestors (path_parent p))"
    and sub: "set (ancestors (path_parent p)) \<subseteq> set (ancestors p)"
  shows "fs (snd (try_write e p t w)) p = Some (FFile t)
     \<and> (\<forall>q \<in> set (ancestors (path_parent p)). fs (snd (try_write e p t w)) q = Some FDir)"
proof -
  obtain f1 where f1: "make_dirs e (ancestors (path_parent p)) (fs w) = (Inr (), f1)"
    using make_dirs_ok [of "ancestors (path_parent p)" "fs w" e] free may sub
    by (metis fst_conv prod.exhaust_sel subsetD)
  let ?w1 = "w\<lparr>fs := f1\<rparr>"
  have mk: "mkdir_parents e (path_parent p) w = (Inr (), ?w1)" using f1 by (simp add: mkdir_parents_def)
  have dirs: "f1 q = Some FDir" if "q \<in> set (ancestors (path_parent p))" for q
    using make_dirs_dirs [OF f1 that] .
  have "f1 p \<noteq> Some FDir"
    using make_dirs_frame [of e "ancestors (path_parent p)" "fs w" p] f1 p by simp
  moreover have "may_write e f1 p" using may ancestors_last by blast
  ultimately obtain w2 where wr: "write_text e p t ?w1 = (Inr (), w2)"
    using dirs [OF ancestors_last] by (simp add: write_text_def)
  have "try_write e p t w = (Inr (), w2)"
    unfolding try_write_def by (rule catchM_Inr) (simp add: thenM_apply mk wr)
  with write_text_fs [OF wr] dirs p(2) show ?thesis by auto
qed

lemma live_ancestors:
  "live_state_path \<notin> set (ancestors (path_parent live_state_path))"
  "set (ancestors (path_parent live_state_path)) \<subseteq> set (ancestors live_state_path)"
  by (simp_all add: live_state_path_def ancestors_def path_parent_def)

lemma save_world:
  "snd (snd (save e None (s, w))) = snd (try_write e (target_path s) (state_text s)
     (snd (try_write e live_state_path (state_text s) w)))"
  using try_write_no_exception [of e live_state_path "state_text s" w]
  by (auto simp: save_def on_world_def candidates_def thenM_apply ret_def split: prod.splits sum.splits)

lemma save_live_file:
  assumes "live_writable e" and "live_clear w"
  shows "fs (snd (snd (save e None (s, w)))) live_state_path = Some (FFile (state_text s))
     \<and> live_clear (snd (snd (save e None (s, w))))"
proof -
  let ?w = "snd (try_write e live_state_path (state_text s) w)"
  let ?w' = "snd (try_write e (target_path s) (state_text s) ?w)"
  have first: "fs ?w live_state_path = Some (FFile (state_text s))"
    "\<forall>q \<in> set (ancestors (path_parent live_state_path)). fs ?w q = Some FDir"
    using assms live_ancestors try_write_ok [of live_state_path e w "state_text s"]
    by (auto simp: live_writable_def live_clear_def)
  have "fs ?w' live_state_path = Some (FFile (state_text s))"
    using try_write_frame [of e "target_path s" "state_text s" ?w live_state_path] first(1) by auto
  moreover have "fs ?w' q = Some FDir" if "q \<in> set (ancestors (path_parent live_state_path))" for q
    using try_write_frame [of e "target_path s" "state_text s" ?w q] first(2) that by auto
  ultimately show ?thesis by (simp add: save_world live_clear_def)
qed

lemma load_live_text:
  "fs w live_state_path = Some (FFile (state_text s)) \<Longrightarrow> good_state s \<Longrightarrow> load None w = Typed s"
  by (simp add: load_def candidates_def exists_at_def read_text_def load_text_state_text)

subsection \<open>Properties\<close>

text \<open>C16. After a save whose live file can be written, loading gives back the saved state, field by field.\<close>

theorem save_then_load:
  assumes "live_writable e" and "live_clear w" and "good_state s"
  shows "load None (snd (snd (save e None (s, w)))) = Typed s"
  using load_live_text [OF conjunct1 [OF save_live_file [OF assms(1,2)]] assms(3)] .

theorem save_then_load_witness:
  "load None (snd (snd (save calm_env None (fresh_state\<lparr>completed := [''mount''], config := [(''disk'', JStr ''/dev/sda'')]\<rparr>, empty_world))))
     = Typed (fresh_state\<lparr>completed := [''mount''], config := [(''disk'', JStr ''/dev/sda'')]\<rparr>)"
proof (rule save_then_load)
  show "live_writable calm_env" by (simp add: live_writable_def calm_env_def)
  show "live_clear empty_world"
    by (simp add: live_clear_def empty_world_def live_state_path_def ancestors_def path_parent_def)
  show "good_state (fresh_state\<lparr>completed := [''mount''], config := [(''disk'', JStr ''/dev/sda'')]\<rparr>)"
    by (simp add: good_state_def fresh_state_def)
qed

text \<open>A state file whose text is no JSON value (a write cut short, for instance) is not reported: loading silently gives the fresh state, with no step completed.\<close>

theorem load_corrupt:
  assumes "fs w live_state_path = Some (FFile t)" and "loads t = None"
  shows "load None w = Typed fresh_state"
  using assms by (simp add: load_def candidates_def exists_at_def read_text_def load_text_def)

theorem load_corrupt_witness:
  "load None (empty_world\<lparr>fs := (fs empty_world)(live_state_path \<mapsto> FFile (take 20 (state_text (fresh_state\<lparr>completed := [''mount'']\<rparr>))))\<rparr>)
     = Typed fresh_state"
proof (rule load_corrupt)
  show "fs (empty_world\<lparr>fs := (fs empty_world)(live_state_path \<mapsto> FFile (take 20 (state_text (fresh_state\<lparr>completed := [''mount'']\<rparr>))))\<rparr>) live_state_path
      = Some (FFile (take 20 (state_text (fresh_state\<lparr>completed := [''mount'']\<rparr>))))" by simp
  show "loads (take 20 (state_text (fresh_state\<lparr>completed := [''mount'']\<rparr>))) = None" by code_simp
qed

text \<open>The log never holds more than 500 lines; the new line is the last one and the lines kept before it are the latest ones.\<close>

theorem log_bounded:
  "\<exists>l. append_log e msg (s, w) = (Inr (), (s\<lparr>log_lines := l\<rparr>, w\<lparr>ticks := Suc (ticks w)\<rparr>))
     \<and> length l = min 500 (Suc (length (log_lines s)))
     \<and> suffix l (log_lines s @ [''['' @ stamp e (ticks w) @ ''] '' @ msg])"
  by (auto simp: append_log_def Let_def suffix_drop)

end
