(* ===== verification/StepRun.thy ===== *)
theory StepRun
  imports State
begin

text \<open>
  \<^verbatim>\<open>installer/steps/base.py\<close> and the step runner of \<^verbatim>\<open>installer/tui.py\<close>: one step, and
  a list of steps in order. A step is its name and its \<^verbatim>\<open>execute\<close> method. Console output is
  left out.
\<close>

record step =
  st_name :: str
  st_exec :: "env \<Rightarrow> (sys, unit) act"

text \<open>\<^verbatim>\<open>except StepError: raise / except Exception as e: raise StepError(str(e))\<close>.\<close>

definition as_step_error :: "(sys, unit) act \<Rightarrow> (sys, unit) act" where
  "as_step_error m = catchM m is_exception
     (\<lambda>x. raise (case x of StepError msg \<Rightarrow> StepError msg | _ \<Rightarrow> StepError (exn_str x)))"

definition step_run :: "env \<Rightarrow> step \<Rightarrow> (sys, unit) act" where
  "step_run e stp = (\<lambda>(s, w).
     if is_done s (st_name stp) then (Inr (), (s, w))
     else seqM [mark_started e (st_name stp), as_step_error (st_exec stp e), mark_done e (st_name stp)] (s, w))"

definition run_step :: "env \<Rightarrow> step \<Rightarrow> (sys, bool) act" where
  "run_step e stp = (\<lambda>(s, w).
     if is_done s (st_name stp) then (Inr True, (s, w))
     else (case step_run e stp (s, w) of
         (Inr _, sw) \<Rightarrow> (Inr True, sw)
       | (Inl x, sw) \<Rightarrow>
           (case x of
              StepError _ \<Rightarrow> (Inr False, sw)
            | KeyboardInterrupt \<Rightarrow> (Inl KeyboardInterrupt, snd (save e None sw))
            | _ \<Rightarrow> (Inl x, sw))))"

fun run_all_steps :: "env \<Rightarrow> step list \<Rightarrow> (sys, bool) act" where
  "run_all_steps e [] = ret True"
| "run_all_steps e (x # xs) = bindM (run_step e x) (\<lambda>ok. if ok then run_all_steps e xs else ret False)"

subsection \<open>What a step may do to the progress record\<close>

text \<open>
  A step body does not touch the completed, current and failed steps, nor the phase (a flag allows
  it to end the first stage), and every state file it writes records the same list of completed
  steps. This is the contract between the runner and the steps.
\<close>

definition is_state_file :: "path \<Rightarrow> bool" where
  "is_state_file p \<longleftrightarrow> take 4 (rev (pparts p)) = rev (pparts target_rel)"

definition records :: "str list \<Rightarrow> str set \<Rightarrow> event \<Rightarrow> bool" where
  "records c P x \<longleftrightarrow> (\<forall>p t. x = Wrote p t \<longrightarrow> is_state_file p \<longrightarrow>
     (\<exists>s. t = state_text s \<and> completed s = c \<and> phase s \<in> P \<and> good_state s))"

definition phases :: "bool \<Rightarrow> str \<Rightarrow> str set" where
  "phases b ph = (if b then {ph, ''stage1_complete''} else {ph})"

definition quiet :: "bool \<Rightarrow> sys \<Rightarrow> sys \<Rightarrow> bool" where
  "quiet b sw sw' \<longleftrightarrow> completed (fst sw') = completed (fst sw)
     \<and> current (fst sw') = current (fst sw) \<and> failed (fst sw') = failed (fst sw)
     \<and> phase (fst sw') \<in> phases b (phase (fst sw))
     \<and> (good_state (fst sw) \<longrightarrow> good_state (fst sw')
           \<and> adds_events (records (completed (fst sw)) (phases b (phase (fst sw)))) (snd sw) (snd sw'))"

lemma phases_self [simp]: "ph \<in> phases b ph"
  by (simp add: phases_def)

lemma phases_trans: "q \<in> phases b ph \<Longrightarrow> phases b q \<subseteq> phases b ph"
  by (auto simp: phases_def split: if_splits)

lemma records_mono: "records c P x \<Longrightarrow> P \<subseteq> Q \<Longrightarrow> records c Q x"
  unfolding records_def by blast

lemma quiet_trans:
  assumes "quiet b s t" and "quiet b t u"
  shows "quiet b s u"
proof -
  let ?P = "phases b (phase (fst s))"
  have sub: "phases b (phase (fst t)) \<subseteq> ?P" using assms(1) phases_trans by (auto simp: quiet_def)
  have "adds_events (records (completed (fst s)) ?P) (snd s) (snd u)" if "good_state (fst s)"
  proof (rule adds_events_trans)
    show "adds_events (records (completed (fst s)) ?P) (snd s) (snd t)" using assms(1) that by (simp add: quiet_def)
    have "adds_events (records (completed (fst s)) (phases b (phase (fst t)))) (snd t) (snd u)"
      using assms that by (simp add: quiet_def)
    then show "adds_events (records (completed (fst s)) ?P) (snd t) (snd u)"
      by (rule adds_events_mono) (rule records_mono [OF _ sub])
  qed
  then show ?thesis using assms sub by (auto simp: quiet_def)
qed

interpretation quiet: frame "quiet b" for b
  by unfold_locales (simp add: quiet_def adds_events_refl, erule (1) quiet_trans)

lemma target_is_state_file: "is_state_file (target_path s)" "is_state_file live_state_path"
  by (simp_all add: is_state_file_def target_path_def target_rel_def path_join_def is_absolute_def
      live_state_path_def)

lemma records_save:
  "completed s = c \<Longrightarrow> phase s \<in> P \<Longrightarrow> good_state s \<Longrightarrow> records c P (Wrote p (state_text s))"
  by (auto simp: records_def)

lemma try_write_adds: "P (Wrote p t) \<Longrightarrow> adds_events P w (snd (try_write e p t w))"
  using mkdir_parents_adds [of P w e "path_parent p"]
    write_text_adds [of P p t "snd (mkdir_parents e (path_parent p) w)" e]
  by (auto simp: try_write_def thenM_apply catchM_def ret_def split: prod.splits sum.splits
      intro: adds_events_trans)

lemma save_records: "good_state s \<Longrightarrow> phase s \<in> P \<Longrightarrow> adds_events (records (completed s) P) w (snd (snd (save e None (s, w))))"
  unfolding save_world
  by (rule adds_events_trans [OF try_write_adds try_write_adds]) (simp_all add: records_save)

lemma save_quiet: "preserves (quiet b) (save e None)"
  by (auto simp: preserves_def quiet_def save_state_kept save_records)

lemma saved_adds: "good_state s \<Longrightarrow> phase s \<in> P \<Longrightarrow> adds_events (records (completed s) P) w (snd (saved e s w))"
  by (simp add: saved_def save_records)

lemma good_state_cong: "config s' = config s \<Longrightarrow> good_state s' = good_state s"
  by (simp add: good_state_def)

lemma good_state_set:
  "good_state s \<Longrightarrow> json_ok v \<Longrightarrow> good_state (s\<lparr>config := dset k v (config s)\<rparr>)"
proof -
  have "set (dset k v d) \<subseteq> insert (k, v) (set d)" for d :: "(str, json) dict"
    by (induction d) auto
  then show "good_state s \<Longrightarrow> json_ok v \<Longrightarrow> good_state (s\<lparr>config := dset k v (config s)\<rparr>)"
    by (fastforce simp: good_state_def keeps)
qed

lemma set_config_quiet: "json_ok v \<Longrightarrow> preserves (quiet b) (set_config e k v)"
proof -
  assume v: "json_ok v"
  have "quiet b (s, w) (snd (set_config e k v (s, w)))" for s w
    using saved_adds [of "s\<lparr>config := dset k v (config s)\<rparr>" "phases b (phase s)" w e] good_state_set [OF _ v, of s k]
    by (auto simp: set_config_eq quiet_def)
  then show ?thesis by (auto simp: preserves_def)
qed

lemma set_phase_quiet: "b \<Longrightarrow> preserves (quiet b) (upd_state (\<lambda>s. s\<lparr>phase := ''stage1_complete''\<rparr>))"
  by (auto simp: preserves_def quiet_def upd_state_eq adds_events_refl good_state_def phases_def)

text \<open>Actions on the world alone keep the contract when what they write is no state file.\<close>

lemma on_world_quiet:
  assumes "\<And>w. adds_events (\<lambda>x. \<forall>p t. x = Wrote p t \<longrightarrow> \<not> is_state_file p) w (snd (m w))"
  shows "preserves (quiet b) (on_world m)"
proof -
  have "quiet b (s, w) (snd (on_world m (s, w)))" for s w
    using adds_events_mono [OF assms [of w], of "records (completed s) (phases b (phase s))"]
    by (auto simp: quiet_def on_world_def records_def split: prod.splits)
  then show ?thesis by (auto simp: preserves_def)
qed

text \<open>The rules the steps below are checked with: actions on the world that write no state file, and the combinators.\<close>

definition plain_event :: "event \<Rightarrow> bool" where
  "plain_event x \<longleftrightarrow> (\<forall>p t. x = Wrote p t \<longrightarrow> \<not> is_state_file p)"

lemma plain_event_simps [simp]:
  "plain_event (Cmd c)" "plain_event (Chmod p m)" "plain_event (Symlink p t)"
  "plain_event (CopyTree p q)" "plain_event (RmTree p)" "plain_event (Wrote p t) \<longleftrightarrow> \<not> is_state_file p"
  by (simp_all add: plain_event_def)

lemma on_world_plain: "preserves (adds_events plain_event) m \<Longrightarrow> preserves (quiet b) (on_world m)"
  by (rule on_world_quiet) (simp add: preserves_def plain_event_def [abs_def])

lemma is_state_file_name: "path_name p \<noteq> ''state.json'' \<Longrightarrow> \<not> is_state_file p"
  by (cases "rev (pparts p)") (auto simp: is_state_file_def target_rel_def path_name_def hd_rev [symmetric])

lemma path_name_div: "path_name (path_div p (cs @ [c])) = c"
  by (simp add: path_name_def path_div_def)

lemmas quiet_rules = set_config_quiet set_phase_quiet save_quiet on_world_plain pres_splits quiet.pres_intros

subsection \<open>The runner\<close>

definition mark_one :: "str list \<Rightarrow> str \<Rightarrow> str list" where
  "mark_one c x = (if x \<in> set c then c else c @ [x])"

definition done_after :: "str list \<Rightarrow> str list \<Rightarrow> str list" where
  "done_after c xs = foldl mark_one c xs"

lemma done_after_simps [simp]: "done_after c [] = c" "done_after c (x # xs) = done_after (mark_one c x) xs"
  by (simp_all add: done_after_def)

lemma mark_one_in: "x \<in> set c \<Longrightarrow> mark_one c x = c"
  by (simp add: mark_one_def)

lemma set_done_after: "set (done_after c xs) = set c \<union> set xs"
  by (induction xs arbitrary: c) (auto simp: mark_one_def)

lemma distinct_done_after: "distinct c \<Longrightarrow> distinct (done_after c xs)"
  by (induction xs arbitrary: c) (auto simp: mark_one_def)

lemma done_after_filter: "distinct xs \<Longrightarrow> done_after c xs = c @ filter (\<lambda>x. x \<notin> set c) xs"
proof (induction xs arbitrary: c)
  case (Cons x xs)
  then have "filter (\<lambda>y. y \<notin> set (c @ [x])) xs = filter (\<lambda>y. y \<notin> set c) xs"
    by (auto intro: filter_cong)
  with Cons show ?case by (simp add: mark_one_def)
qed simp

text \<open>How a step ends: its outcome and the progress record it leaves.\<close>

definition ends_stage :: "str \<Rightarrow> bool" where
  "ends_stage n \<longleftrightarrow> n = ''continuation_agent''"

definition step_outcome :: "str \<Rightarrow> installer_state \<Rightarrow> exn + bool \<Rightarrow> installer_state \<Rightarrow> bool" where
  "step_outcome n s r s' \<longleftrightarrow>
     (if n \<in> set (completed s) then r = Inr True \<and> s' = s
      else phase s' \<in> phases (ends_stage n) (phase s) \<and>
        (if r = Inr True then completed s' = completed s @ [n] \<and> current s' = None \<and> failed s' = None
         else completed s' = completed s \<and> current s' = Some n \<and> failed s' = None))"

lemma mark_started_out:
  obtains s1 w1 where "mark_started e n (s, w) = (Inr (), (s1, w1))"
    "completed s1 = completed s" "current s1 = Some n" "failed s1 = None" "phase s1 = phase s"
    "good_state s \<longrightarrow> good_state s1 \<and> (\<forall>P. phase s \<in> P \<longrightarrow> adds_events (records (completed s) P) w w1)"
proof -
  let ?s1 = "logged e (''START '' @ n) (s\<lparr>current := Some n, failed := None\<rparr>) w"
  have "good_state s \<Longrightarrow> good_state ?s1" using good_state_cong [of ?s1 s] by simp
  moreover have "adds_events (records (completed s) P) w (snd (saved e ?s1 (tick w)))"
    if "good_state s" "phase s \<in> P" for P
    using saved_adds [of ?s1 P "tick w" e] that good_state_cong [of ?s1 s] by (simp add: adds_events_def)
  ultimately show ?thesis by (intro that [of ?s1 "snd (saved e ?s1 (tick w))"]) (simp_all add: mark_started_eq saved_def)
qed

lemma mark_done_out:
  obtains s1 w1 where "mark_done e n (s, w) = (Inr (), (s1, w1))"
    "completed s1 = mark_one (completed s) n" "current s1 = None" "failed s1 = failed s" "phase s1 = phase s"
    "good_state s \<longrightarrow> good_state s1 \<and> (\<forall>P. phase s \<in> P \<longrightarrow> adds_events (records (completed s1) P) w w1)"
proof -
  let ?s1 = "logged e (''DONE  '' @ n) (s\<lparr>completed := (if n \<notin> set (completed s) then completed s @ [n]
    else completed s), current := None\<rparr>) w"
  have "good_state s \<Longrightarrow> good_state ?s1" using good_state_cong [of ?s1 s] by simp
  moreover have "adds_events (records (completed ?s1) P) w (snd (saved e ?s1 (tick w)))"
    if "good_state s" "phase s \<in> P" for P
    using saved_adds [of ?s1 P "tick w" e] that good_state_cong [of ?s1 s] by (simp add: adds_events_def)
  ultimately show ?thesis
    by (intro that [of ?s1 "snd (saved e ?s1 (tick w))"]) (simp_all add: mark_done_eq saved_def mark_one_def)
qed

locale step_contract =
  fixes e :: env and stp :: step
  assumes body_quiet: "preserves (quiet (ends_stage (st_name stp))) (st_exec stp e)"
begin

lemma wrapped_body:
  assumes "as_step_error (st_exec stp e) sw = (r, sw')"
  shows "quiet (ends_stage (st_name stp)) sw sw'"
proof -
  have "snd (as_step_error m sw) = snd (m sw)" for m
    by (auto simp: as_step_error_def catchM_def raise_def split: prod.splits sum.splits)
  with body_quiet assms show ?thesis by (metis preserves_def snd_conv)
qed

lemma step_run_outcome:
  assumes new: "st_name stp \<notin> set (completed s)" and run: "step_run e stp (s, w) = (r, (s', w'))"
  defines "P \<equiv> phases (ends_stage (st_name stp)) (phase s)"
  shows "phase s' \<in> P \<and> (good_state s \<longrightarrow> good_state s'
      \<and> adds_events (\<lambda>x. records (completed s) P x \<or> records (completed s') P x) w w')
    \<and> (case r of
         Inr _ \<Rightarrow> completed s' = completed s @ [st_name stp] \<and> current s' = None \<and> failed s' = None
       | Inl _ \<Rightarrow> completed s' = completed s \<and> current s' = Some (st_name stp) \<and> failed s' = None)"
proof -
  let ?n = "st_name stp"
  obtain s1 w1 where m1: "mark_started e ?n (s, w) = (Inr (), (s1, w1))"
    "completed s1 = completed s" "current s1 = Some ?n" "failed s1 = None" "phase s1 = phase s"
    "good_state s \<longrightarrow> good_state s1 \<and> (\<forall>P. phase s \<in> P \<longrightarrow> adds_events (records (completed s) P) w w1)"
    by (rule mark_started_out)
  obtain r2 s2 w2 where b: "as_step_error (st_exec stp e) (s1, w1) = (r2, (s2, w2))"
    by (metis prod.exhaust)
  have q: "completed s2 = completed s" "current s2 = Some ?n" "failed s2 = None" "phase s2 \<in> P"
    and a2: "good_state s1 \<Longrightarrow> good_state s2 \<and> adds_events (records (completed s) P) w1 w2"
    using wrapped_body [OF b] m1 by (simp_all add: quiet_def P_def)
  obtain s3 w3 where m3: "mark_done e ?n (s2, w2) = (Inr (), (s3, w3))"
    "completed s3 = mark_one (completed s2) ?n" "current s3 = None" "failed s3 = failed s2" "phase s3 = phase s2"
    "good_state s2 \<longrightarrow> good_state s3 \<and> (\<forall>P. phase s2 \<in> P \<longrightarrow> adds_events (records (completed s3) P) w2 w3)"
    by (rule mark_done_out)
  have run': "step_run e stp (s, w) = (case r2 of Inl x \<Rightarrow> (Inl x, (s2, w2)) | Inr _ \<Rightarrow> (Inr (), (s3, w3)))"
    using new by (simp add: step_run_def is_done_def thenM_apply m1 b m3 split: sum.splits)
  have w2: "good_state s2 \<and> adds_events (records (completed s) P) w w2" if "good_state s"
    using m1(6) that a2 adds_events_trans unfolding P_def by (metis phases_self)
  have "good_state s3 \<and> adds_events (\<lambda>x. records (completed s) P x \<or> records (completed s3) P x) w w3"
    if "good_state s"
  proof
    show "good_state s3" using w2 [OF that] m3(6) by simp
    show "adds_events (\<lambda>x. records (completed s) P x \<or> records (completed s3) P x) w w3"
      by (rule adds_events_join [of _ _ w2]) (use w2 [OF that] m3(6) q(4) in simp_all)
  qed
  moreover have "good_state s2 \<and> adds_events (\<lambda>x. records (completed s) P x \<or> records (completed s2) P x) w w2"
    if "good_state s"
    using w2 [OF that] adds_events_left by blast
  ultimately show ?thesis
    using run run' q m3(2-5) new by (cases r2) (auto simp: mark_one_def)
qed

lemma run_step_outcome:
  assumes run: "run_step e stp (s, w) = (r, (s', w'))"
  defines "P \<equiv> phases (ends_stage (st_name stp)) (phase s)"
  shows "step_outcome (st_name stp) s r s'
    \<and> (good_state s \<longrightarrow> good_state s'
      \<and> adds_events (\<lambda>x. records (completed s) P x \<or> records (completed s') P x) w w')"
proof (cases "st_name stp \<in> set (completed s)")
  case True
  with run show ?thesis by (simp add: run_step_def is_done_def step_outcome_def adds_events_refl)
next
  case False
  obtain r1 s1 w1 where sr: "step_run e stp (s, w) = (r1, (s1, w1))" by (metis prod.exhaust)
  note out = step_run_outcome [OF False sr, folded P_def]
  define w2 where "w2 = snd (saved e s1 w1)"
  have sv: "save e None (s1, w1) = (Inr (), (s1, w2))"
    using save_eq [of e None s1 w1] by (simp add: w2_def saved_def)
  have av: "good_state s1 \<Longrightarrow> adds_events (records (completed s1) P) w1 w2"
    unfolding w2_def by (rule saved_adds) (use out in simp_all)
  show ?thesis
  proof (cases "r1 = Inl KeyboardInterrupt")
    case True
    then have "r = Inl KeyboardInterrupt" "s' = s1" "w' = w2"
      using run False sr sv by (simp_all add: run_step_def is_done_def)
    moreover have "adds_events (\<lambda>x. records (completed s) P x \<or> records (completed s1) P x) w w2" if "good_state s"
    proof -
      have g: "good_state s1" "adds_events (\<lambda>x. records (completed s) P x \<or> records (completed s1) P x) w w1"
        using out that by simp_all
      show ?thesis by (rule adds_events_trans [OF g(2) adds_events_right]) (rule av [OF g(1)])
    qed
    ultimately show ?thesis using out True False by (simp add: step_outcome_def P_def)
  next
    case no_interrupt: False
    then have "s' = s1" "w' = w1" "(r = Inr True) = (r1 = Inr ())"
      using run False sr by (auto simp: run_step_def is_done_def split: sum.splits exn.splits)
    with out False show ?thesis
      by (auto simp: step_outcome_def P_def split: sum.splits)
  qed
qed

end

subsection \<open>A list of steps\<close>

definition all_contract :: "env \<Rightarrow> step list \<Rightarrow> bool" where
  "all_contract e steps \<longleftrightarrow> (\<forall>stp \<in> set steps. step_contract e stp)"

lemma all_contract_simps [simp]:
  "all_contract e []" "all_contract e (x # xs) \<longleftrightarrow> step_contract e x \<and> all_contract e xs"
  by (simp_all add: all_contract_def)

text \<open>The phases possible once the first \<open>Suc k\<close> steps of a list have been started.\<close>

definition phase_after :: "str \<Rightarrow> str list \<Rightarrow> nat \<Rightarrow> str set" where
  "phase_after ph ns k = phases (\<exists>n \<in> set (take (Suc k) ns). ends_stage n) ph"

lemma phase_after_0 [simp]: "phase_after ph (n # ns) 0 = phases (ends_stage n) ph"
  by (simp add: phase_after_def)

lemma phase_after_Suc: "q \<in> phases (ends_stage n) ph \<Longrightarrow> phase_after q ns k \<subseteq> phase_after ph (n # ns) (Suc k)"
  by (auto simp: phase_after_def phases_def split: if_splits)

lemma phase_after_self: "ph \<in> phase_after ph ns k"
  by (simp add: phase_after_def)

text \<open>A run stops after its last step, or at the first step that does not succeed, which stays the current one.\<close>

definition run_outcome :: "str list \<Rightarrow> installer_state \<Rightarrow> exn + bool \<Rightarrow> installer_state \<Rightarrow> bool" where
  "run_outcome ns s r s' \<longleftrightarrow>
     (if r = Inr True then completed s' = done_after (completed s) ns \<and> phase s' \<in> phase_after (phase s) ns (length ns)
      else \<exists>k < length ns. completed s' = done_after (completed s) (take k ns)
        \<and> ns ! k \<notin> set (completed s') \<and> current s' = Some (ns ! k) \<and> failed s' = None
        \<and> phase s' \<in> phase_after (phase s) ns k)"

lemma run_outcome_Cons:
  assumes "run_outcome ns s1 r s'" and "completed s1 = mark_one (completed s) n" and "phase s1 \<in> phases (ends_stage n) (phase s)"
  shows "run_outcome (n # ns) s r s'"
proof (cases "r = Inr True")
  case True
  then show ?thesis using assms phase_after_Suc [OF assms(3), of ns "length ns"] by (auto simp: run_outcome_def)
next
  case False
  then obtain k where k: "k < length ns" "completed s' = done_after (completed s1) (take k ns)"
    "ns ! k \<notin> set (completed s')" "current s' = Some (ns ! k)" "failed s' = None" "phase s' \<in> phase_after (phase s1) ns k"
    using assms(1) by (auto simp: run_outcome_def)
  then show ?thesis using assms(2) False phase_after_Suc [OF assms(3), of ns k]
    by (auto simp: run_outcome_def intro!: exI [of _ "Suc k"])
qed

lemma step_success:
  assumes "step_outcome n s (Inr True) s'"
  shows "completed s' = mark_one (completed s) n" and "phase s' \<in> phases (ends_stage n) (phase s)"
  using assms by (auto simp: step_outcome_def mark_one_def split: if_splits)

lemma run_all_outcome:
  "all_contract e steps \<Longrightarrow> run_all_steps e steps (s, w) = (r, (s', w')) \<Longrightarrow>
     run_outcome (map st_name steps) s r s'"
proof (induction steps arbitrary: s w)
  case Nil
  then show ?case by (simp add: run_outcome_def ret_def phase_after_self)
next
  case (Cons x xs)
  obtain r1 s1 w1 where x: "run_step e x (s, w) = (r1, (s1, w1))" by (metis prod.exhaust)
  have out: "step_outcome (st_name x) s r1 s1"
    using step_contract.run_step_outcome [OF _ x] Cons.prems(1) by simp
  show ?case
  proof (cases "r1 = Inr True")
    case True
    have "run_all_steps e xs (s1, w1) = (r, (s', w'))"
      using Cons.prems(2) by (simp add: bindM_def x True)
    then have "run_outcome (map st_name xs) s1 r s'" using Cons.IH Cons.prems(1) by simp
    then show ?thesis using run_outcome_Cons step_success out True by simp
  next
    case False
    with x Cons.prems(2) have r: "r \<noteq> Inr True" "s' = s1"
      by (auto simp: bindM_def ret_def split: sum.splits if_splits)
    have "completed s1 = completed s" "st_name x \<notin> set (completed s)"
      "current s1 = Some (st_name x)" "failed s1 = None" "phase s1 \<in> phases (ends_stage (st_name x)) (phase s)"
      using out False by (auto simp: step_outcome_def split: if_splits)
    with r show ?thesis by (auto simp: run_outcome_def intro!: exI [of _ 0])
  qed
qed

text \<open>Every state file written during a run records the progress after some number of steps.\<close>

definition records_prefix :: "str list \<Rightarrow> str \<Rightarrow> str list \<Rightarrow> event \<Rightarrow> bool" where
  "records_prefix c ph ns x \<longleftrightarrow> (\<exists>k \<le> length ns. records (done_after c (take k ns)) (phase_after ph ns k) x)"

lemma records_prefix_Cons:
  assumes "records_prefix (mark_one c n) q ns x" and "q \<in> phases (ends_stage n) ph"
  shows "records_prefix c ph (n # ns) x"
proof -
  obtain k where "k \<le> length ns" "records (done_after c (take (Suc k) (n # ns))) (phase_after q ns k) x"
    using assms(1) by (auto simp: records_prefix_def)
  then show ?thesis
    unfolding records_prefix_def by (intro exI [of _ "Suc k"] conjI records_mono [OF _ phase_after_Suc [OF assms(2)]]) simp_all
qed

lemma records_prefix_step:
  assumes "records c (phases (ends_stage n) ph) x \<or> records (mark_one c n) (phases (ends_stage n) ph) x"
  shows "records_prefix c ph (n # ns) x"
  using assms
proof
  assume "records c (phases (ends_stage n) ph) x"
  then show ?thesis unfolding records_prefix_def by (intro exI [of _ 0]) simp
next
  assume "records (mark_one c n) (phases (ends_stage n) ph) x"
  moreover have "phases (ends_stage n) ph \<subseteq> phase_after ph (n # ns) 1" by (auto simp: phase_after_def phases_def)
  ultimately show ?thesis unfolding records_prefix_def by (intro exI [of _ 1]) (simp add: records_mono)
qed

lemma run_all_records:
  "all_contract e steps \<Longrightarrow> good_state s \<Longrightarrow> run_all_steps e steps (s, w) = (r, (s', w')) \<Longrightarrow>
     good_state s' \<and> adds_events (records_prefix (completed s) (phase s) (map st_name steps)) w w'"
proof (induction steps arbitrary: s w)
  case Nil
  then show ?case by (simp add: ret_def adds_events_refl)
next
  case (Cons x xs)
  obtain r1 s1 w1 where x: "run_step e x (s, w) = (r1, (s1, w1))" by (metis prod.exhaust)
  let ?R = "records_prefix (completed s) (phase s) (map st_name (x # xs))"
  have out: "step_outcome (st_name x) s r1 s1" "good_state s1"
    "adds_events (\<lambda>ev. records (completed s) (phases (ends_stage (st_name x)) (phase s)) ev
       \<or> records (completed s1) (phases (ends_stage (st_name x)) (phase s)) ev) w w1"
    using step_contract.run_step_outcome [OF _ x] Cons.prems by simp_all
  have c1: "completed s1 = completed s \<or> completed s1 = mark_one (completed s) (st_name x)"
    using out(1) by (auto simp: step_outcome_def mark_one_def split: if_splits)
  have ev1: "adds_events ?R w w1"
    unfolding list.map by (rule adds_events_mono [OF out(3)], rule records_prefix_step) (use c1 in auto)
  show ?case
  proof (cases "r1 = Inr True")
    case True
    have "run_all_steps e xs (s1, w1) = (r, (s', w'))"
      using Cons.prems(3) by (simp add: bindM_def x True)
    then have ih: "good_state s'" "adds_events (records_prefix (completed s1) (phase s1) (map st_name xs)) w1 w'"
      using Cons.IH Cons.prems(1) out(2) by simp_all
    note ok = step_success [OF out(1) [unfolded True]]
    have "adds_events ?R w1 w'"
      unfolding list.map by (rule adds_events_mono [OF ih(2)], rule records_prefix_Cons [OF _ ok(2)]) (simp add: ok(1))
    with ev1 ih(1) show ?thesis by (blast intro: adds_events_trans)
  next
    case False
    with x Cons.prems(3) have "s' = s1" "w' = w1"
      by (auto simp: bindM_def ret_def split: sum.splits if_splits)
    with ev1 out(2) show ?thesis by simp
  qed
qed

text \<open>Completed steps are skipped without any effect.\<close>

lemma run_all_skip:
  "set (map st_name (take k steps)) \<subseteq> set (completed s) \<Longrightarrow>
     run_all_steps e steps (s, w) = run_all_steps e (drop k steps) (s, w)"
proof (induction steps arbitrary: k)
  case (Cons x xs)
  then show ?case by (cases k) (simp_all add: bindM_def run_step_def is_done_def)
qed simp

lemma done_after_absorb: "set xs \<subseteq> set c \<Longrightarrow> done_after c xs = c"
  by (induction xs) (simp_all add: mark_one_in)

lemma done_after_append: "done_after c (xs @ ys) = done_after (done_after c xs) ys"
  by (simp add: done_after_def)

text \<open>A run interrupted after any number of steps and started again ends with the same record.\<close>

lemma done_after_resume: "done_after (done_after c (take k ns)) ns = done_after c ns"
proof -
  have "done_after (done_after c (take k ns)) ns
      = done_after (done_after (done_after c (take k ns)) (take k ns)) (drop k ns)"
    by (metis append_take_drop_id done_after_append)
  also have "done_after (done_after c (take k ns)) (take k ns) = done_after c (take k ns)"
    by (rule done_after_absorb) (simp add: set_done_after)
  also have "done_after (done_after c (take k ns)) (drop k ns) = done_after c ns"
    by (metis append_take_drop_id done_after_append)
  finally show ?thesis .
qed

end
