(* ===== verification/Chroot.thy ===== *)
theory Chroot
  imports StepRun
begin

text \<open>
  \<^verbatim>\<open>installer/chroot.py\<close>: mounting the kernel's pseudo file systems below the target, running a
  command inside it, and unmounting in reverse order. What is mounted is known only to the commands
  \<^verbatim>\<open>mountpoint\<close>, \<^verbatim>\<open>mount\<close> and \<^verbatim>\<open>umount\<close>, which are part of the environment.
\<close>

definition BIND_MOUNTS :: "(str \<times> str \<times> str \<times> str list) list" where
  "BIND_MOUNTS =
     [(''proc'', ''proc'', ''proc'', []),
      (''sys'', ''sys'', ''sysfs'', [''--make-rslave'']),
      (''dev'', ''dev'', ''devtmpfs'', [''--rbind'', ''--make-rslave'']),
      (''dev/pts'', ''dev/pts'', ''devpts'', []),
      (''run'', ''run'', ''tmpfs'', [])]"

definition sub_path :: "path \<Rightarrow> str \<Rightarrow> path" where
  "sub_path mp rel = path_join mp (mk_path rel)"

definition is_not_found :: "exn \<Rightarrow> bool" where
  "is_not_found x = (case x of FileNotFound _ \<Rightarrow> True | _ \<Rightarrow> False)"

text \<open>When there is no \<^verbatim>\<open>mountpoint\<close> program, the mount table is searched for the path as text.\<close>

definition is_mounted :: "env \<Rightarrow> path \<Rightarrow> (world, bool) act" where
  "is_mounted e p =
     catchM (bindM (run_cmd e [''mountpoint'', ''-q'', str_path p]) (\<lambda>(rc, out). ret (rc = 0)))
       is_not_found
       (\<lambda>_. bindM (read_text (mk_path ''/proc/mounts'')) (\<lambda>t. ret (contains (str_path p) t)))"

definition mount_one :: "env \<Rightarrow> path \<Rightarrow> str \<times> str \<times> str \<times> str list \<Rightarrow> (world, unit) act" where
  "mount_one e mp = (\<lambda>(rel, src, fstype, flags).
     let target = sub_path mp rel;
         slave = whenM (''--make-rslave'' \<in> set flags \<and> rel \<in> {''sys'', ''dev''})
                   (run_do e [''mount'', ''--make-rslave'', str_path target])
     in thenM (mkdir_parents e target)
       (bindM (is_mounted e target) (\<lambda>mounted.
          if mounted then ret ()
          else if rel \<in> {''dev'', ''run''} then
            thenM (run_do e ([''mount'', ''--rbind'', ''/'' @ src, str_path target] @ flags)) slave
          else if rel = ''dev/pts'' then
            bindM (is_mounted e target) (\<lambda>again.
              if again then ret ()
              else thenM (run_do e [''mount'', ''-t'', fstype, fstype, str_path target]) slave)
          else
            thenM (run_do e ([''mount'', ''-t'', fstype, fstype, str_path target] @ flags)) slave)))"

definition mount_pseudofs :: "env \<Rightarrow> path \<Rightarrow> (world, unit) act" where
  "mount_pseudofs e mp = mapM (mount_one e mp) BIND_MOUNTS"

definition umount_one :: "env \<Rightarrow> path \<Rightarrow> str \<times> str \<times> str \<times> str list \<Rightarrow> (world, unit) act" where
  "umount_one e mp = (\<lambda>(rel, _).
     let target = sub_path mp rel
     in bindM (is_mounted e target) (\<lambda>mounted. whenM mounted (run_quiet e [''umount'', ''-l'', str_path target])))"

definition umount_pseudofs :: "env \<Rightarrow> path \<Rightarrow> (world, unit) act" where
  "umount_pseudofs e mp = mapM (umount_one e mp) (rev BIND_MOUNTS)"

definition base_env :: "env \<Rightarrow> (str, str) dict" where
  "base_env e =
     [(''HOME'', ''/root''), (''TERM'', case term_var e of Some t \<Rightarrow> t | None \<Rightarrow> ''xterm''),
      (''PATH'', ''/usr/local/sbin:/usr/local/bin:/usr/sbin:/usr/bin:/sbin:/bin'')]"

definition chroot_inv :: "env \<Rightarrow> path \<Rightarrow> str list \<Rightarrow> (str, str) dict \<Rightarrow> invocation" where
  "chroot_inv e mp cmd extra =
     \<lparr>argv = ''chroot'' # str_path mp # cmd, cwd = None, stdin = [],
      environ = Some (fold (\<lambda>(k, v). dset k v) extra (base_env e))\<rparr>"

definition chroot_run :: "env \<Rightarrow> path \<Rightarrow> str list \<Rightarrow> (str, str) dict \<Rightarrow> bool \<Rightarrow> (world, unit) act" where
  "chroot_run e mp cmd extra check =
     (if check then thenM (check_inv e (chroot_inv e mp cmd extra)) (ret ())
      else thenM (run_inv e (chroot_inv e mp cmd extra)) (ret ()))"

text \<open>\<^verbatim>\<open>with chroot_context(mp): body\<close>. Mounting happens before the \<^verbatim>\<open>try\<close>.\<close>

definition chroot_context :: "env \<Rightarrow> path \<Rightarrow> (world, 'a) act \<Rightarrow> (world, 'a) act" where
  "chroot_context e mp body =
     thenM (mount_pseudofs e mp) (finallyM body (umount_pseudofs e mp))"

text \<open>\<^verbatim>\<open>sorted(..., key=len, reverse=True)\<close> keeps the order of lines of the same length.\<close>

definition by_length :: "str list \<Rightarrow> str list" where
  "by_length ts = sort_key (\<lambda>t. - int (length t)) ts"

definition umount_all :: "env \<Rightarrow> path \<Rightarrow> (world, unit) act" where
  "umount_all e mp =
     thenM (umount_pseudofs e mp)
      (bindM (run_cmd e [''findmnt'', ''--raw'', ''--noheadings'', ''--output'', ''TARGET'', ''--submounts'', str_path mp])
        (\<lambda>(rc, out).
           thenM (mapM (\<lambda>t. run_quiet e [''umount'', ''-l'', t]) (by_length (splitlines (strip out))))
             (run_quiet e [''umount'', ''-l'', str_path mp])))"

subsection \<open>What is run\<close>

lemma pres_is_mounted:
  "P (Cmd (plain_cmd [''mountpoint'', ''-q'', str_path p])) \<Longrightarrow> preserves (adds_events P) (is_mounted e p)"
  unfolding is_mounted_def by (intro event_rules) assumption

text \<open>The events of the chroot functions, for a set of events that holds every plain command and every command run inside.\<close>

lemma pres_chroot_context:
  assumes "\<And>c. P (Cmd c)" and "preserves (adds_events P) body"
  shows "preserves (adds_events P) (chroot_context e mp body)"
  unfolding chroot_context_def mount_pseudofs_def mount_one_def umount_pseudofs_def umount_one_def Let_def
  by (intro event_rules pres_is_mounted assms)

lemma pres_chroot_run:
  "(\<And>c. P (Cmd c)) \<Longrightarrow> preserves (adds_events P) (chroot_run e mp cmd extra check)"
  unfolding chroot_run_def by (intro event_rules)

lemma pres_umount_all: "(\<And>c. P (Cmd c)) \<Longrightarrow> preserves (adds_events P) (umount_all e mp)"
  unfolding umount_all_def umount_pseudofs_def umount_one_def Let_def
  by (intro event_rules pres_is_mounted)

lemmas chroot_rules = pres_chroot_context pres_chroot_run pres_umount_all

subsection \<open>Nothing stays mounted\<close>

text \<open>
  What the mount tools are documented to do: \<^verbatim>\<open>mountpoint -q\<close> tells whether a path is a mount
  point, and \<^verbatim>\<open>umount -l\<close> detaches it, and whatever lies below, and mounts nothing. A path is
  mounted at most once.
\<close>

definition mount_tools :: "env \<Rightarrow> (fsys \<Rightarrow> path \<Rightarrow> bool) \<Rightarrow> bool" where
  "mount_tools e mounted \<longleftrightarrow>
     (\<forall>f p. (\<exists>rc out. ext_cmd e (plain_cmd [''mountpoint'', ''-q'', str_path p]) f = (Exit rc out, f) \<and> (rc = 0 \<longleftrightarrow> mounted f p))
      \<and> (\<exists>rc out f'. ext_cmd e (plain_cmd [''umount'', ''-l'', str_path p]) f = (Exit rc out, f')
            \<and> \<not> mounted f' p \<and> (\<forall>q. mounted f' q \<longrightarrow> mounted f q)))"

lemma is_mounted_tools:
  assumes "mount_tools e mounted"
  obtains ev where "is_mounted e p w = (Inr (mounted (fs w) p), w\<lparr>events := ev\<rparr>)"
proof -
  obtain rc out where "ext_cmd e (plain_cmd [''mountpoint'', ''-q'', str_path p]) (fs w) = (Exit rc out, fs w)"
    "rc = 0 \<longleftrightarrow> mounted (fs w) p"
    using assms unfolding mount_tools_def by meson
  then show ?thesis
    by (intro that) (simp add: is_mounted_def run_cmd_def run_inv_def catchM_def bindM_def ret_def)
qed

lemma umount_tools:
  assumes "mount_tools e mounted"
  obtains w' where "run_quiet e [''umount'', ''-l'', str_path p] w = (Inr (), w')"
    "\<not> mounted (fs w') p" "\<forall>q. mounted (fs w') q \<longrightarrow> mounted (fs w) q"
proof -
  obtain rc out f' where "ext_cmd e (plain_cmd [''umount'', ''-l'', str_path p]) (fs w) = (Exit rc out, f')"
    "\<not> mounted f' p" "\<forall>q. mounted f' q \<longrightarrow> mounted (fs w) q"
    using assms unfolding mount_tools_def by meson
  then show ?thesis
    by (intro that [of "w\<lparr>events := events w @ [Cmd (plain_cmd [''umount'', ''-l'', str_path p])], fs := f'\<rparr>"])
      (simp_all add: run_quiet_def run_cmd_def run_inv_def thenM_apply ret_def)
qed

lemma umount_one_tools:
  assumes "mount_tools e mounted"
  obtains w' where "umount_one e mp x w = (Inr (), w')"
    "\<not> mounted (fs w') (sub_path mp (fst x))" "\<forall>q. mounted (fs w') q \<longrightarrow> mounted (fs w) q"
proof -
  let ?p = "sub_path mp (fst x)"
  obtain ev where m: "is_mounted e ?p w = (Inr (mounted (fs w) ?p), w\<lparr>events := ev\<rparr>)"
    by (rule is_mounted_tools [OF assms])
  obtain w' where u: "run_quiet e [''umount'', ''-l'', str_path ?p] (w\<lparr>events := ev\<rparr>) = (Inr (), w')"
    "\<not> mounted (fs w') ?p" "\<forall>q. mounted (fs w') q \<longrightarrow> mounted (fs (w\<lparr>events := ev\<rparr>)) q"
    by (rule umount_tools [OF assms])
  have eq: "umount_one e mp x w = whenM (mounted (fs w) ?p) (run_quiet e [''umount'', ''-l'', str_path ?p]) (w\<lparr>events := ev\<rparr>)"
    using m by (cases x) (simp add: umount_one_def Let_def bindM_def)
  show ?thesis
  proof (cases "mounted (fs w) ?p")
    case True
    then show ?thesis using u eq by (intro that [of w']) (simp_all add: whenM_def)
  next
    case False
    then show ?thesis using eq by (intro that [of "w\<lparr>events := ev\<rparr>"]) (simp_all add: whenM_def ret_def)
  qed
qed

lemma umount_list_tools:
  assumes "mount_tools e mounted"
  shows "\<exists>w'. mapM (umount_one e mp) xs w = (Inr (), w')
    \<and> (\<forall>x \<in> set xs. \<not> mounted (fs w') (sub_path mp (fst x))) \<and> (\<forall>q. mounted (fs w') q \<longrightarrow> mounted (fs w) q)"
proof (induction xs arbitrary: w)
  case Nil
  then show ?case by (simp add: ret_def)
next
  case (Cons x xs)
  obtain w1 where 1: "umount_one e mp x w = (Inr (), w1)" "\<not> mounted (fs w1) (sub_path mp (fst x))"
    "\<forall>q. mounted (fs w1) q \<longrightarrow> mounted (fs w) q"
    by (rule umount_one_tools [OF assms])
  obtain w2 where 2: "mapM (umount_one e mp) xs w1 = (Inr (), w2)"
    "\<forall>x \<in> set xs. \<not> mounted (fs w2) (sub_path mp (fst x))" "\<forall>q. mounted (fs w2) q \<longrightarrow> mounted (fs w1) q"
    using Cons.IH by blast
  show ?case using 1 2 by (intro exI [of _ w2]) (auto simp: thenM_apply)
qed

text \<open>
  C19. Once the pseudo file systems are mounted, the chroot context leaves none of them mounted,
  whether the body returns, raises or is interrupted; the outcome is the body's.
\<close>

theorem chroot_context_clean:
  assumes "mount_tools e mounted" and "mount_pseudofs e mp w = (Inr (), w1)" and "body w1 = (r, w2)"
  shows "\<exists>w'. chroot_context e mp body w = (r, w')
    \<and> (\<forall>x \<in> set BIND_MOUNTS. \<not> mounted (fs w') (sub_path mp (fst x)))
    \<and> (\<forall>q. mounted (fs w') q \<longrightarrow> mounted (fs w2) q)"
  using umount_list_tools [OF assms(1), of mp "rev BIND_MOUNTS" w2] assms(2,3)
  by (auto simp: chroot_context_def thenM_apply finallyM_def umount_pseudofs_def)

text \<open>A mount table to run examples with: a mounted path has a shadow below the root \<^verbatim>\<open>m:\<close>; mounting one given path fails.\<close>

definition shadow :: "str \<Rightarrow> path" where
  "shadow s = Path ''m:'' [s]"

definition mount_env :: "str \<Rightarrow> env" where
  "mount_env bad = calm_env\<lparr>ext_cmd := (\<lambda>c f.
     if argv c = [] then (Exit 0 [], f)
     else if hd (argv c) = ''mountpoint'' then (Exit (if f (shadow (last (argv c))) = None then 32 else 0) [], f)
     else if hd (argv c) = ''umount'' then (Exit 0 [], f(shadow (last (argv c)) := None))
     else if hd (argv c) = ''mount'' then
       (if last (argv c) = bad then (Exit 32 [], f) else (Exit 0 [], f(shadow (last (argv c)) := Some FDir)))
     else (Exit 1 [], f))\<rparr>"

definition is_shadow :: "fsys \<Rightarrow> path \<Rightarrow> bool" where
  "is_shadow f p \<longleftrightarrow> f (shadow (str_path p)) \<noteq> None"

lemma mount_env_tools: "mount_tools (mount_env bad) is_shadow"
  by (auto simp: mount_tools_def mount_env_def plain_cmd_def is_shadow_def split: if_splits)

theorem chroot_context_clean_witness:
  "\<exists>w'. chroot_context (mount_env []) (mk_path ''/t'') (raise IndexErr) empty_world = (Inl IndexErr, w')
    \<and> (\<forall>x \<in> set BIND_MOUNTS. \<not> is_shadow (fs w') (sub_path (mk_path ''/t'') (fst x)))"
proof -
  define w1 where "w1 = snd (mount_pseudofs (mount_env []) (mk_path ''/t'') empty_world)"
  have "fst (mount_pseudofs (mount_env []) (mk_path ''/t'') empty_world) = Inr ()" by code_simp
  then have "mount_pseudofs (mount_env []) (mk_path ''/t'') empty_world = (Inr (), w1)"
    by (simp add: w1_def prod_eq_iff)
  from chroot_context_clean [OF mount_env_tools this, of "raise IndexErr" "Inl IndexErr" w1]
  show ?thesis by (auto simp: raise_def)
qed

definition mount_only :: "event \<Rightarrow> bool" where
  "mount_only ev \<longleftrightarrow> (\<exists>c. ev = Cmd (plain_cmd c) \<and> hd c \<in> {''mountpoint'', ''mount''})"

text \<open>
  C37. When mounting itself raises, half way through the list, the body does not run and nothing
  is unmounted: mounting is outside the \<^verbatim>\<open>try\<close>, and only mount commands have been run.
\<close>

theorem failed_mount_leaks:
  assumes "mount_pseudofs e mp w = (Inl x, w1)"
  shows "chroot_context e mp body w = (Inl x, w1) \<and> adds_events mount_only w w1"
proof
  show "chroot_context e mp body w = (Inl x, w1)"
    using assms by (simp add: chroot_context_def thenM_apply)
  have "preserves (adds_events mount_only) (mount_pseudofs e mp)"
    unfolding mount_pseudofs_def mount_one_def Let_def
    by (intro event_rules pres_is_mounted) (simp_all add: mount_only_def plain_cmd_def)
  then show "adds_events mount_only w w1" using assms by (metis preserves_def snd_conv)
qed

theorem failed_mount_leaks_witness:
  "\<exists>w1. chroot_context (mount_env ''/t/dev/pts'') (mk_path ''/t'') (ret ()) empty_world = (Inl (CalledProcess 32), w1)
     \<and> is_shadow (fs w1) (mk_path ''/t/proc'') \<and> is_shadow (fs w1) (mk_path ''/t/dev'')"
proof -
  define w1 where "w1 = snd (mount_pseudofs (mount_env ''/t/dev/pts'') (mk_path ''/t'') empty_world)"
  have r: "fst (mount_pseudofs (mount_env ''/t/dev/pts'') (mk_path ''/t'') empty_world) = Inl (CalledProcess 32)"
    by code_simp
  have "is_shadow (fs w1) (mk_path ''/t/proc'') \<and> is_shadow (fs w1) (mk_path ''/t/dev'')"
    unfolding w1_def by code_simp
  then show ?thesis
    using failed_mount_leaks [of "mount_env ''/t/dev/pts''" "mk_path ''/t''" empty_world _ w1 "ret ()"] r
    by (auto simp: w1_def prod_eq_iff)
qed

end
