(* ===== verification/Dyn.thy ===== *)
theory Dyn
  imports Json World
begin

text \<open>
  Python's dynamically typed operations on the values kept in the configuration of the installer
  and on decoded JSON: what succeeds, and which exception is raised on a value of another type. The texts
  of exceptions that Python itself words are abbreviated.
\<close>

fun truthy :: "json \<Rightarrow> bool" where
  "truthy JNull = False"
| "truthy (JBool b) = b"
| "truthy (JInt i) = (i \<noteq> 0)"
| "truthy (JStr s) = (s \<noteq> [])"
| "truthy (JList xs) = (xs \<noteq> [])"
| "truthy (JObj d) = (d \<noteq> [])"

text \<open>\<^verbatim>\<open>x.get(k, v)\<close> and \<^verbatim>\<open>x[k]\<close> with a string key.\<close>

definition jget :: "json \<Rightarrow> str \<Rightarrow> json \<Rightarrow> exn + json" where
  "jget x k v = (case x of JObj d \<Rightarrow> Inr (dget_default d k v) | _ \<Rightarrow> Inl (AttributeErr ''get''))"

definition jindex :: "json \<Rightarrow> str \<Rightarrow> exn + json" where
  "jindex x k =
     (case x of
        JObj d \<Rightarrow> (case dget d k of Some v \<Rightarrow> Inr v | None \<Rightarrow> Inl (KeyErr k))
      | _ \<Rightarrow> Inl (TypeErr ''not subscriptable with a string''))"

text \<open>What a \<^verbatim>\<open>for\<close> loop over a value runs through.\<close>

definition jitems :: "json \<Rightarrow> exn + json list" where
  "jitems x =
     (case x of
        JList xs \<Rightarrow> Inr xs
      | JObj d \<Rightarrow> Inr (map (\<lambda>(k, _). JStr k) d)
      | JStr s \<Rightarrow> Inr (map (\<lambda>c. JStr [c]) s)
      | _ \<Rightarrow> Inl (TypeErr ''not iterable''))"

text \<open>A value used where only text will do (a path, an argument of a command, the operand of \<^verbatim>\<open>+\<close>), and where only an integer will do.\<close>

definition as_text :: "json \<Rightarrow> exn + str" where
  "as_text x = (case x of JStr s \<Rightarrow> Inr s | _ \<Rightarrow> Inl (TypeErr ''expected str''))"

definition as_number :: "json \<Rightarrow> exn + int" where
  "as_number x =
     (case x of
        JInt i \<Rightarrow> Inr i
      | JBool b \<Rightarrow> Inr (if b then 1 else 0)
      | _ \<Rightarrow> Inl (TypeErr ''unsupported operand type''))"

text \<open>\<^verbatim>\<open>repr\<close> of a string: single quotes unless it holds a single quote and no double quote.\<close>

definition repr_char :: "char \<Rightarrow> char \<Rightarrow> str" where
  "repr_char q c =
     (if c = q \<or> c = CHR 0x5C then [CHR 0x5C, c]
      else if c = CHR 0x0A then [CHR 0x5C, CHR ''n'']
      else if c = CHR 0x0D then [CHR 0x5C, CHR ''r'']
      else if c = CHR 0x09 then [CHR 0x5C, CHR ''t'']
      else if c < CHR '' '' \<or> (CHR 0x7F \<le> c \<and> c \<le> CHR 0xA0) \<or> c = CHR 0xAD then
        [CHR 0x5C, CHR ''x'', hexdig_lo (of_char c div 16), hexdig_lo (of_char c mod 16)]
      else [c])"

definition repr_str :: "str \<Rightarrow> str" where
  "repr_str s =
     (let q = (if CHR 0x27 \<in> set s \<and> CHR 0x22 \<notin> set s then CHR 0x22 else CHR 0x27)
      in q # concat (map (repr_char q) s) @ [q])"

fun repr :: "json \<Rightarrow> str" where
  "repr JNull = ''None''"
| "repr (JBool b) = (if b then ''True'' else ''False'')"
| "repr (JInt i) = str_of_int i"
| "repr (JStr s) = repr_str s"
| "repr (JList xs) = ''['' @ join '', '' (map repr xs) @ '']''"
| "repr (JObj d) = ''{'' @ join '', '' (map (\<lambda>kv. repr_str (fst kv) @ '': '' @ repr (snd kv)) d) @ ''}''"

text \<open>A value inside an f-string.\<close>

definition fmt :: "json \<Rightarrow> str" where
  "fmt x = (case x of JStr s \<Rightarrow> s | _ \<Rightarrow> repr x)"

lemma jget_obj [simp]: "jget (JObj d) k v = Inr (dget_default d k v)"
  by (simp add: jget_def)

lemma as_text_str [simp]: "as_text (JStr s) = Inr s"
  by (simp add: as_text_def)

lemma as_number_int [simp]: "as_number (JInt i) = Inr i"
  by (simp add: as_number_def)

lemma fmt_str [simp]: "fmt (JStr s) = s"
  by (simp add: fmt_def)

end
