(* ===== verification/StepBase.thy ===== *)
theory StepBase
  imports Chroot Dyn
begin

text \<open>
  What the bodies of the steps are written with: reading the configuration and the file system,
  failing, copying a file; and the rules that show that a body keeps the contract with the runner.
  Messages printed on the console are left out.
\<close>

definition cfg :: "str \<Rightarrow> json \<Rightarrow> (sys, json) act" where
  "cfg k v = getM (\<lambda>(s, w). get_config s k v)"

definition target_root :: "(sys, path) act" where
  "target_root = getM (\<lambda>(s, w). mk_path (mountpoint s))"

definition existsM :: "path \<Rightarrow> (sys, bool) act" where
  "existsM p = getM (\<lambda>(s, w). exists_at w p)"

definition is_dirM :: "path \<Rightarrow> (sys, bool) act" where
  "is_dirM p = getM (\<lambda>(s, w). is_dir_at w p)"

definition fail_step :: "str \<Rightarrow> (sys, 'a) act" where
  "fail_step msg = raise (StepError msg)"

text \<open>\<^verbatim>\<open>shutil.copy2\<close>: a directory as destination takes a file of the source's name.\<close>

definition copy2 :: "env \<Rightarrow> path \<Rightarrow> path \<Rightarrow> (world, unit) act" where
  "copy2 e p q = bindM (getM (\<lambda>w. is_dir_at w q)) (\<lambda>d. copy_file e p (if d then path_div q [path_name p] else q))"

lemma pres_copy2:
  "(\<And>t. P (Wrote q t)) \<Longrightarrow> (\<And>t. P (Wrote (path_div q [path_name p]) t)) \<Longrightarrow> preserves (adds_events P) (copy2 e p q)"
  unfolding copy2_def by (intro event_rules) simp

text \<open>The rules, for the world and for the whole state.\<close>

lemma pres_cfg: "preserves (quiet b) (cfg k v)"
  unfolding cfg_def by (rule quiet.pres_getM)

lemma pres_target_root: "preserves (quiet b) target_root"
  unfolding target_root_def by (rule quiet.pres_getM)

lemma pres_existsM: "preserves (quiet b) (existsM p)"
  unfolding existsM_def by (rule quiet.pres_getM)

lemma pres_is_dirM: "preserves (quiet b) (is_dirM p)"
  unfolding is_dirM_def by (rule quiet.pres_getM)

lemma pres_fail_step: "preserves (quiet b) (fail_step msg)"
  unfolding fail_step_def by (rule quiet.pres_raise)

lemmas world_rules = chroot_rules pres_copy2 event_rules
lemmas body_rules = pres_cfg pres_target_root pres_existsM pres_is_dirM pres_fail_step quiet_rules world_rules

lemmas file_simps = is_state_file_def target_rel_def path_div_def

text \<open>
  Progress alone, without the record files: what a body keeps even when the configuration it
  finds is malformed.
\<close>

definition kept :: "sys \<Rightarrow> sys \<Rightarrow> bool" where
  "kept sw sw' \<longleftrightarrow> completed (fst sw') = completed (fst sw) \<and> current (fst sw') = current (fst sw)
     \<and> failed (fst sw') = failed (fst sw) \<and> phase (fst sw') = phase (fst sw)"

interpretation kept: frame kept
  by unfold_locales (simp_all add: kept_def)

lemma kept_on_world: "preserves kept (on_world m)"
  by (auto simp: preserves_def kept_def on_world_def split: prod.splits)

lemma kept_set_config: "preserves kept (set_config e k v)"
  by (auto simp: preserves_def kept_def set_config_eq)

lemma kept_fail_step: "preserves kept (fail_step msg)"
  unfolding fail_step_def by (rule kept.pres_raise)

lemma kept_cfg: "preserves kept (cfg k v)"
  unfolding cfg_def by (rule kept.pres_getM)

lemmas kept_rules = kept_on_world kept_set_config kept_fail_step kept_cfg pres_splits kept.pres_intros

lemma json_ok_member: "json_ok (JObj d) \<Longrightarrow> dget d k = Some v \<Longrightarrow> json_ok v"
  by (auto dest: map_of_SomeD)

lemma good_config: "good_state s \<Longrightarrow> json_ok v \<Longrightarrow> json_ok (get_config s k v)"
  by (auto simp: good_state_def get_config_def dget_default_def split: option.splits dest: map_of_SomeD)

lemma pres_with_cfg:
  assumes "json_ok v0" and "\<And>v. json_ok v \<Longrightarrow> preserves (quiet b) (f v)" and "\<And>v. preserves kept (f v)"
  shows "preserves (quiet b) (bindM (cfg k v0) f)"
proof -
  have "quiet b (s, w) (snd (bindM (cfg k v0) f (s, w)))" for s w
  proof -
    have eq: "bindM (cfg k v0) f (s, w) = f (get_config s k v0) (s, w)"
      by (simp add: cfg_def getM_def bindM_def)
    show ?thesis
    proof (cases "good_state s")
      case True
      then show ?thesis using assms(2) [OF good_config [OF _ assms(1)]] eq by (simp add: preserves_def)
    next
      case False
      have "kept (s, w) (snd (f (get_config s k v0) (s, w)))" using assms(3) by (simp add: preserves_def)
      with False show ?thesis unfolding eq by (simp add: quiet_def kept_def)
    qed
  qed
  then show ?thesis by (auto simp: preserves_def)
qed

end
