(* ===== verification/Bytes.thy ===== *)
theory Bytes
  imports World "HOL-Library.Word"
begin

text \<open>
  Byte strings and the fixed-width integers \<^verbatim>\<open>struct.unpack_from\<close> reads from them.
  Text is decoded byte by byte, which is what ASCII and UTF-8 decoding do below 128.
\<close>

type_synonym bytes = "8 word list"

definition decode :: "bytes \<Rightarrow> str" where
  "decode bs = map (\<lambda>b. char_of (unat b)) bs"

definition encode :: "str \<Rightarrow> bytes" where
  "encode s = map (\<lambda>c. of_nat (of_char c)) s"

definition slice :: "nat \<Rightarrow> nat \<Rightarrow> bytes \<Rightarrow> bytes" where
  "slice off n d = take n (drop off d)"

definition nat_le :: "bytes \<Rightarrow> nat" where
  "nat_le bs = foldr (\<lambda>b a. unat b + 256 * a) bs 0"

definition nat_be :: "bytes \<Rightarrow> nat" where
  "nat_be bs = nat_le (rev bs)"

definition unpack_le :: "nat \<Rightarrow> bytes \<Rightarrow> nat \<Rightarrow> exn + nat" where
  "unpack_le n d off = (if off + n \<le> length d then Inr (nat_le (slice off n d)) else Inl StructErr)"

definition unpack_be :: "nat \<Rightarrow> bytes \<Rightarrow> nat \<Rightarrow> exn + nat" where
  "unpack_be n d off = (if off + n \<le> length d then Inr (nat_be (slice off n d)) else Inl StructErr)"

text \<open>The bytes of a number.\<close>

fun bytes_le :: "nat \<Rightarrow> nat \<Rightarrow> bytes" where
  "bytes_le 0 x = []"
| "bytes_le (Suc n) x = of_nat (x mod 256) # bytes_le n (x div 256)"

definition bytes_be :: "nat \<Rightarrow> nat \<Rightarrow> bytes" where
  "bytes_be n x = rev (bytes_le n x)"

lemma length_bytes [simp]: "length (bytes_le n x) = n" "length (bytes_be n x) = n"
proof -
  show "length (bytes_le n x) = n" by (induction n arbitrary: x) simp_all
  then show "length (bytes_be n x) = n" by (simp add: bytes_be_def)
qed

lemma nat_le_bytes_le: "x < 256 ^ n \<Longrightarrow> nat_le (bytes_le n x) = x"
proof (induction n arbitrary: x)
  case (Suc n)
  then have "nat_le (bytes_le n (x div 256)) = x div 256"
    by (intro Suc.IH) (simp add: less_mult_imp_div_less mult.commute)
  moreover have "unat (of_nat (x mod 256) :: 8 word) = x mod 256"
    by (simp add: unat_of_nat)
  ultimately show ?case by (simp add: nat_le_def)
qed (simp add: nat_le_def)

lemma nat_be_bytes_be: "x < 256 ^ n \<Longrightarrow> nat_be (bytes_be n x) = x"
  by (simp add: nat_be_def bytes_be_def nat_le_bytes_le)

lemma slice_at: "length a = off \<Longrightarrow> length b = n \<Longrightarrow> slice off n (a @ b @ c) = b"
  by (auto simp: slice_def)

lemma unpack_le_at: "length a = off \<Longrightarrow> x < 256 ^ n \<Longrightarrow> unpack_le n (a @ bytes_le n x @ c) off = Inr x"
  by (simp add: unpack_le_def slice_at nat_le_bytes_le)

lemma unpack_be_at: "length a = off \<Longrightarrow> x < 256 ^ n \<Longrightarrow> unpack_be n (a @ bytes_be n x @ c) off = Inr x"
  by (simp add: unpack_be_def slice_at nat_be_bytes_be)

lemma decode_encode: "decode (encode s) = s"
proof -
  have "char_of (unat (of_nat (of_char c) :: 8 word)) = c" for c
  proof -
    have "of_char c < (256 :: nat)" by simp
    then have "unat (of_nat (of_char c) :: 8 word) = of_char c" by (simp add: unat_of_nat)
    then show ?thesis by simp
  qed
  then show ?thesis by (simp add: decode_def encode_def comp_def)
qed

interpretation text_bytes: codec encode "\<lambda>b. Some (decode b)" "\<lambda>_. True"
  by unfold_locales (simp add: decode_encode)

end
