(* ===== verification/Fnmatch.thy ===== *)
theory Fnmatch
  imports PyText
begin

text \<open>
  Python's \<^verbatim>\<open>fnmatch.fnmatch\<close> on POSIX (case sensitive): \<^verbatim>\<open>*\<close>, \<^verbatim>\<open>?\<close> and
  bracket expressions, and the whole name must match. A pattern is first read into tokens.
\<close>

datatype item = One char | Range char char

datatype tok = TStar | TAny | TLit char | TSet bool "item list"

text \<open>The inside of a bracket expression: a hyphen between two characters makes a range.\<close>

fun items :: "str \<Rightarrow> item list" where
  "items [] = []"
| "items [c] = [One c]"
| "items [c, d] = [One c, One d]"
| "items (c # d # f # cs) = (if d = CHR ''-'' then Range c f # items cs else One c # items (d # f # cs))"

text \<open>The closing bracket is searched behind an initial exclamation mark and one further character.\<close>

definition close_at :: "str \<Rightarrow> nat option" where
  "close_at s =
     (let a = (if s \<noteq> [] \<and> hd s = CHR ''!'' then 1 else 0);
          b = (if drop a s \<noteq> [] \<and> hd (drop a s) = CHR '']'' then Suc a else a);
          n = length (takeWhile (\<lambda>c. c \<noteq> CHR '']'') (drop b s))
      in if drop (b + n) s = [] then None else Some (b + n))"

definition bracket :: "str \<Rightarrow> tok" where
  "bracket s = (if s \<noteq> [] \<and> hd s = CHR ''!'' then TSet False (items (tl s)) else TSet True (items s))"

function tokens :: "str \<Rightarrow> tok list" where
  "tokens [] = []"
| "tokens (c # cs) =
     (if c = CHR ''*'' then TStar # tokens cs
      else if c = CHR ''?'' then TAny # tokens cs
      else if c = CHR ''['' then
        (case close_at cs of
           None \<Rightarrow> TLit c # tokens cs
         | Some n \<Rightarrow> bracket (take n cs) # tokens (drop (Suc n) cs))
      else TLit c # tokens cs)"
  by pat_completeness auto
termination
  by (relation "measure length") auto

fun in_item :: "char \<Rightarrow> item \<Rightarrow> bool" where
  "in_item c (One d) = (c = d)"
| "in_item c (Range a b) = (a \<le> c \<and> c \<le> b)"

fun glob :: "tok list \<Rightarrow> str \<Rightarrow> bool" where
  "glob [] s = (s = [])"
| "glob (TStar # ts) [] = glob ts []"
| "glob (TStar # ts) (c # cs) = (glob ts (c # cs) \<or> glob (TStar # ts) cs)"
| "glob (t # ts) [] = False"
| "glob (TAny # ts) (c # cs) = glob ts cs"
| "glob (TLit d # ts) (c # cs) = (c = d \<and> glob ts cs)"
| "glob (TSet pos is # ts) (c # cs) = (list_ex (in_item c) is = pos \<and> glob ts cs)"

definition fnmatch :: "str \<Rightarrow> str \<Rightarrow> bool" where
  "fnmatch name pat = glob (tokens pat) name"

subsection \<open>Patterns made of text and stars\<close>

lemma glob_star: "glob (TStar # ts) s \<longleftrightarrow> (\<exists>a b. s = a @ b \<and> glob ts b)"
proof (induction s)
  case (Cons c cs)
  show ?case
  proof
    assume "glob (TStar # ts) (c # cs)"
    then show "\<exists>a b. c # cs = a @ b \<and> glob ts b"
      using Cons by (auto intro: exI [of _ "[]"]) (metis append_Cons)
  next
    assume "\<exists>a b. c # cs = a @ b \<and> glob ts b"
    then obtain a b where "c # cs = a @ b" "glob ts b" by blast
    then show "glob (TStar # ts) (c # cs)" using Cons by (cases a) auto
  qed
qed auto

lemma glob_lits: "glob (map TLit p @ ts) s \<longleftrightarrow> (\<exists>r. s = p @ r \<and> glob ts r)"
proof (induction p arbitrary: s)
  case (Cons c p)
  then show ?case by (cases s) auto
qed simp

definition plain :: "str \<Rightarrow> bool" where
  "plain s \<longleftrightarrow> (\<forall>c \<in> set s. c \<notin> {CHR ''*'', CHR ''?'', CHR ''[''})"

lemma plain_simps [simp]: "plain []" "plain (c # cs) \<longleftrightarrow> c \<notin> {CHR ''*'', CHR ''?'', CHR ''[''} \<and> plain cs"
  "plain (xs @ ys) \<longleftrightarrow> plain xs \<and> plain ys"
  by (auto simp: plain_def)

lemma tokens_plain: "plain p \<Longrightarrow> tokens (p @ s) = map TLit p @ tokens s"
  by (induction p) auto

lemma tokens_star: "tokens (CHR ''*'' # s) = TStar # tokens s"
  by simp

lemma fnmatch_plain: "plain p \<Longrightarrow> fnmatch s p \<longleftrightarrow> s = p"
  using tokens_plain [of p "[]"] glob_lits [of p "[]" s] by (auto simp: fnmatch_def)

text \<open>
  Tagged fields. A device alias is a sequence of lower-case tags, each followed by a value
  without lower-case letters; a driver pattern is the same sequence with some values replaced
  by a star. Since all the lower-case letters of the alias are needed for the tags, no star can
  swallow one, and the pattern matches exactly when every field that is not a star agrees.
\<close>

definition lowers :: "str \<Rightarrow> nat" where
  "lowers s = length (filter is_lower s)"

lemma lowers_simps [simp]: "lowers [] = 0" "lowers (c # cs) = (if is_lower c then Suc (lowers cs) else lowers cs)"
  "lowers (xs @ ys) = lowers xs + lowers ys"
  by (simp_all add: lowers_def)

fun tok_lowers :: "tok list \<Rightarrow> nat" where
  "tok_lowers [] = 0"
| "tok_lowers (TLit c # ts) = (if is_lower c then Suc (tok_lowers ts) else tok_lowers ts)"
| "tok_lowers (_ # ts) = tok_lowers ts"

lemma tok_lowers_append: "tok_lowers (xs @ ys) = tok_lowers xs + tok_lowers ys"
  by (induction xs rule: tok_lowers.induct) auto

lemma tok_lowers_lits: "tok_lowers (map TLit s) = lowers s"
  by (induction s) auto

lemma glob_lowers: "glob ts s \<Longrightarrow> tok_lowers ts \<le> lowers s"
  by (induction ts s rule: glob.induct) (auto split: if_splits)

type_synonym fields = "(str \<times> str) list"

definition render :: "fields \<Rightarrow> str" where
  "render fs = concat (map (\<lambda>(t, v). t @ v) fs)"

fun pattern :: "(str \<times> str option) list \<Rightarrow> str" where
  "pattern [] = []"
| "pattern ((t, Some v) # fs) = t @ v @ pattern fs"
| "pattern ((t, None) # fs) = t @ CHR ''*'' # pattern fs"

definition field_agrees :: "str \<times> str option \<Rightarrow> str \<times> str \<Rightarrow> bool" where
  "field_agrees p f \<longleftrightarrow> (case snd p of None \<Rightarrow> True | Some v \<Rightarrow> v = snd f)"

text \<open>Tags start with a lower-case letter; values have none and are plain.\<close>

definition value_ok :: "str \<Rightarrow> bool" where
  "value_ok v \<longleftrightarrow> plain v \<and> lowers v = 0"

definition tag_ok :: "str \<Rightarrow> bool" where
  "tag_ok t \<longleftrightarrow> t \<noteq> [] \<and> is_lower (hd t) \<and> plain t"

definition fields_ok :: "(str \<times> str option) list \<Rightarrow> fields \<Rightarrow> bool" where
  "fields_ok ps fs \<longleftrightarrow> map fst ps = map fst fs \<and> (\<forall>t \<in> set (map fst fs). tag_ok t)
     \<and> (\<forall>f \<in> set fs. lowers (snd f) = 0)
     \<and> (\<forall>p \<in> set ps. case snd p of None \<Rightarrow> True | Some v \<Rightarrow> value_ok v)"

lemma render_Cons [simp]: "render [] = []" "render (f # fs) = fst f @ snd f @ render fs"
  by (simp_all add: render_def split: prod.split)

lemma tokens_pattern_Cons:
  "tag_ok t \<Longrightarrow> (\<And>v. pv = Some v \<Longrightarrow> value_ok v) \<Longrightarrow>
     tokens (pattern ((t, pv) # ps)) =
       map TLit t @ (case pv of Some v \<Rightarrow> map TLit v | None \<Rightarrow> [TStar]) @ tokens (pattern ps)"
  by (cases pv) (auto simp: tokens_plain tag_ok_def value_ok_def)

lemma tok_lowers_pattern:
  "fields_ok ps fs \<Longrightarrow> tok_lowers (tokens (pattern ps)) = lowers (render fs)"
proof (induction ps arbitrary: fs)
  case (Cons p ps)
  obtain t pv where p: "p = (t, pv)" by (cases p)
  then obtain v fs' where fs: "fs = (t, v) # fs'" using Cons.prems by (cases fs) (auto simp: fields_ok_def)
  have ok: "fields_ok ps fs'" "tag_ok t" "lowers v = 0" "\<And>v. pv = Some v \<Longrightarrow> value_ok v"
    using Cons.prems by (auto simp: fields_ok_def p fs)
  have "tok_lowers (case pv of Some v \<Rightarrow> map TLit v | None \<Rightarrow> [TStar]) = 0"
    using ok(4) by (auto simp: tok_lowers_lits value_ok_def split: option.split)
  then show ?case
    using Cons.IH [OF ok(1)] ok
    by (simp add: p fs tokens_pattern_Cons tok_lowers_append tok_lowers_lits)
qed (simp add: fields_ok_def)

lemma lowers_zero_iff: "lowers s = 0 \<longleftrightarrow> (\<forall>c \<in> set s. \<not> is_lower c)"
  by (auto simp: lowers_def filter_empty_conv)

text \<open>A run without lower-case letters ends where the next tag starts.\<close>

lemma split_unique:
  assumes "a @ b = c @ d" and "lowers a = 0" and "lowers c = 0"
    and "b = [] \<or> is_lower (hd b)" and "d = [] \<or> is_lower (hd d)"
  shows "a = c \<and> b = d"
proof -
  have run: "takeWhile (\<lambda>c. \<not> is_lower c) (x @ y) = x"
    if "lowers x = 0" "y = [] \<or> is_lower (hd y)" for x y
    by (rule takeWhile_append_stop) (use that in \<open>auto simp: lowers_zero_iff\<close>)
  have "a = c" using run [of a b] run [of c d] assms by simp
  then show ?thesis using assms(1) by simp
qed

lemma glob_pattern_head:
  "fields_ok ps fs \<Longrightarrow> glob (tokens (pattern ps)) b \<Longrightarrow> b = [] \<or> is_lower (hd b)"
proof (cases ps)
  case (Cons p ps')
  obtain t pv where p: "p = (t, pv)" by (cases p)
  assume ok: "fields_ok ps fs" and g: "glob (tokens (pattern ps)) b"
  have t: "tag_ok t" "\<And>v. pv = Some v \<Longrightarrow> value_ok v"
    using ok by (auto simp: fields_ok_def Cons p)
  then show ?thesis
    using g by (auto simp: Cons p tokens_pattern_Cons glob_lits tag_ok_def)
qed simp

lemma render_head: "fields_ok ps fs \<Longrightarrow> render fs = [] \<or> is_lower (hd (render fs))"
  by (cases fs) (auto simp: fields_ok_def tag_ok_def)

lemma glob_fields:
  "fields_ok ps fs \<Longrightarrow> glob (tokens (pattern ps)) (render fs) \<longleftrightarrow> list_all2 field_agrees ps fs"
proof (induction ps arbitrary: fs)
  case Nil
  then show ?case by (simp add: fields_ok_def)
next
  case (Cons p ps)
  obtain t pv where p: "p = (t, pv)" by (cases p)
  then obtain v fs' where fs: "fs = (t, v) # fs'" using Cons.prems by (cases fs) (auto simp: fields_ok_def)
  have ok: "fields_ok ps fs'" "tag_ok t" "lowers v = 0" "\<And>v. pv = Some v \<Longrightarrow> value_ok v"
    using Cons.prems by (auto simp: fields_ok_def p fs)
  let ?ts = "tokens (pattern ps)"
  note heads = glob_pattern_head [OF ok(1)] render_head [OF ok(1)]
  have "glob (tokens (pattern (p # ps))) (render fs)
      \<longleftrightarrow> glob ((case pv of Some v \<Rightarrow> map TLit v | None \<Rightarrow> [TStar]) @ ?ts) (v @ render fs')"
    using ok by (simp add: p fs tokens_pattern_Cons glob_lits)
  also have "\<dots> \<longleftrightarrow> field_agrees (t, pv) (t, v) \<and> glob ?ts (render fs')"
  proof (cases pv)
    case (Some u)
    then have "lowers u = 0" using ok(4) by (simp add: value_ok_def)
    then have "v @ render fs' = u @ r \<Longrightarrow> glob ?ts r \<Longrightarrow> v = u \<and> render fs' = r" for r
      using split_unique [of v "render fs'" u r] ok(3) heads by blast
    then show ?thesis by (auto simp: Some glob_lits field_agrees_def)
  next
    case None
    have "v @ render fs' = a @ b \<Longrightarrow> glob ?ts b \<Longrightarrow> glob ?ts (render fs')" for a b
    proof -
      assume s: "v @ render fs' = a @ b" and g: "glob ?ts b"
      have "lowers (render fs') \<le> lowers b"
        using glob_lowers [OF g] tok_lowers_pattern [OF ok(1)] by simp
      moreover have "lowers v + lowers (render fs') = lowers a + lowers b"
        using arg_cong [OF s, of lowers] by simp
      ultimately have "lowers a = 0" using ok(3) by simp
      then have "b = render fs'"
        using split_unique [OF s] ok(3) heads g by blast
      with g show ?thesis by simp
    qed
    then show ?thesis by (auto simp: None glob_star field_agrees_def)
  qed
  finally show ?case using Cons.IH [OF ok(1)] by (simp add: p fs)
qed

lemma fnmatch_fields:
  "fields_ok ps fs \<Longrightarrow> fnmatch (render fs) (pattern ps) \<longleftrightarrow> list_all2 field_agrees ps fs"
  by (simp add: fnmatch_def glob_fields)

end
