(* ===== verification/Usb.thy ===== *)
theory Usb
  imports Bytes Fnmatch
begin

text \<open>
  \<^verbatim>\<open>kconfig_builder/hardware/usb.py\<close>: USB descriptors read by control transfers, the
  device alias, and the scan of \<^verbatim>\<open>/dev/bus/usb\<close>. The control transfer of an open
  device node is a parameter: request type, request, value, index and length give the bytes
  received, or nothing when the \<^verbatim>\<open>ioctl\<close> raises \<^verbatim>\<open>OSError\<close>.
\<close>

type_synonym ctrl = "nat \<Rightarrow> nat \<Rightarrow> nat \<Rightarrow> nat \<Rightarrow> nat \<Rightarrow> bytes option"

record usb_device =
  usb_bus :: int
  usb_address :: int
  usb_vendor :: int
  usb_product :: int
  usb_bcd_device :: int
  usb_dev_class :: int
  usb_dev_subclass :: int
  usb_dev_protocol :: int
  usb_iface_class :: int
  usb_iface_subclass :: int
  usb_iface_protocol :: int

definition usb_dev_alias :: "usb_device \<Rightarrow> str" where
  "usb_dev_alias d =
     ''usb:v'' @ fmt_X 4 (usb_vendor d) @ ''p'' @ fmt_X 4 (usb_product d)
     @ ''d'' @ fmt_X 4 (usb_bcd_device d)
     @ ''dc'' @ fmt_X 2 (usb_dev_class d) @ ''dsc'' @ fmt_X 2 (usb_dev_subclass d)
     @ ''dp'' @ fmt_X 2 (usb_dev_protocol d)
     @ ''ic'' @ fmt_X 2 (usb_iface_class d) @ ''isc'' @ fmt_X 2 (usb_iface_subclass d)
     @ ''ip'' @ fmt_X 2 (usb_iface_protocol d) @ ''in*''"

subsection \<open>Descriptors\<close>

text \<open>The buffer has the requested length; bytes the transfer did not fill stay zero.\<close>

definition ctrl_transfer :: "ctrl \<Rightarrow> nat \<Rightarrow> nat \<Rightarrow> nat \<Rightarrow> nat \<Rightarrow> nat \<Rightarrow> bytes option" where
  "ctrl_transfer io req_type request val index len =
     map_option (\<lambda>b. take len (b @ replicate len 0)) (io req_type request val index len)"

definition byte_at :: "bytes \<Rightarrow> nat \<Rightarrow> int" where
  "byte_at d i = uint (d ! i)"

definition u16le :: "bytes \<Rightarrow> nat \<Rightarrow> int" where
  "u16le d i = byte_at d i + 256 * byte_at d (Suc i)"

record usb_descriptor =
  bcdUSB :: int
  bDeviceClass :: int
  bDeviceSubClass :: int
  bDeviceProtocol :: int
  idVendor :: int
  idProduct :: int
  bcdDevice :: int

definition read_device_descriptor :: "ctrl \<Rightarrow> usb_descriptor option" where
  "read_device_descriptor io =
     (case ctrl_transfer io 0x80 0x06 0x0100 0 18 of
        None \<Rightarrow> None
      | Some d \<Rightarrow>
          if d = [] \<or> length d < 18 then None
          else Some \<lparr>bcdUSB = u16le d 2, bDeviceClass = byte_at d 4, bDeviceSubClass = byte_at d 5,
            bDeviceProtocol = byte_at d 6, idVendor = u16le d 8, idProduct = u16le d 10,
            bcdDevice = u16le d 12\<rparr>)"

text \<open>The walk over the configuration descriptor: each descriptor starts with its length and its type.\<close>

function walk_descriptors :: "bytes \<Rightarrow> nat \<Rightarrow> int \<times> int \<times> int" where
  "walk_descriptors d off =
     (if off + 2 \<le> length d then
        (if unat (d ! off) < 2 then (0, 0, 0)
         else if d ! Suc off = 4 \<and> off + 9 \<le> length d
           then (byte_at d (off + 5), byte_at d (off + 6), byte_at d (off + 7))
         else walk_descriptors d (off + unat (d ! off)))
      else (0, 0, 0))"
  by pat_completeness auto
termination
  by (relation "measure (\<lambda>(d, off). length d - off)") auto

declare walk_descriptors.simps [simp del]

definition read_first_interface :: "ctrl \<Rightarrow> int \<times> int \<times> int" where
  "read_first_interface io =
     (case ctrl_transfer io 0x80 0x06 0x0200 0 255 of
        None \<Rightarrow> (0, 0, 0)
      | Some d \<Rightarrow> if d = [] \<or> length d < 9 then (0, 0, 0) else walk_descriptors d 0)"

subsection \<open>The scan\<close>

text \<open>A device node: its name, whether it is a file or a character device, and what opening it read-write and read-only gives.\<close>

record usb_node =
  un_name :: str
  un_device :: bool
  un_rw :: "ctrl option"
  un_ro :: "ctrl option"

record usb_dir =
  ud_name :: str
  ud_is_dir :: bool
  ud_nodes :: "usb_node list"

definition scan_usb_device :: "usb_node \<Rightarrow> int \<Rightarrow> int \<Rightarrow> usb_device option" where
  "scan_usb_device n bus address =
     (case (case un_rw n of Some io \<Rightarrow> Some io | None \<Rightarrow> un_ro n) of
        None \<Rightarrow> None
      | Some io \<Rightarrow>
          (case read_device_descriptor io of
             None \<Rightarrow> None
           | Some desc \<Rightarrow>
               (case read_first_interface io of
                  (ic, isc, ip) \<Rightarrow>
                    Some \<lparr>usb_bus = bus, usb_address = address, usb_vendor = idVendor desc,
                      usb_product = idProduct desc, usb_bcd_device = bcdDevice desc,
                      usb_dev_class = bDeviceClass desc, usb_dev_subclass = bDeviceSubClass desc,
                      usb_dev_protocol = bDeviceProtocol desc, usb_iface_class = ic,
                      usb_iface_subclass = isc, usb_iface_protocol = ip\<rparr>)))"

text \<open>\<^verbatim>\<open>int(s)\<close> for a decimal numeral: surrounding space, a sign, single underscores between digits.\<close>

fun int_digits :: "str \<Rightarrow> str option" where
  "int_digits [] = None"
| "int_digits [c] = (if is_digit c then Some [c] else None)"
| "int_digits (c # d # cs) =
     (if \<not> is_digit c then None
      else map_option (Cons c) (int_digits (if d = CHR ''_'' then cs else d # cs)))"

definition py_int :: "str \<Rightarrow> int option" where
  "py_int s =
     (let t = strip s
      in case t of
           [] \<Rightarrow> None
         | c # cs \<Rightarrow>
             if c = CHR ''-'' then map_option (\<lambda>d. - int (num_val 10 d)) (int_digits cs)
             else if c = CHR ''+'' then map_option (\<lambda>d. int (num_val 10 d)) (int_digits cs)
             else map_option (\<lambda>d. int (num_val 10 d)) (int_digits t))"

text \<open>The devices found, and the number of nodes that could not be read.\<close>

fun scan_nodes :: "int \<Rightarrow> usb_node list \<Rightarrow> usb_device list \<times> nat" where
  "scan_nodes bus [] = ([], 0)"
| "scan_nodes bus (n # ns) =
     (case scan_nodes bus ns of (ds, errs) \<Rightarrow>
        if \<not> un_device n then (ds, errs)
        else (case py_int (un_name n) of
                None \<Rightarrow> (ds, errs)
              | Some a \<Rightarrow>
                  (case scan_usb_device n bus a of
                     Some d \<Rightarrow> (d # ds, errs)
                   | None \<Rightarrow> (ds, Suc errs))))"

fun scan_dirs :: "usb_dir list \<Rightarrow> usb_device list \<times> nat" where
  "scan_dirs [] = ([], 0)"
| "scan_dirs (b # bs) =
     (case scan_dirs bs of (ds, errs) \<Rightarrow>
        if \<not> ud_is_dir b then (ds, errs)
        else (case py_int (ud_name b) of
                None \<Rightarrow> (ds, errs)
              | Some bus \<Rightarrow>
                  (case scan_nodes bus (sort_key un_name (ud_nodes b)) of
                     (ds', errs') \<Rightarrow> (ds' @ ds, errs' + errs))))"

definition scan_usb :: "usb_dir list option \<Rightarrow> usb_device list \<times> str option" where
  "scan_usb root =
     (case root of
        None \<Rightarrow> ([], Some ''No /dev/bus/usb - USB detection unavailable'')
      | Some dirs \<Rightarrow>
          (case scan_dirs (sort_key ud_name dirs) of
             (ds, errs) \<Rightarrow>
               (ds, if ds = [] \<and> errs \<noteq> 0
                    then Some (''Could not read '' @ str_of_nat errs @ '' USB devices - try running as root'')
                    else None)))"

subsection \<open>The walk stops at the first interface descriptor\<close>

definition descriptor_ok :: "bytes \<Rightarrow> bool" where
  "descriptor_ok x \<longleftrightarrow> 2 \<le> length x \<and> unat (x ! 0) = length x"

lemma walk_skip:
  "descriptor_ok x \<Longrightarrow> x ! 1 \<noteq> 4 \<Longrightarrow>
     walk_descriptors (pre @ x @ rest) (length pre) = walk_descriptors (pre @ x @ rest) (length (pre @ x))"
  by (subst walk_descriptors.simps) (auto simp: descriptor_ok_def nth_append)

lemma walk_found:
  "descriptor_ok x \<Longrightarrow> x ! 1 = 4 \<Longrightarrow> 9 \<le> length x \<Longrightarrow>
     walk_descriptors (pre @ x @ rest) (length pre) = (byte_at x 5, byte_at x 6, byte_at x 7)"
  by (subst walk_descriptors.simps) (auto simp: descriptor_ok_def nth_append byte_at_def)

lemma walk_descriptors_first:
  assumes "\<forall>x \<in> set xs. descriptor_ok x \<and> x ! 1 \<noteq> 4" and "descriptor_ok y" and "y ! 1 = 4" and "9 \<le> length y"
  shows "walk_descriptors (pre @ concat xs @ y @ rest) (length pre) = (byte_at y 5, byte_at y 6, byte_at y 7)"
  using assms(1)
proof (induction xs arbitrary: pre)
  case Nil
  then show ?case using walk_found [OF assms(2-4)] by simp
next
  case (Cons x xs)
  then have "walk_descriptors (pre @ x @ concat xs @ y @ rest) (length pre)
      = walk_descriptors ((pre @ x) @ concat xs @ y @ rest) (length (pre @ x))"
    using walk_skip [of x pre "concat xs @ y @ rest"] by simp
  also have "\<dots> = (byte_at y 5, byte_at y 6, byte_at y 7)" by (rule Cons.IH) (use Cons.prems in simp)
  finally show ?case by simp
qed

definition usb_fields :: "usb_device \<Rightarrow> fields" where
  "usb_fields d =
     [(''usb:v'', fmt_X 4 (usb_vendor d)), (''p'', fmt_X 4 (usb_product d)),
      (''d'', fmt_X 4 (usb_bcd_device d)), (''dc'', fmt_X 2 (usb_dev_class d)),
      (''dsc'', fmt_X 2 (usb_dev_subclass d)), (''dp'', fmt_X 2 (usb_dev_protocol d)),
      (''ic'', fmt_X 2 (usb_iface_class d)), (''isc'', fmt_X 2 (usb_iface_subclass d)),
      (''ip'', fmt_X 2 (usb_iface_protocol d)), (''in'', ''*'')]"

lemma usb_dev_alias_fields: "usb_dev_alias d = render (usb_fields d)"
  by (simp add: usb_dev_alias_def usb_fields_def)

subsection \<open>Properties\<close>

text \<open>
  C34. The walk over a configuration descriptor ends, and finds the class triple of the first
  interface descriptor, whatever well-formed descriptors of other types stand before it and
  whatever follows.
\<close>

theorem first_interface_found:
  assumes "\<forall>x \<in> set xs. descriptor_ok x \<and> x ! 1 \<noteq> 4" and "descriptor_ok y" and "y ! 1 = 4" and "9 \<le> length y"
    and "io 0x80 0x06 0x0200 0 255 = Some (concat xs @ y @ rest)" and "length (concat xs @ y) \<le> 255"
  shows "read_first_interface io = (byte_at y 5, byte_at y 6, byte_at y 7)"
proof -
  define h where "h = concat xs @ y"
  obtain r where "ctrl_transfer io 0x80 0x06 0x0200 0 255 = Some (h @ r)"
    using assms(5,6) by (auto simp: ctrl_transfer_def h_def)
  moreover have "\<not> length (h @ r) < 9" "h @ r \<noteq> []" using assms(4) by (auto simp: h_def)
  ultimately show ?thesis
    using walk_descriptors_first [OF assms(1-4), of "[]" r]
    by (simp add: read_first_interface_def h_def del: length_append length_concat append_is_Nil_conv)
qed

definition stick_config :: bytes where
  "stick_config = [9, 2, 32, 0, 1, 1, 0, 128, 50]"

definition stick_interface :: bytes where
  "stick_interface = [9, 4, 0, 0, 2, 8, 6, 80, 0]"

definition stick :: ctrl where
  "stick rt rq v i l = Some (stick_config @ stick_interface)"

theorem first_interface_found_witness: "read_first_interface stick = (8, 6, 80)"
proof -
  have "read_first_interface stick = (byte_at stick_interface 5, byte_at stick_interface 6, byte_at stick_interface 7)"
    by (rule first_interface_found [of "[stick_config]" stick_interface stick "[]"])
      (simp_all add: descriptor_ok_def stick_config_def stick_interface_def stick_def)
  then show ?thesis by (simp add: byte_at_def stick_interface_def)
qed

end
