(* ===== verification/DiskSteps.thy ===== *)
theory DiskSteps
  imports StepBase Usb
begin

text \<open>
  The steps that prepare the disk: \<^verbatim>\<open>s02_partition.py\<close>, \<^verbatim>\<open>s03_format.py\<close> and \<^verbatim>\<open>s04_mount.py\<close>.
  The directories \<^verbatim>\<open>/sys/block\<close> (names with the text of their size file) and \<^verbatim>\<open>/dev\<close> (names) are
  parameters, each missing when it cannot be listed.
\<close>

subsection \<open>Choosing a disk\<close>

record block_dirs =
  sys_block :: "(str \<times> str option) list option"
  dev_names :: "str list option"

definition lsblk_disk :: "json \<Rightarrow> exn + json option" where
  "lsblk_disk dev =
     (case (jget dev ''type'' JNull, jget dev ''mountpoint'' JNull) of
        (Inr ty, Inr mnt) \<Rightarrow>
          if ty = JStr ''disk'' \<and> \<not> truthy mnt then
            (case (jindex dev ''name'', jget dev ''size'' (JStr ''?''), jget dev ''model'' (JStr []), jget dev ''tran'' (JStr [])) of
               (Inr n, Inr sz, Inr md, Inr tr) \<Rightarrow>
                 Inr (Some (JObj [(''name'', JStr (''/dev/'' @ fmt n)), (''size'', sz), (''model'', md), (''tran'', tr)]))
             | (Inl x, _) \<Rightarrow> Inl x
             | _ \<Rightarrow> Inl (AttributeErr ''get''))
          else Inr None
      | (Inl x, _) \<Rightarrow> Inl x
      | (_, Inl x) \<Rightarrow> Inl x)"

fun lsblk_disks :: "json list \<Rightarrow> exn + json list" where
  "lsblk_disks [] = Inr []"
| "lsblk_disks (d # ds) =
     (case lsblk_disk d of
        Inl x \<Rightarrow> Inl x
      | Inr r \<Rightarrow> (case lsblk_disks ds of Inl x \<Rightarrow> Inl x | Inr xs \<Rightarrow> Inr (case r of None \<Rightarrow> xs | Some y \<Rightarrow> y # xs)))"

definition disk_prefixes :: "str list" where
  "disk_prefixes = [''sd'', ''nvme'', ''vd'', ''mmcblk'', ''hd'']"

definition block_disk :: "str \<times> str option \<Rightarrow> json option" where
  "block_disk = (\<lambda>(n, size_text).
     if \<not> (\<exists>p \<in> set disk_prefixes. starts_with p n) then None
     else (case Option.bind size_text (\<lambda>t. py_int (strip t)) of
         None \<Rightarrow> None
       | Some blocks \<Rightarrow> Some (JObj [(''name'', JStr (''/dev/'' @ n)),
           (''size'', JStr (str_of_int (blocks * 512 div (1024 ^ 3)) @ ''G'')), (''model'', JStr []), (''tran'', JStr [])])))"

definition list_disks :: "env \<Rightarrow> block_dirs \<Rightarrow> (world, json list) act" where
  "list_disks e b =
     catchM
       (bindM (run_check e [''lsblk'', ''--json'', ''--output'', ''NAME,SIZE,TYPE,MOUNTPOINT,MODEL,TRAN'']) (\<lambda>out.
        bindM (liftR (case loads out of None \<Rightarrow> Inl (ValueErr ''JSONDecodeError'') | Some v \<Rightarrow> Inr v)) (\<lambda>data.
        bindM (liftR (jget data ''blockdevices'' (JList []))) (\<lambda>devs.
        bindM (liftR (jitems devs)) (\<lambda>ds. liftR (lsblk_disks ds))))))
       (\<lambda>x. case x of CalledProcess _ \<Rightarrow> True | FileNotFound _ \<Rightarrow> True | KeyErr _ \<Rightarrow> True | _ \<Rightarrow> False)
       (\<lambda>_. case sys_block b of
          None \<Rightarrow> raise (FileNotFound ''/sys/block'')
        | Some es \<Rightarrow> ret (List.map_filter block_disk (sort_key fst es)))"

definition detect_uefi :: "(world, bool) act" where
  "detect_uefi = getM (\<lambda>w. exists_at w (mk_path ''/sys/firmware/efi''))"

subsection \<open>Partitioning\<close>

record partition_plan =
  plan_disk :: str
  boot_part :: str
  swap_part :: str
  root_part :: str
  boot_size :: str
  swap_size :: str
  plan_uefi :: bool

definition wipe_disk :: "env \<Rightarrow> str \<Rightarrow> (world, unit) act" where
  "wipe_disk e disk = seqM [run_do e [''wipefs'', ''--all'', disk], run_do e [''sgdisk'', ''--zap-all'', disk]]"

definition gpt_args :: "partition_plan \<Rightarrow> str list" where
  "gpt_args plan =
     (let swap = (swap_size plan \<noteq> []); n = str_of_nat (if swap then 3 else 2)
      in [''--new=1:0:+'' @ boot_size plan, ''--typecode=1:ef00'', ''--change-name=1:EFI'']
       @ (if swap then [''--new=2:0:+'' @ swap_size plan, ''--typecode=2:8200'', ''--change-name=2:swap''] else [])
       @ [''--new='' @ n @ '':0:0'', ''--typecode='' @ n @ '':8300'', ''--change-name='' @ n @ '':root''])"

definition create_gpt_layout :: "env \<Rightarrow> partition_plan \<Rightarrow> (world, unit) act" where
  "create_gpt_layout e plan = seqM
     [wipe_disk e (plan_disk plan),
      run_do e (''sgdisk'' # gpt_args plan @ [plan_disk plan]),
      run_do e [''partprobe'', plan_disk plan]]"

definition mbr_lines :: "partition_plan \<Rightarrow> str list" where
  "mbr_lines plan =
     (let swap = (swap_size plan \<noteq> []); n = str_of_nat (if swap then 3 else 2)
      in [''o'', ''n'', ''p'', ''1'', [], ''+'' @ boot_size plan, ''a'', ''1'']
       @ (if swap then [''n'', ''p'', ''2'', [], ''+'' @ swap_size plan, ''t'', ''2'', ''82''] else [])
       @ [''n'', ''p'', n, [], [], ''w''])"

text \<open>\<^verbatim>\<open>fdisk\<close> reads its script from the standard input; its exit status is not looked at.\<close>

definition create_mbr_layout :: "env \<Rightarrow> partition_plan \<Rightarrow> (world, unit) act" where
  "create_mbr_layout e plan = seqM
     [wipe_disk e (plan_disk plan),
      thenM (run_inv e ((plain_cmd [''fdisk'', plan_disk plan])\<lparr>stdin := join [CHR 0x0A] (mbr_lines plan) @ [CHR 0x0A]\<rparr>)) (ret ()),
      run_do e [''partprobe'', plan_disk plan]]"

text \<open>\<^verbatim>\<open>^name p? digits $\<close>, where the end may precede a final line break.\<close>

definition part_of :: "str \<Rightarrow> str \<Rightarrow> bool" where
  "part_of base n =
     (let r = drop (length base) n;
          digits_to_end = (\<lambda>d. d \<noteq> [] \<and> (\<forall>c \<in> set (butlast d). is_digit c)
             \<and> (is_digit (last d) \<or> last d = CHR 0x0A \<and> butlast d \<noteq> []))
      in starts_with base n \<and> (digits_to_end r \<or> r \<noteq> [] \<and> hd r = CHR ''p'' \<and> digits_to_end (tl r)))"

definition partition_numbers :: "block_dirs \<Rightarrow> str \<Rightarrow> exn + str list" where
  "partition_numbers b disk =
     (case dev_names b of
        None \<Rightarrow> Inl (FileNotFound ''/dev'')
      | Some ns \<Rightarrow> Inr (sort (map (\<lambda>n. ''/dev/'' @ n) (filter (part_of (path_name (mk_path disk))) ns))))"

definition part_sep :: "str \<Rightarrow> str" where
  "part_sep disk = (if contains ''nvme'' disk \<or> contains ''mmcblk'' disk then ''p'' else [])"

definition plan_for :: "str \<Rightarrow> str \<Rightarrow> str \<Rightarrow> bool \<Rightarrow> partition_plan" where
  "plan_for disk bsz ssz uefi =
     \<lparr>plan_disk = disk, boot_part = disk @ part_sep disk @ ''1'',
      swap_part = (if ssz \<noteq> [] then disk @ part_sep disk @ ''2'' else []),
      root_part = disk @ part_sep disk @ (if ssz \<noteq> [] then ''3'' else ''2''),
      boot_size = bsz, swap_size = ssz, plan_uefi = uefi\<rparr>"

definition partitions_json :: "partition_plan \<Rightarrow> json" where
  "partitions_json plan = JObj
     [(''boot'', JStr (boot_part plan)), (''swap'', JStr (swap_part plan)),
      (''root'', JStr (root_part plan)), (''uefi'', JBool (plan_uefi plan))]"

text \<open>The disk given to the step, or else the one in the configuration, or else the first disk found.\<close>

definition choose_disk :: "env \<Rightarrow> block_dirs \<Rightarrow> str option \<Rightarrow> (sys, str) act" where
  "choose_disk e b disk =
     bindM (if disk \<noteq> None \<and> disk \<noteq> Some [] then ret (JStr (the disk)) else cfg ''disk'' JNull) (\<lambda>d.
     if truthy d then liftR (as_text d)
     else bindM (on_world (list_disks e b)) (\<lambda>ds.
       case ds of
         [] \<Rightarrow> fail_step ''No suitable disks found''
       | x # _ \<Rightarrow> bindM (liftR (jindex x ''name'')) (\<lambda>n. liftR (as_text n))))"

definition partition_on :: "env \<Rightarrow> block_dirs \<Rightarrow> str \<Rightarrow> str \<Rightarrow> bool option \<Rightarrow> str \<Rightarrow> (sys, unit) act" where
  "partition_on e b bsz ssz uefi_opt disk =
     bindM (case uefi_opt of Some u \<Rightarrow> ret u | None \<Rightarrow> on_world detect_uefi) (\<lambda>uefi.
     bindM (liftR (partition_numbers b disk)) (\<lambda>_.
     (let plan = plan_for disk bsz ssz uefi
      in seqM [on_world (if uefi then create_gpt_layout e plan else create_mbr_layout e plan),
               set_config e ''disk'' (JStr disk),
               set_config e ''partitions'' (partitions_json plan)])))"

definition partition_step :: "block_dirs \<Rightarrow> str option \<Rightarrow> str \<Rightarrow> str \<Rightarrow> bool option \<Rightarrow> step" where
  "partition_step b disk bsz ssz uefi_opt =
     \<lparr>st_name = ''disk_select'', st_exec = (\<lambda>e. bindM (choose_disk e b disk) (partition_on e b bsz ssz uefi_opt))\<rparr>"

interpretation partition: step_contract e "partition_step b disk bsz ssz uefi_opt" for e b disk bsz ssz uefi_opt
proof
  have [simp]: "json_ok (partitions_json plan)" for plan by (simp add: partitions_json_def)
  have split: "preserves (quiet l) (case xs of [] \<Rightarrow> m | x # y \<Rightarrow> f x y)"
    if "preserves (quiet l) m" "\<And>x y. preserves (quiet l) (f x y)" for xs :: "json list" and m f l
    using that by (cases xs) simp_all
  show "preserves (quiet (ends_stage (st_name (partition_step b disk bsz ssz uefi_opt)))) (st_exec (partition_step b disk bsz ssz uefi_opt) e)"
    unfolding partition_step_def choose_disk_def partition_on_def list_disks_def create_gpt_layout_def
      create_mbr_layout_def wipe_disk_def detect_uefi_def step.simps Let_def
    by (intro body_rules split) (simp_all add: file_simps)
qed

subsection \<open>Formatting\<close>

text \<open>A command whose last argument is a value of the configuration, which must be text.\<close>

definition run_on :: "env \<Rightarrow> str list \<Rightarrow> json \<Rightarrow> (sys, unit) act" where
  "run_on e cmd v = bindM (liftR (as_text v)) (\<lambda>t. on_world (run_do e (cmd @ [t])))"

definition mkfs_root :: "json \<Rightarrow> str list option" where
  "mkfs_root root_fs =
     (if root_fs = JStr ''ext4'' then Some [''mkfs.ext4'']
      else if root_fs = JStr ''btrfs'' then Some [''mkfs.btrfs'', ''-f'']
      else if root_fs = JStr ''xfs'' then Some [''mkfs.xfs'', ''-f'']
      else if root_fs = JStr ''f2fs'' then Some [''mkfs.f2fs'']
      else None)"

definition format_parts :: "env \<Rightarrow> str \<Rightarrow> json \<Rightarrow> (sys, unit) act" where
  "format_parts e fs0 parts =
     (if \<not> truthy parts then fail_step ''No partition info in state - run partition step first''
      else
        bindM (liftR (jget parts ''uefi'' (JBool False))) (\<lambda>uefi.
        bindM (liftR (jindex parts ''boot'')) (\<lambda>boot.
        bindM (liftR (jget parts ''swap'' (JStr []))) (\<lambda>swap.
        bindM (liftR (jindex parts ''root'')) (\<lambda>root.
        bindM (cfg ''root_fs'' (JStr fs0)) (\<lambda>root_fs.
          seqM
           [run_on e (if truthy uefi then [''mkfs.fat'', ''-F32''] else [''mkfs.ext2'']) boot,
            whenM (truthy swap) (run_on e [''mkswap''] swap),
            (case mkfs_root root_fs of
               None \<Rightarrow> fail_step (''Unsupported root filesystem: '' @ repr root_fs)
             | Some cmd \<Rightarrow> run_on e cmd root),
            set_config e ''root_fs'' root_fs,
            set_config e ''partitions'' parts]))))))"

definition format_step :: "str \<Rightarrow> step" where
  "format_step fs0 = \<lparr>st_name = ''format'', st_exec = (\<lambda>e. bindM (cfg ''partitions'' JNull) (format_parts e fs0))\<rparr>"

lemma pres_run_on: "preserves (quiet b) (run_on e cmd v)" "preserves kept (run_on e cmd v)"
  unfolding run_on_def by (intro body_rules; simp) (intro kept_rules)

lemma pres_mkfs:
  "preserves (quiet b) (case r of None \<Rightarrow> fail_step msg | Some cmd \<Rightarrow> run_on e cmd v)"
  "preserves kept (case r of None \<Rightarrow> fail_step msg | Some cmd \<Rightarrow> run_on e cmd v)"
  by (intro pres_option pres_fail_step pres_run_on) (intro pres_option kept_fail_step pres_run_on)

lemma kept_format: "preserves kept (format_parts e fs0 parts)"
  unfolding format_parts_def by (intro kept_rules pres_run_on pres_mkfs)

lemma quiet_format: "json_ok parts \<Longrightarrow> preserves (quiet b) (format_parts e fs0 parts)"
  unfolding format_parts_def
  by (intro pres_if pres_fail_step quiet.pres_bind [OF quiet.pres_liftR] pres_with_cfg)
    (simp, (intro quiet.pres_intros set_config_quiet pres_run_on pres_mkfs; simp), intro kept_rules pres_run_on pres_mkfs)

interpretation format: step_contract e "format_step fs0" for e fs0
proof
  show "preserves (quiet (ends_stage (st_name (format_step fs0)))) (st_exec (format_step fs0) e)"
    unfolding format_step_def step.simps by (intro pres_with_cfg quiet_format kept_format) simp_all
qed

subsection \<open>Mounting\<close>

definition is_mounted_plain :: "env \<Rightarrow> path \<Rightarrow> (world, bool) act" where
  "is_mounted_plain e p = bindM (run_cmd e [''mountpoint'', ''-q'', str_path p]) (\<lambda>(rc, out). ret (rc = 0))"

definition mount_at :: "env \<Rightarrow> json \<Rightarrow> path \<Rightarrow> (sys, unit) act" where
  "mount_at e dev p = thenM (on_world (mkdir_parents e p))
     (bindM (on_world (is_mounted_plain e p)) (\<lambda>mounted.
        if mounted then ret ()
        else bindM (liftR (as_text dev)) (\<lambda>d. on_world (run_do e [''mount'', d, str_path p]))))"

definition mount_parts :: "env \<Rightarrow> json \<Rightarrow> (sys, unit) act" where
  "mount_parts e parts =
     (if \<not> truthy parts then fail_step ''No partition info - run partition step first''
      else
        bindM target_root (\<lambda>mp.
        bindM (liftR (jindex parts ''root'')) (\<lambda>root.
        bindM (liftR (jindex parts ''boot'')) (\<lambda>boot.
        bindM (liftR (jget parts ''swap'' (JStr []))) (\<lambda>swap.
        bindM (liftR (jget parts ''uefi'' (JBool False))) (\<lambda>uefi.
          let boot_dir = sub_path mp (if truthy uefi then ''boot/efi'' else ''boot'')
          in seqM
           [mount_at e root mp,
            mount_at e boot boot_dir,
            whenM (truthy swap) (bindM (liftR (as_text swap)) (\<lambda>d. on_world (run_quiet e [''swapon'', d]))),
            set_config e ''boot_dir'' (JStr (str_path boot_dir))]))))))"

definition mount_step :: step where
  "mount_step = \<lparr>st_name = ''mount'', st_exec = (\<lambda>e. bindM (cfg ''partitions'' JNull) (mount_parts e))\<rparr>"

interpretation mount: step_contract e mount_step for e
proof
  show "preserves (quiet (ends_stage (st_name mount_step))) (st_exec mount_step e)"
    unfolding mount_step_def mount_parts_def mount_at_def is_mounted_plain_def step.simps
    by (intro body_rules) simp_all
qed

end
