(* ===== verification/SystemSteps.thy ===== *)
theory SystemSteps
  imports StepBase "HOL-Library.Word"
begin

text \<open>
  The steps that install the base system: \<^verbatim>\<open>s05_stage3.py\<close> (download, check and extract the
  archive), \<^verbatim>\<open>s06_makeconf.py\<close> (portage configuration from the detected hardware) and
  \<^verbatim>\<open>s07_chroot_init.py\<close> (chroot, portage tree, time zone, locale). A fetch from the network gives
  a text or fails; SHA-512 is a function of the environment.
\<close>

subsection \<open>The stage 3 archive\<close>

definition MIRROR :: str where
  "MIRROR = ''https://distfiles.gentoo.org/releases/amd64/autobuilds''"

definition LATEST_URL :: str where
  "LATEST_URL = MIRROR @ ''/latest-stage3-amd64-openrc.txt''"

definition STAGE3_DIR :: path where
  "STAGE3_DIR = Path ''/'' [''var'', ''tmp'', ''anaconda-gentoo'']"

definition urlopen :: "env \<Rightarrow> str \<Rightarrow> ('s, str) act" where
  "urlopen e url = (case fetch_url e url of Some t \<Rightarrow> ret t | None \<Rightarrow> raise (OSErr ''urlopen error''))"

text \<open>The first line that is neither blank nor a comment.\<close>

definition latest_path :: "str \<Rightarrow> str option" where
  "latest_path t =
     map_option (\<lambda>l. hd (words l)) (find (\<lambda>l. l \<noteq> [] \<and> \<not> starts_with ''#'' l) (map strip (splitlines t)))"

definition fetch_latest_url :: "env \<Rightarrow> (world, str) act" where
  "fetch_latest_url e = bindM (urlopen e LATEST_URL) (\<lambda>t.
     case latest_path t of
       Some p \<Rightarrow> ret (MIRROR @ ''/'' @ p)
     | None \<Rightarrow> raise (StepError ''Could not parse latest stage3 URL from Gentoo mirrors''))"

definition download :: "env \<Rightarrow> str \<Rightarrow> path \<Rightarrow> (world, unit) act" where
  "download e url dest = bindM (urlopen e url) (\<lambda>t. write_text e dest t)"

definition expected_sha512 :: "str \<Rightarrow> str \<Rightarrow> str" where
  "expected_sha512 name content =
     (case find (\<lambda>l. contains name l \<and> contains ''SHA512'' l) (splitlines content) of
        Some l \<Rightarrow> last (words l)
      | None \<Rightarrow> [])"

definition verify_sha512 :: "env \<Rightarrow> path \<Rightarrow> str \<Rightarrow> (world, unit) act" where
  "verify_sha512 e tarball digest_url =
     bindM (urlopen e digest_url) (\<lambda>content.
     let expected = expected_sha512 (path_name tarball) content
     in if expected = [] then ret ()
        else bindM (read_text tarball) (\<lambda>t.
          if sha512_hex e t \<noteq> expected then raise (StepError (''SHA512 mismatch for '' @ path_name tarball))
          else ret ()))"

definition stage3_url :: "env \<Rightarrow> str option \<Rightarrow> (sys, str) act" where
  "stage3_url e url =
     bindM (if url \<noteq> None \<and> url \<noteq> Some [] then ret (JStr (the url)) else cfg ''stage3_url'' JNull) (\<lambda>u.
     if truthy u then (case u of JStr t \<Rightarrow> ret t | _ \<Rightarrow> raise (AttributeErr ''split''))
     else on_world (fetch_latest_url e))"

text \<open>Any exception of the verification is caught, the mismatch among them.\<close>

definition stage3_get :: "env \<Rightarrow> str \<Rightarrow> (sys, unit) act" where
  "stage3_get e url =
     (let tarball = sub_path STAGE3_DIR (last (split_on CHR ''/'' url))
      in seqM
       [on_world (mkdir_parents e STAGE3_DIR),
        bindM (existsM tarball) (\<lambda>cached. whenM (\<not> cached) (on_world (download e url tarball))),
        on_world (catchM (verify_sha512 e tarball (url @ ''.DIGESTS'')) is_exception (\<lambda>_. ret ())),
        set_config e ''stage3_url'' (JStr url),
        set_config e ''stage3_tarball'' (JStr (str_path tarball))])"

definition stage3_step :: "str option \<Rightarrow> step" where
  "stage3_step url = \<lparr>st_name = ''stage3_download'', st_exec = (\<lambda>e. bindM (stage3_url e url) (stage3_get e))\<rparr>"

definition extract_archive :: "env \<Rightarrow> json \<Rightarrow> (sys, unit) act" where
  "extract_archive e tarball =
     (if \<not> truthy tarball then fail_step ''stage3 tarball not found - run download step first''
      else bindM (liftR (as_text tarball)) (\<lambda>t.
        bindM (existsM (mk_path t)) (\<lambda>there.
          if \<not> there then fail_step ''stage3 tarball not found - run download step first''
          else bindM target_root (\<lambda>mp.
            bindM (on_world (run_cmd e [''tar'', ''xpf'', t, ''--xattrs-include=*.*'', ''--numeric-owner'', ''-C'', str_path mp]))
              (\<lambda>(rc, out). if rc \<noteq> 0 then fail_step (''tar extraction failed (exit '' @ str_of_int rc @ '')'') else ret ())))))"

definition extract_step :: step where
  "extract_step = \<lparr>st_name = ''stage3_extract'', st_exec = (\<lambda>e. bindM (cfg ''stage3_tarball'' JNull) (extract_archive e))\<rparr>"

lemma pres_json_text: "(\<And>t. preserves R (f t)) \<Longrightarrow> preserves R m \<Longrightarrow> preserves R (case u of JStr t \<Rightarrow> f t | _ \<Rightarrow> m)"
  by (cases u) simp_all

lemma pres_urlopen: "preserves (adds_events P) (urlopen e u)"
  unfolding urlopen_def by (intro event_rules)

lemma split_on_parts: "x \<in> set (split_on_acc d cur s) \<Longrightarrow> d \<notin> set cur \<Longrightarrow> d \<notin> set x"
  by (induction d cur s rule: split_on_acc.induct) (auto split: if_splits)

lemma split_on_nonempty: "split_on_acc d cur s \<noteq> []"
  by (induction d cur s rule: split_on_acc.induct) auto

lemma split_on_absent: "d \<notin> set s \<Longrightarrow> split_on_acc d cur s = [cur @ s]"
  by (induction d cur s rule: split_on_acc.induct) auto

lemma last_part: "d \<notin> set (last (split_on d s))"
  using split_on_parts [OF last_in_set [OF split_on_nonempty], of d "[]" s] by (simp add: split_on_def)

lemma mk_path_name: "CHR ''/'' \<notin> set s \<Longrightarrow> mk_path s = Path [] (if s = [] \<or> s = ''.'' then [] else [s])"
  by (cases s) (auto simp: mk_path_def split_on_def split_on_absent starts_with_def)

lemma stage3_file: "\<not> is_state_file (sub_path STAGE3_DIR (last (split_on CHR ''/'' url)))"
  by (simp add: sub_path_def mk_path_name last_part path_join_def is_absolute_def STAGE3_DIR_def file_simps)

interpretation stage3: step_contract e "stage3_step url" for e url
proof
  show "preserves (quiet (ends_stage (st_name (stage3_step url)))) (st_exec (stage3_step url) e)"
    unfolding stage3_step_def stage3_url_def stage3_get_def fetch_latest_url_def download_def verify_sha512_def
      step.simps Let_def
    by (intro body_rules pres_json_text pres_urlopen) (simp_all add: stage3_file)
qed

interpretation stage3_extract: step_contract e extract_step for e
proof
  show "preserves (quiet (ends_stage (st_name extract_step))) (st_exec extract_step e)"
    unfolding extract_step_def extract_archive_def step.simps by (intro body_rules) simp
qed

subsection \<open>Portage configuration\<close>

definition CLASS_USE :: "(int \<times> str list) list" where
  "CLASS_USE =
     [(0x0300, []), (0x0403, [''alsa'']), (0x0200, [''networkmanager'']),
      (0x0280, [''wifi'', ''networkmanager'']), (0x0E00, [])]"

definition GPU_VENDORS :: "(int \<times> str) list" where
  "GPU_VENDORS =
     [(0x8086, ''intel''), (0x1002, ''amdgpu radeon''), (0x10DE, ''nvidia''), (0x1AF4, ''virgl''), (0x15AD, ''vmware'')]"

text \<open>\<^verbatim>\<open>_GPU_VENDORS.get(vendor, "")\<close>: a list or a dictionary cannot be a key.\<close>

definition gpu_name :: "json \<Rightarrow> exn + str" where
  "gpu_name v =
     (case v of
        JList _ \<Rightarrow> Inl (TypeErr ''unhashable type'')
      | JObj _ \<Rightarrow> Inl (TypeErr ''unhashable type'')
      | JInt i \<Rightarrow> Inr (dget_default GPU_VENDORS i [])
      | _ \<Rightarrow> Inr [])"

definition full_class :: "int \<Rightarrow> int" where
  "full_class cls = or (push_bit 8 (and (drop_bit 16 cls) 0xFF)) (and (drop_bit 8 cls) 0xFF)"

text \<open>The flags of the table rows whose key, shifted right by eight bits, is the class.\<close>

definition class_flags :: "int \<Rightarrow> str list" where
  "class_flags cls = concat (map (\<lambda>(key, flags). if full_class cls = drop_bit 8 key then flags else []) CLASS_USE)"

definition video_of :: "json \<Rightarrow> int \<Rightarrow> str \<Rightarrow> exn + str" where
  "video_of dev cls video =
     (if and (drop_bit 16 cls) 0xFF = 0x03 then
        (case jget dev ''vendor'' (JInt 0) of
           Inl x \<Rightarrow> Inl x
         | Inr v \<Rightarrow> (case gpu_name v of Inl x \<Rightarrow> Inl x | Inr n \<Rightarrow> Inr (if n \<noteq> [] then n else video)))
      else Inr video)"

fun scan_use :: "json list \<Rightarrow> str list \<times> str \<Rightarrow> exn + (str list \<times> str)" where
  "scan_use [] r = Inr r"
| "scan_use (dev # devs) (flags, video) =
     (case jget dev ''cls'' (JInt 0) of
        Inl x \<Rightarrow> Inl x
      | Inr c \<Rightarrow>
          (case as_number c of
             Inl x \<Rightarrow> Inl x
           | Inr cls \<Rightarrow>
               (case video_of dev cls video of
                  Inl x \<Rightarrow> Inl x
                | Inr video' \<Rightarrow> scan_use devs (flags @ class_flags cls, video'))))"

text \<open>The set of USE flags is a list whose order and duplicates do not matter: it is only sorted.\<close>

definition detect_use_flags :: "json \<Rightarrow> exn + (str list \<times> str \<times> str)" where
  "detect_use_flags hw =
     (case jget hw ''pci'' (JList []) of
        Inl x \<Rightarrow> Inl x
      | Inr p \<Rightarrow>
          (case jitems p of
             Inl x \<Rightarrow> Inl x
           | Inr devs \<Rightarrow>
               (case scan_use devs ([''unicode'', ''udev''], ''fbdev vesa'') of
                  Inl x \<Rightarrow> Inl x
                | Inr (flags, video) \<Rightarrow>
                    (case jget hw ''acpi'' (JObj []) of
                       Inl x \<Rightarrow> Inl x
                     | Inr acpi \<Rightarrow>
                         (case jget acpi ''has_acpi'' JNull of
                            Inl x \<Rightarrow> Inl x
                          | Inr h \<Rightarrow> Inr (flags @ (if truthy h then [''acpi''] else []), video, ''pc''))))))"

definition make_conf_text :: "str \<Rightarrow> nat \<Rightarrow> str list \<Rightarrow> str \<Rightarrow> str \<Rightarrow> str" where
  "make_conf_text cflags jobs flags video platform =
     (let assign = (\<lambda>k v. k @ ''='' @ [CHR 0x22] @ v @ [CHR 0x22])
      in unlines
       [''# /etc/portage/make.conf'',
        ''# Generated by anaconda-gentoo'',
        [],
        assign ''CFLAGS'' cflags,
        assign ''CXXFLAGS'' ''${CFLAGS}'',
        assign ''FCFLAGS'' ''${CFLAGS}'',
        assign ''FFLAGS'' ''${CFLAGS}'',
        assign ''MAKEOPTS'' (''-j'' @ str_of_nat jobs),
        [],
        assign ''USE'' (join '' '' flags),
        [],
        assign ''VIDEO_CARDS'' video,
        assign ''INPUT_DEVICES'' ''libinput'',
        [],
        assign ''ACCEPT_LICENSE'' ''*'',
        assign ''GENTOO_MIRRORS'' ''https://distfiles.gentoo.org'',
        [],
        assign ''GRUB_PLATFORMS'' platform,
        [],
        assign ''FEATURES'' ''parallel-fetch parallel-install''])"

definition write_make_conf :: "env \<Rightarrow> str \<Rightarrow> str list \<Rightarrow> str \<Rightarrow> str \<Rightarrow> (sys, unit) act" where
  "write_make_conf e cflags flags video platform =
     bindM target_root (\<lambda>mp.
       let dir = path_div mp [''etc'', ''portage'']
       in seqM
        [on_world (mkdir_parents e dir),
         on_world (write_text e (path_div dir [''make.conf'']) (make_conf_text cflags (cpus e) flags video platform)),
         set_config e ''make_conf'' (JObj
           [(''cflags'', JStr cflags), (''use'', JList (map JStr flags)), (''video_cards'', JStr video),
            (''grub_platform'', JStr platform), (''jobs'', JInt (int (cpus e)))])])"

definition make_conf_step :: "str \<Rightarrow> str list \<Rightarrow> step" where
  "make_conf_step march extra_use =
     \<lparr>st_name = ''makeconf'', st_exec = (\<lambda>e.
        bindM (cfg ''hardware'' (JObj [])) (\<lambda>hw.
        bindM (cfg ''partitions'' (JObj [])) (\<lambda>parts.
        bindM (liftR (detect_use_flags hw)) (\<lambda>(flags, video, platform).
        bindM (liftR (jget parts ''uefi'' JNull)) (\<lambda>uefi.
          write_make_conf e (''-O2 -pipe -march='' @ march)
            (sort (remdups (flags @ extra_use @ (if truthy uefi then [''efi''] else []))))
            video (if truthy uefi then ''efi-64'' else platform))))))\<rparr>"

interpretation make_conf: step_contract e "make_conf_step march extra_use" for e march extra_use
proof
  show "preserves (quiet (ends_stage (st_name (make_conf_step march extra_use)))) (st_exec (make_conf_step march extra_use) e)"
    unfolding make_conf_step_def write_make_conf_def step.simps Let_def
    by (intro body_rules) (auto simp: file_simps)
qed

subsection \<open>Inside the new system\<close>

definition portage_dirs :: "str list" where
  "portage_dirs = [''package.use'', ''package.accept_keywords'', ''package.mask'']"

definition chroot_init_step :: step where
  "chroot_init_step =
     \<lparr>st_name = ''chroot_init'', st_exec = (\<lambda>e.
        bindM target_root (\<lambda>mp.
        bindM (existsM (mk_path ''/etc/resolv.conf'')) (\<lambda>there.
          seqM
           [whenM there (on_world (copy2 e (mk_path ''/etc/resolv.conf'') (path_div mp [''etc'', ''resolv.conf'']))),
            mapM (\<lambda>d. on_world (mkdir_parents e (path_div mp [''etc'', ''portage'', d]))) portage_dirs])))\<rparr>"

definition portage_sync_step :: step where
  "portage_sync_step =
     \<lparr>st_name = ''portage_sync'', st_exec = (\<lambda>e.
        bindM target_root (\<lambda>mp.
          on_world (chroot_context e mp (chroot_run e mp [''emerge-webrsync''] [] True))))\<rparr>"

definition set_timezone :: "env \<Rightarrow> path \<Rightarrow> str \<Rightarrow> (sys, unit) act" where
  "set_timezone e mp tz =
     (let tz_file = path_join (path_div mp [''usr'', ''share'', ''zoneinfo'']) (mk_path tz)
      in bindM (existsM tz_file) (\<lambda>there.
           if \<not> there then fail_step (''Timezone not found: '' @ tz)
           else seqM
            [on_world (write_text e (path_div mp [''etc'', ''timezone'']) (tz @ [CHR 0x0A])),
             on_world (copy2 e tz_file (path_div mp [''etc'', ''localtime''])),
             set_config e ''timezone'' (JStr tz)]))"

definition timezone_step :: "str \<Rightarrow> step" where
  "timezone_step tz0 =
     \<lparr>st_name = ''timezone'', st_exec = (\<lambda>e.
        bindM target_root (\<lambda>mp.
        bindM (cfg ''timezone'' (JStr tz0)) (\<lambda>tz.
        bindM (liftR (as_text tz)) (set_timezone e mp))))\<rparr>"

text \<open>The locale is appended when the file does not contain its text anywhere.\<close>

definition set_locale :: "env \<Rightarrow> path \<Rightarrow> str \<Rightarrow> (sys, unit) act" where
  "set_locale e mp loc =
     (let gen = path_div mp [''etc'', ''locale.gen'']
      in bindM (existsM gen) (\<lambda>there.
         bindM (on_world (if there then read_text gen else ret [])) (\<lambda>old.
         thenM (whenM (\<not> contains loc old) (on_world (append_text e gen (loc @ [CHR 0x0A]))))
         (thenM (on_world (chroot_context e mp (chroot_run e mp [''locale-gen''] [] True)))
         (case words loc of
            [] \<Rightarrow> raise IndexErr
          | lang # _ \<Rightarrow> seqM
              [on_world (write_text e (path_div mp [''etc'', ''locale.conf'']) (''LANG='' @ lang @ [CHR 0x0A])),
               set_config e ''locale'' (JStr loc)])))))"

definition locale_step :: "str \<Rightarrow> step" where
  "locale_step loc0 =
     \<lparr>st_name = ''locale'', st_exec = (\<lambda>e.
        bindM target_root (\<lambda>mp.
        bindM (cfg ''locale'' (JStr loc0)) (\<lambda>loc.
        bindM (liftR (as_text loc)) (set_locale e mp))))\<rparr>"

lemma pres_words: "preserves R m \<Longrightarrow> (\<And>x xs. preserves R (f x xs)) \<Longrightarrow> preserves R (case xs of [] \<Rightarrow> m | x # xs \<Rightarrow> f x xs)"
  by (cases xs) simp_all

interpretation chroot_init: step_contract e chroot_init_step for e
proof
  show "preserves (quiet (ends_stage (st_name chroot_init_step))) (st_exec chroot_init_step e)"
    unfolding chroot_init_step_def step.simps by (intro body_rules) (simp_all add: file_simps)
qed

interpretation portage_sync: step_contract e portage_sync_step for e
proof
  show "preserves (quiet (ends_stage (st_name portage_sync_step))) (st_exec portage_sync_step e)"
    unfolding portage_sync_step_def step.simps by (intro body_rules) simp_all
qed

interpretation timezone: step_contract e "timezone_step tz0" for e tz0
proof
  show "preserves (quiet (ends_stage (st_name (timezone_step tz0)))) (st_exec (timezone_step tz0) e)"
    unfolding timezone_step_def set_timezone_def step.simps Let_def by (intro body_rules) (simp_all add: file_simps)
qed

interpretation locale_gen: step_contract e "locale_step loc0" for e loc0
proof
  show "preserves (quiet (ends_stage (st_name (locale_step loc0)))) (st_exec (locale_step loc0) e)"
    unfolding locale_step_def set_locale_def step.simps Let_def
    by (intro body_rules pres_words) (simp_all add: file_simps)
qed

end
