(* ===== verification/PyRegex.thy ===== *)
theory PyRegex
  imports PyText
begin

text \<open>
  The part of Python's \<^verbatim>\<open>re\<close> module the program uses, as a backtracking matcher in
  continuation-passing style: alternatives are tried from left to right, repetitions and
  optional parts are greedy, and the first way to complete the whole pattern wins. A repetition
  is of one character class, which is all the program's patterns need. Matching is structural
  in the pattern, so every search ends.
\<close>

datatype rx =
    Eps
  | Cls "char \<Rightarrow> bool"
  | Rep "char \<Rightarrow> bool" nat
  | Seq rx rx
  | Alt rx rx
  | Opt rx
  | Grp nat rx
  | WordB
  | LineB

text \<open>Characters and strings as patterns, and sequences of patterns.\<close>

definition chr_rx :: "char \<Rightarrow> rx" where
  "chr_rx c = Cls (\<lambda>x. x = c)"

fun lit :: "str \<Rightarrow> rx" where
  "lit [] = Eps"
| "lit (c # cs) = Seq (chr_rx c) (lit cs)"

fun seq_rx :: "rx list \<Rightarrow> rx" where
  "seq_rx [] = Eps"
| "seq_rx (r # rs) = Seq r (seq_rx rs)"

definition sp :: rx where
  "sp = Rep is_space 0"

text \<open>A match state: the character before the current position, the rest of the text, the captured groups.\<close>

type_synonym mstate = "char option \<times> str \<times> (nat \<times> str) list"

type_synonym cont = "mstate \<Rightarrow> mstate option"

fun rep :: "(char \<Rightarrow> bool) \<Rightarrow> nat \<Rightarrow> char option \<Rightarrow> str \<Rightarrow> (nat \<times> str) list \<Rightarrow> cont \<Rightarrow> mstate option" where
  "rep P n p [] g k = (if n = 0 then k (p, [], g) else None)"
| "rep P n p (c # cs) g k =
     (if P c then
        (case rep P (n - 1) (Some c) cs g k of
           Some r \<Rightarrow> Some r
         | None \<Rightarrow> if n = 0 then k (p, c # cs, g) else None)
      else if n = 0 then k (p, c # cs, g) else None)"

definition at_word :: "char option \<Rightarrow> str \<Rightarrow> bool" where
  "at_word p s \<longleftrightarrow>
     (case p of None \<Rightarrow> False | Some c \<Rightarrow> is_word c) \<noteq> (case s of [] \<Rightarrow> False | c # _ \<Rightarrow> is_word c)"

fun rmatch :: "rx \<Rightarrow> mstate \<Rightarrow> cont \<Rightarrow> mstate option" where
  "rmatch Eps m k = k m"
| "rmatch (Cls P) (p, s, g) k = (case s of [] \<Rightarrow> None | c # cs \<Rightarrow> if P c then k (Some c, cs, g) else None)"
| "rmatch (Rep P n) (p, s, g) k = rep P n p s g k"
| "rmatch (Seq a b) m k = rmatch a m (\<lambda>m'. rmatch b m' k)"
| "rmatch (Alt a b) m k = (case rmatch a m k of Some r \<Rightarrow> Some r | None \<Rightarrow> rmatch b m k)"
| "rmatch (Opt a) m k = (case rmatch a m k of Some r \<Rightarrow> Some r | None \<Rightarrow> k m)"
| "rmatch (Grp i a) (p, s, g) k =
     rmatch a (p, s, g) (\<lambda>(p', s', g'). k (p', s', (i, take (length s - length s') s) # g'))"
| "rmatch WordB (p, s, g) k = (if at_word p s then k (p, s, g) else None)"
| "rmatch LineB (p, s, g) k = (if p = None \<or> p = Some CHR 0x0A then k (p, s, g) else None)"

definition match_at :: "rx \<Rightarrow> char option \<Rightarrow> str \<Rightarrow> mstate option" where
  "match_at r p s = rmatch r (p, s, []) Some"

definition group :: "nat \<Rightarrow> (nat \<times> str) list \<Rightarrow> str" where
  "group i g = (case map_of g i of None \<Rightarrow> [] | Some s \<Rightarrow> s)"

text \<open>
  \<^verbatim>\<open>finditer\<close>: the captured groups of the successive matches. After a match the search goes
  on behind it; the patterns of the program never match the empty string.
\<close>

function find_all :: "rx \<Rightarrow> char option \<Rightarrow> str \<Rightarrow> (nat \<times> str) list list" where
  "find_all r p s =
     (case match_at r p s of
        Some (p', s', g) \<Rightarrow>
          if length s' < length s then g # find_all r p' s'
          else (case s of [] \<Rightarrow> [g] | c # cs \<Rightarrow> g # find_all r (Some c) cs)
      | None \<Rightarrow> (case s of [] \<Rightarrow> [] | c # cs \<Rightarrow> find_all r (Some c) cs))"
  by pat_completeness auto
termination
  by (relation "measure (\<lambda>(r, p, s). length s)") auto

declare find_all.simps [simp del]

definition finditer :: "rx \<Rightarrow> str \<Rightarrow> (nat \<times> str) list list" where
  "finditer r s = find_all r None s"

definition search :: "rx \<Rightarrow> str \<Rightarrow> (nat \<times> str) list option" where
  "search r s = (case finditer r s of [] \<Rightarrow> None | g # _ \<Rightarrow> Some g)"

text \<open>\<^verbatim>\<open>re.sub(r, new, s)\<close> for a replacement without references.\<close>

function sub_from :: "rx \<Rightarrow> str \<Rightarrow> char option \<Rightarrow> str \<Rightarrow> str" where
  "sub_from r new p s =
     (case match_at r p s of
        Some (p', s', g) \<Rightarrow>
          if length s' < length s then new @ sub_from r new p' s'
          else (case s of [] \<Rightarrow> new | c # cs \<Rightarrow> new @ c # sub_from r new (Some c) cs)
      | None \<Rightarrow> (case s of [] \<Rightarrow> [] | c # cs \<Rightarrow> c # sub_from r new (Some c) cs))"
  by pat_completeness auto
termination
  by (relation "measure (\<lambda>(r, new, p, s). length s)") auto

declare sub_from.simps [simp del]

definition re_sub :: "rx \<Rightarrow> str \<Rightarrow> str \<Rightarrow> str" where
  "re_sub r new s = sub_from r new None s"

subsection \<open>Matching text of a known shape\<close>

lemma rep_span:
  "\<forall>c \<in> set xs. P c \<Longrightarrow> ys = [] \<or> \<not> P (hd ys) \<Longrightarrow> n \<le> length xs \<Longrightarrow>
     k ((if xs = [] then p else Some (last xs)), ys, g) = Some m \<Longrightarrow>
     rep P n p (xs @ ys) g k = Some m"
proof (induction xs arbitrary: n p)
  case Nil
  then show ?case by (cases ys) auto
next
  case (Cons x xs)
  then have "rep P (n - 1) (Some x) (xs @ ys) g k = Some m" by (auto split: if_splits)
  with Cons.prems show ?case by simp
qed

lemma rep_none: "ys = [] \<or> \<not> P (hd ys) \<Longrightarrow> rep P 0 p ys g k = k (p, ys, g)"
  by (cases ys) auto

lemma rep_fail: "0 < n \<Longrightarrow> ys = [] \<or> \<not> P (hd ys) \<Longrightarrow> rep P n p ys g k = None"
  by (cases ys) auto

lemma rmatch_lit:
  "rmatch (lit t) (p, t @ s, g) k = k ((if t = [] then p else Some (last t)), s, g)"
  by (induction t arbitrary: p) (auto simp: chr_rx_def)

lemma rmatch_lit_fail: "\<not> starts_with t s \<Longrightarrow> rmatch (lit t) (p, s, g) k = None"
  by (induction t arbitrary: p s) (auto simp: chr_rx_def starts_with_def split: list.splits)

lemma find_all_skip:
  "match_at r p (c # cs) = None \<Longrightarrow> find_all r p (c # cs) = find_all r (Some c) cs"
  by (subst find_all.simps) simp

lemma find_all_hit:
  "match_at r p s = Some (p', s', g) \<Longrightarrow> length s' < length s \<Longrightarrow>
     find_all r p s = g # find_all r p' s'"
  by (subst find_all.simps) simp

lemma sub_from_skip:
  "match_at r p (c # cs) = None \<Longrightarrow> sub_from r new p (c # cs) = c # sub_from r new (Some c) cs"
  by (subst sub_from.simps) simp

lemma sub_from_hit:
  "match_at r p s = Some (p', s', g) \<Longrightarrow> length s' < length s \<Longrightarrow>
     sub_from r new p s = new @ sub_from r new p' s'"
  by (subst sub_from.simps) simp

subsection \<open>What a match consumes\<close>

text \<open>The texts a pattern can match, without regard to the context word and line boundaries look at.\<close>

fun lang :: "rx \<Rightarrow> str \<Rightarrow> bool" where
  "lang (Cls P) t = (\<exists>c. t = [c] \<and> P c)"
| "lang (Rep P n) t = (n \<le> length t \<and> (\<forall>c \<in> set t. P c))"
| "lang (Seq a b) t = (\<exists>u v. t = u @ v \<and> lang a u \<and> lang b v)"
| "lang (Alt a b) t = (lang a t \<or> lang b t)"
| "lang (Opt a) t = (t = [] \<or> lang a t)"
| "lang (Grp i a) t = lang a t"
| "lang _ t = (t = [])"

lemma rep_lang:
  "rep P n p s g k = Some m \<Longrightarrow>
     \<exists>t p' s' g'. s = t @ s' \<and> n \<le> length t \<and> (\<forall>c \<in> set t. P c) \<and> k (p', s', g') = Some m"
proof (induction s arbitrary: n p)
  case Nil
  then show ?case by (auto split: if_splits)
next
  case (Cons x xs)
  show ?case
  proof (cases "\<exists>r. P x \<and> rep P (n - 1) (Some x) xs g k = Some r")
    case True
    then have "rep P (n - 1) (Some x) xs g k = Some m" "P x" using Cons.prems by auto
    then obtain t p' s' g' where "xs = t @ s'" "n - 1 \<le> length t" "\<forall>c \<in> set t. P c" "k (p', s', g') = Some m"
      using Cons.IH by blast
    with \<open>P x\<close> show ?thesis by (intro exI [of _ "x # t"]) auto
  next
    case False
    then have "k (p, x # xs, g) = Some m" "n = 0" using Cons.prems by (auto split: if_splits option.splits)
    then show ?thesis by (intro exI [of _ "[]"]) auto
  qed
qed

lemma rmatch_lang:
  "rmatch r (p, s, g) k = Some m \<Longrightarrow> \<exists>t p' s' g'. s = t @ s' \<and> lang r t \<and> k (p', s', g') = Some m"
proof (induction r arbitrary: p s g k m)
  case (Cls P)
  then obtain x xs where "s = x # xs" "P x" "k (Some x, xs, g) = Some m"
    by (auto split: list.splits if_splits)
  then show ?case by (intro exI [of _ "[x]"]) auto
next
  case (Rep P n)
  then show ?case using rep_lang [of P n p s g k m] by simp
next
  case (Seq a b)
  then have "rmatch a (p, s, g) (\<lambda>m'. rmatch b m' k) = Some m" by simp
  from Seq.IH(1) [OF this] obtain t p' s' g' where
    1: "s = t @ s'" "lang a t" "rmatch b (p', s', g') k = Some m" by blast
  from Seq.IH(2) [OF 1(3)] obtain t2 p2 s2 g2 where "s' = t2 @ s2" "lang b t2" "k (p2, s2, g2) = Some m" by blast
  with 1 show ?case by (intro exI [of _ "t @ t2"]) auto
next
  case (Alt a b)
  show ?case
  proof (cases "rmatch a (p, s, g) k")
    case None
    with Alt.prems have "rmatch b (p, s, g) k = Some m" by simp
    from Alt.IH(2) [OF this] show ?thesis by auto
  next
    case (Some x)
    with Alt.prems have "rmatch a (p, s, g) k = Some m" by simp
    from Alt.IH(1) [OF this] show ?thesis by auto
  qed
next
  case (Opt a)
  show ?case
  proof (cases "rmatch a (p, s, g) k")
    case None
    with Opt.prems show ?thesis by (intro exI [of _ "[]"]) auto
  next
    case (Some x)
    with Opt.prems have "rmatch a (p, s, g) k = Some m" by simp
    from Opt.IH [OF this] show ?thesis by auto
  qed
next
  case (Grp i a)
  then have "rmatch a (p, s, g) (\<lambda>(p', s', g'). k (p', s', (i, take (length s - length s') s) # g')) = Some m"
    by simp
  from Grp.IH [OF this] show ?case by auto
qed (force split: if_splits)+

lemma match_at_lang: "match_at r p s = Some (p', s', g) \<Longrightarrow> \<exists>t. s = t @ s' \<and> lang r t"
  using rmatch_lang [of r p s "[]" Some] by (fastforce simp: match_at_def)

lemma lang_lit: "lang (lit t) u \<longleftrightarrow> u = t"
  by (induction t arbitrary: u) (auto simp: chr_rx_def)

lemma lang_sp: "lang sp t \<longleftrightarrow> (\<forall>c \<in> set t. is_space c)"
  by (simp add: sp_def)

lemma lang_seq_append: "lang (seq_rx (rs @ rs')) t \<longleftrightarrow> (\<exists>u v. t = u @ v \<and> lang (seq_rx rs) u \<and> lang (seq_rx rs') v)"
proof (induction rs arbitrary: t)
  case (Cons r rs)
  show ?case by (auto simp: Cons) (metis append.assoc)+
qed simp

text \<open>A pattern that cannot match a character consumes none of it.\<close>

fun avoids :: "char \<Rightarrow> rx \<Rightarrow> bool" where
  "avoids c (Cls P) = (\<not> P c)"
| "avoids c (Rep P n) = (\<not> P c)"
| "avoids c (Seq a b) = (avoids c a \<and> avoids c b)"
| "avoids c (Alt a b) = (avoids c a \<and> avoids c b)"
| "avoids c (Opt a) = avoids c a"
| "avoids c (Grp i a) = avoids c a"
| "avoids c _ = True"

lemma avoids_lang: "lang r t \<Longrightarrow> avoids c r \<Longrightarrow> c \<notin> set t"
  by (induction r arbitrary: t) fastforce+

lemma avoids_seq: "avoids c (seq_rx rs) \<longleftrightarrow> (\<forall>r \<in> set rs. avoids c r)"
  by (induction rs) auto

text \<open>
  When no text a pattern matches runs over into an occurrence of \<open>m\<close>, which the pattern
  matches, then the search finds that occurrence whatever stands before it.
\<close>

lemma find_all_occurs:
  assumes apart: "\<And>u v w. lang r (u @ v) \<Longrightarrow> u \<noteq> [] \<Longrightarrow> v \<noteq> [] \<Longrightarrow> m @ post \<noteq> v @ w"
    and hit: "\<And>p. match_at r p (m @ post) = Some (q, post, g)" and m: "m \<noteq> []"
    and proper: "\<not> lang r []"
  shows "g \<in> set (find_all r p (pre @ m @ post))"
proof (induction "length pre" arbitrary: pre p rule: less_induct)
  case less
  show ?case
  proof (cases pre)
    case Nil
    with m hit find_all_hit [of r p "m @ post" q post g] show ?thesis by simp
  next
    case (Cons x xs)
    show ?thesis
    proof (cases "match_at r p (pre @ m @ post)")
      case None
      then have "find_all r p (pre @ m @ post) = find_all r (Some x) (xs @ m @ post)"
        using find_all_skip [of r p x "xs @ m @ post"] by (simp add: Cons)
      with less Cons show ?thesis by simp
    next
      case (Some y)
      obtain p' s' g' where y: "y = (p', s', g')" by (cases y)
      obtain t where t: "pre @ m @ post = t @ s'" "lang r t" "t \<noteq> []"
        using match_at_lang [of r p "pre @ m @ post" p' s' g'] Some y proper by auto
      then obtain us where "pre = t @ us \<and> us @ m @ post = s' \<or> pre @ us = t \<and> m @ post = us @ s'"
        by (auto simp: append_eq_append_conv2)
      moreover have "us = []" if "pre @ us = t" "m @ post = us @ s'"
        using apart [of pre us s'] that t(2) Cons by auto
      ultimately obtain us where us: "pre = t @ us" "us @ m @ post = s'" by auto
      have "find_all r p (pre @ m @ post) = g' # find_all r p' s'"
        using find_all_hit [of r p "pre @ m @ post" p' s' g'] Some y t by simp
      moreover have "length us < length pre" using us(1) t(3) by simp
      ultimately show ?thesis using less [of us p'] us by simp
    qed
  qed
qed

text \<open>A pattern that starts with a character finds nothing in a text without it.\<close>

lemma match_at_absent: "c \<notin> set s \<Longrightarrow> match_at (Seq (chr_rx c) r) p s = None"
  by (cases s) (auto simp: match_at_def chr_rx_def)

lemma re_sub_absent: "c \<notin> set s \<Longrightarrow> re_sub (Seq (chr_rx c) r) new s = s"
proof -
  have "c \<notin> set s \<Longrightarrow> sub_from (Seq (chr_rx c) r) new p s = s" for p
  proof (induction s arbitrary: p)
    case Nil
    show ?case by (subst sub_from.simps) (simp add: match_at_absent)
  next
    case (Cons x xs)
    then show ?case by (subst sub_from.simps) (simp add: match_at_absent)
  qed
  then show "c \<notin> set s \<Longrightarrow> re_sub (Seq (chr_rx c) r) new s = s" by (simp add: re_sub_def)
qed

end
