(* ===== verification/Matchers.thy ===== *)
theory Matchers
  imports World Json PyRegex Fnmatch "HOL-Library.Word"
begin

unbundle bit_operations_syntax

text \<open>
  \<^verbatim>\<open>kconfig_builder/matchers.py\<close>, first half: the index of driver alias patterns, built by
  scanning the C files of a kernel source tree for device table macros, and the match of a device
  alias against it. The regular expressions are the module's, as terms of \<open>rx\<close>; the source
  tree is a tree of names in the order the operating system lists them.
\<close>

definition PCI_ANY_ID :: int where
  "PCI_ANY_ID = 0xFFFFFFFF"

definition SCAN_DIRS :: "str list" where
  "SCAN_DIRS = [''drivers'', ''net'', ''sound'', ''crypto'', ''block'']"

subsection \<open>The patterns\<close>

text \<open>A number (hexadecimal with prefix, or decimal), a comma and the brackets, each with optional space around.\<close>

definition num_rx :: rx where
  "num_rx = Alt (seq_rx [lit ''0'', Cls (\<lambda>c. c = CHR ''x'' \<or> c = CHR ''X''), Rep is_hexdig 1]) (Rep is_digit 1)"

definition call_rx :: "str \<Rightarrow> rx list \<Rightarrow> rx" where
  "call_rx name rs = seq_rx (lit name # sp # chr_rx CHR ''('' # sp # rs @ [sp, chr_rx CHR '')''])"

definition comma_rx :: rx where
  "comma_rx = seq_rx [sp, chr_rx CHR '','', sp]"

definition MOD_TABLE_RE :: rx where
  "MOD_TABLE_RE = call_rx ''MODULE_DEVICE_TABLE'' [Grp 1 (Rep is_word 1), comma_rx, Grp 2 (Rep is_word 1)]"

definition PCI_DEVICE_RE :: rx where
  "PCI_DEVICE_RE = call_rx ''PCI_DEVICE'' [Grp 1 num_rx, comma_rx, Grp 2 num_rx]"

definition PCI_VDEVICE_RE :: rx where
  "PCI_VDEVICE_RE = call_rx ''PCI_VDEVICE'' [Grp 1 (Rep is_word 1), comma_rx, Grp 2 num_rx]"

definition PCI_DEVICE_CLASS_RE :: rx where
  "PCI_DEVICE_CLASS_RE = call_rx ''PCI_DEVICE_CLASS'' [Grp 1 num_rx, comma_rx, Grp 2 num_rx]"

definition USB_DEVICE_RE :: rx where
  "USB_DEVICE_RE = call_rx ''USB_DEVICE'' [Grp 1 num_rx, comma_rx, Grp 2 num_rx]"

definition USB_IFACE_RE :: rx where
  "USB_IFACE_RE = call_rx ''USB_INTERFACE_INFO''
     [Grp 1 num_rx, comma_rx, Grp 2 num_rx, comma_rx, Grp 3 num_rx]"

definition USB_DEV_IFACE_RE :: rx where
  "USB_DEV_IFACE_RE = call_rx ''USB_DEVICE_AND_INTERFACE_INFO''
     [Grp 1 num_rx, comma_rx, Grp 2 num_rx, comma_rx, Grp 3 num_rx, comma_rx, Grp 4 num_rx,
      comma_rx, Grp 5 num_rx]"

definition not_quote :: "char \<Rightarrow> bool" where
  "not_quote c \<longleftrightarrow> c \<noteq> CHR 0x22"

definition STRING_ENTRY_RE :: rx where
  "STRING_ENTRY_RE = seq_rx [chr_rx CHR ''{'', sp, chr_rx CHR 0x22, Grp 1 (Rep not_quote 1), chr_rx CHR 0x22]"

definition OF_COMPAT_RE :: rx where
  "OF_COMPAT_RE = seq_rx [lit ''.compatible'', sp, chr_rx CHR ''='', sp, chr_rx CHR 0x22,
     Grp 1 (Rep not_quote 1), chr_rx CHR 0x22]"

text \<open>\<^verbatim>\<open>_hex\<close>, on the strings \<open>num_rx\<close> matches.\<close>

definition hex_val :: "str \<Rightarrow> int" where
  "hex_val s = (if starts_with ''0x'' (lower s) then int (num_val 16 (drop 2 s)) else int (num_val 10 s))"

subsection \<open>The index\<close>

record driver_entry =
  alias_pattern :: str
  module :: str
  source_file :: str

type_synonym source_index = "driver_entry list"

definition entry_of :: "str \<Rightarrow> str \<Rightarrow> str \<Rightarrow> driver_entry" where
  "entry_of a m s = \<lparr>alias_pattern = a, module = m, source_file = s\<rparr>"

definition index_match :: "source_index \<Rightarrow> str \<Rightarrow> driver_entry list" where
  "index_match idx a = filter (\<lambda>x. fnmatch a (alias_pattern x)) idx"

definition entry_json :: "driver_entry \<Rightarrow> json" where
  "entry_json x = JObj [(''alias'', JStr (alias_pattern x)), (''module'', JStr (module x)), (''src'', JStr (source_file x))]"

definition index_json :: "source_index \<Rightarrow> json" where
  "index_json idx = JList (map entry_json idx)"

definition index_to_json :: "source_index \<Rightarrow> str" where
  "index_to_json idx = dumps (index_json idx)"

text \<open>An item of the cache: a missing key raises. A value that is no string is outside the model, like any other failure of the cache.\<close>

fun json_entry :: "json \<Rightarrow> driver_entry option" where
  "json_entry (JObj d) =
     (case (dget d ''alias'', dget d ''module'', dget d ''src'') of
        (Some (JStr a), Some (JStr m), Some (JStr s)) \<Rightarrow> Some (entry_of a m s)
      | _ \<Rightarrow> None)"
| "json_entry _ = None"

definition json_index :: "json \<Rightarrow> source_index option" where
  "json_index j = (case j of JList xs \<Rightarrow> those (map json_entry xs) | _ \<Rightarrow> None)"

definition index_from_json :: "str \<Rightarrow> source_index option" where
  "index_from_json t = Option.bind (loads t) json_index"

subsection \<open>Module names and alias patterns\<close>

definition module_suffixes :: "str list" where
  "module_suffixes = [''_main'', ''_core'', ''_drv'', ''_pci'', ''_base'']"

definition module_of_stem :: "str \<Rightarrow> str" where
  "module_of_stem stem =
     (case filter (\<lambda>x. ends_with x stem \<and> length x < length stem) module_suffixes of
        [] \<Rightarrow> stem
      | x # _ \<Rightarrow> take (length stem - length x) stem)"

definition module_from_path :: "str list \<Rightarrow> str" where
  "module_from_path rel = module_of_stem (name_stem (if rel = [] then [] else last rel))"

definition pci_id :: "int \<Rightarrow> str option" where
  "pci_id i = (if i = PCI_ANY_ID then None else Some (fmt_X 8 i))"

definition class_part :: "int \<Rightarrow> int \<Rightarrow> nat \<Rightarrow> int \<Rightarrow> str option" where
  "class_part cls cls_mask k m =
     (if cls_mask = 0 \<or> cls = 0 then None
      else if cls_mask AND m = 0 then None
      else Some (fmt_X 2 (drop_bit k cls AND 0xFF)))"

definition star :: "str option \<Rightarrow> str" where
  "star x = (case x of None \<Rightarrow> ''*'' | Some s \<Rightarrow> s)"

definition pci_alias :: "int \<Rightarrow> int \<Rightarrow> int \<Rightarrow> int \<Rightarrow> int \<Rightarrow> int \<Rightarrow> str" where
  "pci_alias vendor device subvendor subdevice cls cls_mask =
     ''pci:v'' @ star (pci_id vendor) @ ''d'' @ star (pci_id device)
     @ ''sv'' @ star (pci_id subvendor) @ ''sd'' @ star (pci_id subdevice)
     @ ''bc'' @ star (class_part cls cls_mask 16 0xFF0000)
     @ ''sc'' @ star (class_part cls cls_mask 8 0x00FF00)
     @ ''i'' @ star (class_part cls cls_mask 0 0x0000FF)"

definition VENDOR_NAMES :: "(str, int) dict" where
  "VENDOR_NAMES =
     [(''INTEL'', 0x8086), (''AMD'', 0x1022), (''NVIDIA'', 0x10DE), (''BROADCOM'', 0x14E4),
      (''REALTEK'', 0x10EC), (''MARVELL'', 0x11AB), (''ATHEROS'', 0x168C), (''QUALCOMM'', 0x17CB),
      (''SAMSUNG'', 0x144D), (''SANDISK'', 0x15B7), (''WESTERN_DIGITAL'', 0x1B96),
      (''SEAGATE'', 0x1BB1), (''TOSHIBA'', 0x1179), (''MICRON'', 0x1344),
      (''REDHAT'', 0x1AF4), (''VIRTIO'', 0x1AF4), (''VMWARE'', 0x15AD),
      (''QEMU'', 0x1234), (''XEN'', 0x5853),
      (''MELLANOX'', 0x15B3), (''CHELSIO'', 0x1425), (''SOLARFLARE'', 0x1924),
      (''NETRONOME'', 0x19EE), (''CAVIUM'', 0x177D)]"

definition usb_part :: "nat \<Rightarrow> int \<Rightarrow> int \<Rightarrow> str option" where
  "usb_part w any i = (if i = any then None else Some (fmt_X w i))"

definition usb_alias :: "int \<Rightarrow> int \<Rightarrow> int \<Rightarrow> int \<Rightarrow> int \<Rightarrow> int \<Rightarrow> int \<Rightarrow> int \<Rightarrow> str" where
  "usb_alias vendor product dc dsc dp ic isc ip =
     ''usb:v'' @ star (usb_part 4 0xFFFF vendor) @ ''p'' @ star (usb_part 4 0xFFFF product) @ ''d*''
     @ ''dc'' @ star (usb_part 2 0xFF dc) @ ''dsc'' @ star (usb_part 2 0xFF dsc)
     @ ''dp'' @ star (usb_part 2 0xFF dp) @ ''ic'' @ star (usb_part 2 0xFF ic)
     @ ''isc'' @ star (usb_part 2 0xFF isc) @ ''ip'' @ star (usb_part 2 0xFF ip) @ ''in*''"

subsection \<open>The extractors\<close>

definition extract_pci_entries :: "str \<Rightarrow> str \<Rightarrow> str \<Rightarrow> driver_entry list" where
  "extract_pci_entries content md src =
     map (\<lambda>m. entry_of (pci_alias (hex_val (group 1 m)) (hex_val (group 2 m)) PCI_ANY_ID PCI_ANY_ID 0 0) md src)
       (finditer PCI_DEVICE_RE content)
     @ map (\<lambda>m. entry_of (pci_alias (dget_default VENDOR_NAMES (upper (group 1 m)) PCI_ANY_ID)
           (hex_val (group 2 m)) PCI_ANY_ID PCI_ANY_ID 0 0) md src)
       (finditer PCI_VDEVICE_RE content)
     @ map (\<lambda>m. entry_of (pci_alias PCI_ANY_ID PCI_ANY_ID PCI_ANY_ID PCI_ANY_ID
           (hex_val (group 1 m)) (hex_val (group 2 m))) md src)
       (finditer PCI_DEVICE_CLASS_RE content)"

definition extract_usb_entries :: "str \<Rightarrow> str \<Rightarrow> str \<Rightarrow> driver_entry list" where
  "extract_usb_entries content md src =
     map (\<lambda>m. entry_of (usb_alias (hex_val (group 1 m)) (hex_val (group 2 m)) 0xFF 0xFF 0xFF 0xFF 0xFF 0xFF) md src)
       (finditer USB_DEVICE_RE content)
     @ map (\<lambda>m. entry_of (usb_alias 0xFFFF 0xFFFF 0xFF 0xFF 0xFF
           (hex_val (group 1 m)) (hex_val (group 2 m)) (hex_val (group 3 m))) md src)
       (finditer USB_IFACE_RE content)
     @ map (\<lambda>m. entry_of (usb_alias (hex_val (group 1 m)) (hex_val (group 2 m)) 0xFF 0xFF 0xFF
           (hex_val (group 3 m)) (hex_val (group 4 m)) (hex_val (group 5 m))) md src)
       (finditer USB_DEV_IFACE_RE content)"

definition extract_acpi_entries :: "str \<Rightarrow> str \<Rightarrow> str \<Rightarrow> driver_entry list" where
  "extract_acpi_entries content md src =
     map (\<lambda>m. entry_of (''acpi:'' @ group 1 m @ '':'') md src)
       (filter (\<lambda>m. group 1 m \<noteq> []) (finditer STRING_ENTRY_RE content))"

definition extract_platform_entries :: "str \<Rightarrow> str \<Rightarrow> str \<Rightarrow> driver_entry list" where
  "extract_platform_entries content md src =
     map (\<lambda>m. entry_of (''platform:'' @ group 1 m) md src)
       (filter (\<lambda>m. group 1 m \<noteq> []) (finditer STRING_ENTRY_RE content))"

definition extract_of_entries :: "str \<Rightarrow> str \<Rightarrow> str \<Rightarrow> driver_entry list" where
  "extract_of_entries content md src =
     map (\<lambda>m. entry_of (''of:'' @ group 1 m) md src) (finditer OF_COMPAT_RE content)"

definition BUS_EXTRACTORS :: "(str, str \<Rightarrow> str \<Rightarrow> str \<Rightarrow> driver_entry list) dict" where
  "BUS_EXTRACTORS =
     [(''pci'', extract_pci_entries), (''usb'', extract_usb_entries), (''acpi'', extract_acpi_entries),
      (''platform'', extract_platform_entries), (''of'', extract_of_entries),
      (''i2c'', extract_platform_entries), (''spi'', extract_platform_entries)]"

subsection \<open>Scanning a source tree\<close>

text \<open>
  A kernel source tree as the scanner sees it: a file with its text (nothing when it cannot be
  read), a directory with its entries in listing order and whether it may be listed. Symbolic
  links are left out.
\<close>

datatype ktree = KFile "str option" | KDir bool "(str \<times> ktree) list"

fun ktree_text :: "ktree \<Rightarrow> str option" where
  "ktree_text (KFile t) = t"
| "ktree_text (KDir _ _) = None"

definition scan_c_text :: "str list \<Rightarrow> str \<Rightarrow> driver_entry list" where
  "scan_c_text rel content =
     (if \<not> contains ''MODULE_DEVICE_TABLE'' content then []
      else concat (map (\<lambda>m. case dget BUS_EXTRACTORS (lower (group 1 m)) of
          None \<Rightarrow> []
        | Some f \<Rightarrow> f content (module_from_path rel) (join ''/'' rel))
        (finditer MOD_TABLE_RE content)))"

definition scan_c_file :: "str list \<Rightarrow> ktree \<Rightarrow> driver_entry list" where
  "scan_c_file rel t = (case ktree_text t of None \<Rightarrow> [] | Some content \<Rightarrow> scan_c_text rel content)"

text \<open>\<^verbatim>\<open>rglob("*.c")\<close>: the matching entries of a directory, then those of its subdirectories.\<close>

fun rglob_c :: "str list \<Rightarrow> ktree \<Rightarrow> (str list \<times> ktree) list" where
  "rglob_c rel (KFile _) = []"
| "rglob_c rel (KDir listable es) =
     (if \<not> listable then []
      else map (\<lambda>(n, t). (rel @ [n], t)) (filter (\<lambda>(n, t). ends_with ''.c'' n) es)
        @ concat (map (\<lambda>(n, t). rglob_c (rel @ [n]) t) es))"

fun ktree_at :: "ktree \<Rightarrow> str list \<Rightarrow> ktree option" where
  "ktree_at t [] = Some t"
| "ktree_at (KFile _) (n # ns) = None"
| "ktree_at (KDir _ es) (n # ns) = (case map_of es n of None \<Rightarrow> None | Some t \<Rightarrow> ktree_at t ns)"

definition scan_tree :: "ktree \<Rightarrow> source_index" where
  "scan_tree src =
     concat (map (\<lambda>dir. case ktree_at src [dir] of
         None \<Rightarrow> []
       | Some d \<Rightarrow> concat (map (\<lambda>(rel, t). scan_c_file rel t) (rglob_c [dir] d))) SCAN_DIRS)"

text \<open>
  \<^verbatim>\<open>build_source_index\<close>: a cache file wins over the tree; a new index is written to the
  cache. Progress messages are left out.
\<close>

definition build_source_index :: "env \<Rightarrow> ktree \<Rightarrow> path option \<Rightarrow> (world, source_index) act" where
  "build_source_index e src cache =
     (case cache of
        None \<Rightarrow> ret (scan_tree src)
      | Some p \<Rightarrow> bindM (getM (\<lambda>w. exists_at w p)) (\<lambda>cached.
          if cached
          then bindM (read_text p) (\<lambda>t. case index_from_json t of
              None \<Rightarrow> raise (ValueErr ''cache'') | Some idx \<Rightarrow> ret idx)
          else thenM (thenM (mkdir_parents e (path_parent p)) (write_text e p (index_to_json (scan_tree src))))
             (ret (scan_tree src))))"

subsection \<open>The cache of the index\<close>

lemma json_entry_json: "json_entry (entry_json x) = Some x"
  by (simp add: entry_json_def entry_of_def)

interpretation index_dict: codec index_json json_index "\<lambda>_. True"
proof
  show "json_index (index_json xs) = Some xs" for xs
    by (induction xs) (simp_all add: index_json_def json_index_def json_entry_json)
qed

lemma json_ok_index: "json_ok (index_json xs)"
  by (auto simp: index_json_def entry_json_def)

interpretation index_file: codec_chain index_json json_index "\<lambda>_. True" dumps loads json_ok
  by unfold_locales (rule json_ok_index)

lemma index_from_to_json: "index_from_json (index_to_json xs) = Some xs"
  using index_file.chain.dec_enc [of xs] by (simp add: index_from_json_def index_to_json_def)

end
