(* ===== verification/Pci.thy ===== *)
theory Pci
  imports World Fnmatch "HOL-Library.Word"
begin

unbundle bit_operations_syntax

text \<open>
  \<^verbatim>\<open>kconfig_builder/hardware/pci.py\<close>: enumeration of the PCI functions through the
  CF8/CFC configuration ports, and the device alias. Configuration space is a parameter: what a
  four-byte read of the data port gives (or the \<^verbatim>\<open>OSError\<close> it raises) after the address
  port has been written.
\<close>

record pci_device =
  pci_slot :: str
  pci_vendor :: int
  pci_devid :: int
  pci_subvendor :: int
  pci_subdevice :: int
  pci_cls :: int
  pci_header_type :: int

definition pci_base_class :: "pci_device \<Rightarrow> int" where
  "pci_base_class d = drop_bit 16 (pci_cls d) AND 0xFF"

definition pci_sub_class :: "pci_device \<Rightarrow> int" where
  "pci_sub_class d = drop_bit 8 (pci_cls d) AND 0xFF"

definition pci_prog_if :: "pci_device \<Rightarrow> int" where
  "pci_prog_if d = pci_cls d AND 0xFF"

definition pci_dev_alias :: "pci_device \<Rightarrow> str" where
  "pci_dev_alias d =
     ''pci:v'' @ fmt_X 8 (pci_vendor d) @ ''d'' @ fmt_X 8 (pci_devid d)
     @ ''sv'' @ fmt_X 8 (pci_subvendor d) @ ''sd'' @ fmt_X 8 (pci_subdevice d)
     @ ''bc'' @ fmt_X 2 (pci_base_class d) @ ''sc'' @ fmt_X 2 (pci_sub_class d)
     @ ''i'' @ fmt_X 2 (pci_prog_if d)"

subsection \<open>Configuration reads\<close>

type_synonym config_port = "32 word \<Rightarrow> exn + 32 word"

definition config_address :: "nat \<Rightarrow> nat \<Rightarrow> nat \<Rightarrow> nat \<Rightarrow> 32 word" where
  "config_address bus dev fn offset =
     0x80000000 OR push_bit 16 (of_nat bus) OR push_bit 11 (of_nat dev) OR push_bit 8 (of_nat fn)
     OR (of_nat offset AND 0xFC)"

definition read32 :: "config_port \<Rightarrow> nat \<Rightarrow> nat \<Rightarrow> nat \<Rightarrow> nat \<Rightarrow> exn + int" where
  "read32 port bus dev fn offset = map_sum id uint (port (config_address bus dev fn offset))"

text \<open>\<^verbatim>\<open>offset & ~1\<close> and \<^verbatim>\<open>offset & ~3\<close> are written as subtractions of the remainder.\<close>

definition read16 :: "config_port \<Rightarrow> nat \<Rightarrow> nat \<Rightarrow> nat \<Rightarrow> nat \<Rightarrow> exn + int" where
  "read16 port bus dev fn offset =
     map_sum id (\<lambda>dw. drop_bit (8 * (offset AND 2)) dw AND 0xFFFF)
       (read32 port bus dev fn (offset - offset mod 2))"

definition read8 :: "config_port \<Rightarrow> nat \<Rightarrow> nat \<Rightarrow> nat \<Rightarrow> nat \<Rightarrow> exn + int" where
  "read8 port bus dev fn offset =
     map_sum id (\<lambda>dw. drop_bit (8 * (offset AND 3)) dw AND 0xFF)
       (read32 port bus dev fn (offset - offset mod 4))"

definition bindR :: "exn + 'a \<Rightarrow> ('a \<Rightarrow> exn + 'b) \<Rightarrow> exn + 'b" where
  "bindR r f = (case r of Inl x \<Rightarrow> Inl x | Inr v \<Rightarrow> f v)"

subsection \<open>The scan\<close>

definition slot_name :: "nat \<Rightarrow> nat \<Rightarrow> nat \<Rightarrow> str" where
  "slot_name bus dev fn =
     ''0000:'' @ fmt_x 2 (int bus) @ '':'' @ fmt_x 2 (int dev) @ ''.'' @ fmt_x 1 (int fn)"

text \<open>What is read of a function whose vendor is known; subsystem identifiers exist for header type 0 only.\<close>

definition probe :: "config_port \<Rightarrow> nat \<Rightarrow> nat \<Rightarrow> nat \<Rightarrow> int \<Rightarrow> exn + pci_device" where
  "probe port bus dev fn vid =
     bindR (read16 port bus dev fn 0x02) (\<lambda>did.
     bindR (read32 port bus dev fn 0x08) (\<lambda>cls_raw.
     bindR (read8 port bus dev fn 0x0E) (\<lambda>hdr.
     bindR (if hdr AND 0x7F = 0
            then bindR (read16 port bus dev fn 0x2C) (\<lambda>sv.
                 bindR (read16 port bus dev fn 0x2E) (\<lambda>sd. Inr (sv, sd)))
            else Inr (0xFFFF, 0xFFFF)) (\<lambda>(svid, sdid).
     Inr \<lparr>pci_slot = slot_name bus dev fn, pci_vendor = vid, pci_devid = did,
       pci_subvendor = svid, pci_subdevice = sdid,
       pci_cls = drop_bit 8 cls_raw AND 0xFFFFFF, pci_header_type = hdr\<rparr>))))"

text \<open>The function loop of one device: it ends at an absent function 0 and after a single-function device.\<close>

fun scan_fns :: "config_port \<Rightarrow> nat \<Rightarrow> nat \<Rightarrow> nat list \<Rightarrow> exn + pci_device list" where
  "scan_fns port bus dev [] = Inr []"
| "scan_fns port bus dev (fn # fns) =
     (case read16 port bus dev fn 0x00 of
        Inl x \<Rightarrow> if is_oserror x then scan_fns port bus dev fns else Inl x
      | Inr vid \<Rightarrow>
          if vid = 0xFFFF then (if fn = 0 then Inr [] else scan_fns port bus dev fns)
          else bindR (probe port bus dev fn vid) (\<lambda>d.
            if fn = 0 \<and> pci_header_type d AND 0x80 = 0 then Inr [d]
            else bindR (scan_fns port bus dev fns) (\<lambda>ds. Inr (d # ds))))"

fun scan_devs :: "config_port \<Rightarrow> nat \<Rightarrow> nat list \<Rightarrow> exn + pci_device list" where
  "scan_devs port bus [] = Inr []"
| "scan_devs port bus (dev # devs) =
     bindR (scan_fns port bus dev [0..<8]) (\<lambda>a. bindR (scan_devs port bus devs) (\<lambda>b. Inr (a @ b)))"

fun scan_buses :: "config_port \<Rightarrow> nat list \<Rightarrow> exn + pci_device list" where
  "scan_buses port [] = Inr []"
| "scan_buses port (bus # buses) =
     bindR (scan_devs port bus [0..<32]) (\<lambda>a. bindR (scan_buses port buses) (\<lambda>b. Inr (a @ b)))"

text \<open>\<^verbatim>\<open>scan_pci\<close>: no port, no devices and a message.\<close>

definition scan_pci :: "config_port option \<Rightarrow> exn + (pci_device list \<times> str option)" where
  "scan_pci port =
     (case port of
        None \<Rightarrow> Inr ([], Some ''Cannot open /dev/port - run as root for PCI detection'')
      | Some p \<Rightarrow> bindR (scan_buses p [0..<256]) (\<lambda>ds. Inr (ds, None)))"

subsection \<open>The address word\<close>

lemma nat_bit_less: "(b::nat) < 2 ^ k \<Longrightarrow> bit b n \<Longrightarrow> n < k"
  by (metis bit_take_bit_iff take_bit_nat_eq_self)

lemma bit_enable: "bit (0x80000000 :: int) n \<longleftrightarrow> n = 31"
proof -
  have "bit ((2 :: int) ^ 31) n \<longleftrightarrow> n = 31" by (subst bit_exp_iff) auto
  then show ?thesis by simp
qed

lemma bit_register: "bit (0xFC :: int) n \<longleftrightarrow> 2 \<le> n \<and> n < 8"
proof -
  have "bit (push_bit 2 (mask 6 :: int)) n \<longleftrightarrow> 2 \<le> n \<and> n < 8"
    by (subst bit_push_bit_iff) (auto simp: bit_mask_iff)
  then show ?thesis by (simp add: mask_numeral)
qed

lemma config_address_bits:
  assumes "bus < 256" and "dev < 32" and "fn < 8"
  shows "bit (config_address bus dev fn off) n \<longleftrightarrow>
     n < 32 \<and> (n = 31 \<or> (16 \<le> n \<and> bit bus (n - 16)) \<or> (11 \<le> n \<and> n < 16 \<and> bit dev (n - 11))
       \<or> (8 \<le> n \<and> n < 11 \<and> bit fn (n - 8)) \<or> (2 \<le> n \<and> n < 8 \<and> bit off n))"
proof -
  have "bit bus (n - 16) \<longrightarrow> n < 24" "bit dev (n - 11) \<longrightarrow> n < 16" "bit fn (n - 8) \<longrightarrow> n < 11"
    using assms nat_bit_less [of bus 8 "n - 16"] nat_bit_less [of dev 5 "n - 11"]
      nat_bit_less [of fn 3 "n - 8"] by auto
  then show ?thesis
    by (cases "bit bus (n - 16)"; cases "bit dev (n - 11)"; cases "bit fn (n - 8)"; cases "bit off n")
      (auto simp: config_address_def bit_simps bit_enable bit_register)
qed

lemma config_address_fields:
  assumes "bus < 256" and "dev < 32" and "fn < 8"
  shows "take_bit 8 (drop_bit 16 (config_address bus dev fn off)) = of_nat bus"
    and "take_bit 5 (drop_bit 11 (config_address bus dev fn off)) = of_nat dev"
    and "take_bit 3 (drop_bit 8 (config_address bus dev fn off)) = of_nat fn"
    and "take_bit 6 (drop_bit 2 (config_address bus dev fn off)) = take_bit 6 (drop_bit 2 (of_nat off))"
proof -
  have b: "\<And>n. bit bus n \<Longrightarrow> n < 8" "\<And>n. bit dev n \<Longrightarrow> n < 5" "\<And>n. bit fn n \<Longrightarrow> n < 3"
    using assms nat_bit_less [of bus 8] nat_bit_less [of dev 5] nat_bit_less [of fn 3] by auto
  note simps = bit_simps config_address_bits [OF assms]
  show "take_bit 8 (drop_bit 16 (config_address bus dev fn off)) = of_nat bus"
    by (rule bit_word_eqI) (use b in \<open>fastforce simp: simps\<close>)
  show "take_bit 5 (drop_bit 11 (config_address bus dev fn off)) = of_nat dev"
    by (rule bit_word_eqI) (use b in \<open>fastforce simp: simps\<close>)
  show "take_bit 3 (drop_bit 8 (config_address bus dev fn off)) = of_nat fn"
    by (rule bit_word_eqI) (use b in \<open>fastforce simp: simps\<close>)
  show "take_bit 6 (drop_bit 2 (config_address bus dev fn off)) = take_bit 6 (drop_bit 2 (of_nat off))"
    by (rule bit_word_eqI) (use b in \<open>fastforce simp: simps\<close>)
qed

subsection \<open>The alias as tagged fields\<close>

definition pci_fields :: "pci_device \<Rightarrow> fields" where
  "pci_fields d =
     [(''pci:v'', fmt_X 8 (pci_vendor d)), (''d'', fmt_X 8 (pci_devid d)),
      (''sv'', fmt_X 8 (pci_subvendor d)), (''sd'', fmt_X 8 (pci_subdevice d)),
      (''bc'', fmt_X 2 (pci_base_class d)), (''sc'', fmt_X 2 (pci_sub_class d)),
      (''i'', fmt_X 2 (pci_prog_if d))]"

lemma pci_dev_alias_fields: "pci_dev_alias d = render (pci_fields d)"
  by (simp add: pci_dev_alias_def pci_fields_def)

subsection \<open>What the scan finds\<close>

text \<open>Configuration space that never fails to read, and what is at a slot of it.\<close>

definition total_port :: "config_port \<Rightarrow> bool" where
  "total_port port \<longleftrightarrow> (\<forall>a. \<exists>v. port a = Inr v)"

definition value_of :: "exn + 'a \<Rightarrow> 'a" where
  "value_of r = (case r of Inr v \<Rightarrow> v | Inl _ \<Rightarrow> undefined)"

definition vendor_at :: "config_port \<Rightarrow> nat \<Rightarrow> nat \<Rightarrow> nat \<Rightarrow> int" where
  "vendor_at port b d f = value_of (read16 port b d f 0x00)"

definition device_at :: "config_port \<Rightarrow> nat \<Rightarrow> nat \<Rightarrow> nat \<Rightarrow> pci_device" where
  "device_at port b d f = value_of (probe port b d f (vendor_at port b d f))"

definition functions_of :: "config_port \<Rightarrow> nat \<Rightarrow> nat \<Rightarrow> nat list" where
  "functions_of port b d =
     (if vendor_at port b d 0 = 0xFFFF then []
      else if value_of (read8 port b d 0 0x0E) AND 0x80 = 0 then [0]
      else filter (\<lambda>f. vendor_at port b d f \<noteq> 0xFFFF) [0..<8])"

lemma bindR_Inr [simp]: "bindR (Inr v) f = f v"
  by (simp add: bindR_def)

lemma read_total:
  assumes "total_port port"
  shows "read32 port b d f off = Inr (value_of (read32 port b d f off))"
    and "read16 port b d f off = Inr (value_of (read16 port b d f off))"
    and "read8 port b d f off = Inr (value_of (read8 port b d f off))"
proof -
  obtain g where "\<And>a. port a = Inr (g a)" using assms unfolding total_port_def by metis
  then show "read32 port b d f off = Inr (value_of (read32 port b d f off))"
    "read16 port b d f off = Inr (value_of (read16 port b d f off))"
    "read8 port b d f off = Inr (value_of (read8 port b d f off))"
    by (simp_all add: read32_def read16_def read8_def value_of_def)
qed

lemma probe_total:
  assumes "total_port port"
  shows "\<exists>dv. probe port b d f vid = Inr dv \<and> pci_header_type dv = value_of (read8 port b d f 0x0E)
     \<and> pci_slot dv = slot_name b d f"
proof -
  obtain g where "\<And>a. port a = Inr (g a)" using assms unfolding total_port_def by metis
  then show ?thesis
    by (simp add: probe_def read32_def read16_def read8_def value_of_def)
qed

lemma scan_fns_tail:
  assumes "total_port port" and "0 \<notin> set fns"
  shows "scan_fns port b d fns = Inr (map (device_at port b d) (filter (\<lambda>f. vendor_at port b d f \<noteq> 0xFFFF) fns))"
  using assms(2)
proof (induction fns)
  case (Cons f fns)
  obtain dv where "probe port b d f (vendor_at port b d f) = Inr dv"
    using probe_total [OF assms(1)] by blast
  moreover have "read16 port b d f 0 = Inr (vendor_at port b d f)"
    using read_total(2) [OF assms(1), of b d f 0] by (simp add: vendor_at_def)
  ultimately show ?case using Cons by (auto simp: device_at_def value_of_def)
qed simp

lemma scan_fns_all:
  assumes "total_port port"
  shows "scan_fns port b d [0..<8] = Inr (map (device_at port b d) (functions_of port b d))"
proof -
  obtain dv where dv: "probe port b d 0 (vendor_at port b d 0) = Inr dv"
    "pci_header_type dv = value_of (read8 port b d 0 0x0E)"
    using probe_total [OF assms] by blast
  have v: "read16 port b d 0 0 = Inr (vendor_at port b d 0)"
    using read_total(2) [OF assms, of b d 0 0] by (simp add: vendor_at_def)
  have l: "[0..<8] = 0 # [1..<8::nat]" by (simp add: upt_conv_Cons)
  have t: "scan_fns port b d [1..<8]
      = Inr (map (device_at port b d) (filter (\<lambda>f. vendor_at port b d f \<noteq> 0xFFFF) [1..<8]))"
    by (rule scan_fns_tail [OF assms]) simp
  show ?thesis unfolding l functions_of_def
    using dv t by (simp add: v device_at_def value_of_def)
qed

definition scan_spec :: "config_port \<Rightarrow> nat list \<Rightarrow> nat list \<Rightarrow> pci_device list" where
  "scan_spec port bs ds =
     concat (map (\<lambda>b. concat (map (\<lambda>d. map (device_at port b d) (functions_of port b d)) ds)) bs)"

lemma scan_buses_total:
  assumes "total_port port"
  shows "scan_buses port bs = Inr (scan_spec port bs [0..<32])"
proof -
  have "scan_devs port b ds = Inr (scan_spec port [b] ds)" for b ds
    by (induction ds) (simp_all add: scan_spec_def scan_fns_all [OF assms] del: scan_fns.simps upt_rec_numeral)
  then show ?thesis
    by (induction bs) (simp_all add: scan_spec_def del: upt_rec_numeral)
qed

subsection \<open>Properties\<close>

text \<open>C40. The address word of a configuration access: bit 31 is set, the bus, device, function and register fields read back, and the two low bits are clear, for every slot the scan visits.\<close>

theorem config_address_decodes:
  assumes "bus < 256" and "dev < 32" and "fn < 8"
  shows "take_bit 8 (drop_bit 16 (config_address bus dev fn off)) = of_nat bus
     \<and> take_bit 5 (drop_bit 11 (config_address bus dev fn off)) = of_nat dev
     \<and> take_bit 3 (drop_bit 8 (config_address bus dev fn off)) = of_nat fn
     \<and> take_bit 6 (drop_bit 2 (config_address bus dev fn off)) = take_bit 6 (drop_bit 2 (of_nat off))
     \<and> bit (config_address bus dev fn off) 31
     \<and> \<not> bit (config_address bus dev fn off) 0 \<and> \<not> bit (config_address bus dev fn off) 1"
  using config_address_fields [OF assms] config_address_bits [OF assms] by simp

theorem config_address_decodes_witness:
  "take_bit 8 (drop_bit 16 (config_address 3 31 7 0x2E)) = of_nat 3
     \<and> take_bit 5 (drop_bit 11 (config_address 3 31 7 0x2E)) = of_nat 31
     \<and> take_bit 3 (drop_bit 8 (config_address 3 31 7 0x2E)) = of_nat 7
     \<and> take_bit 6 (drop_bit 2 (config_address 3 31 7 0x2E)) = take_bit 6 (drop_bit 2 (of_nat 0x2E))
     \<and> bit (config_address 3 31 7 0x2E) 31
     \<and> \<not> bit (config_address 3 31 7 0x2E) 0 \<and> \<not> bit (config_address 3 31 7 0x2E) 1"
  by (rule config_address_decodes) simp_all

text \<open>
  C14. On a configuration space that answers every read, the scan returns exactly the functions
  present, bus by bus and device by device: none of a device whose function 0 is absent, only
  function 0 of a single-function device, and otherwise each function whose vendor is not all ones.
\<close>

theorem scan_pci_complete:
  assumes "total_port port"
  shows "scan_pci (Some port) = Inr (scan_spec port [0..<256] [0..<32], None)"
  using scan_buses_total [OF assms] by (simp add: scan_pci_def del: upt_rec_numeral)

definition one_card :: config_port where
  "one_card a = Inr (if a = config_address 0 2 0 0 then 0x15338086 else if a = config_address 0 2 0 8 then 0x02000003 else 0xFFFFFFFF)"

theorem scan_pci_complete_witness:
  "scan_pci (Some one_card) = Inr (scan_spec one_card [0..<256] [0..<32], None)"
  by (rule scan_pci_complete) (simp add: total_port_def one_card_def)

end
