(* ===== verification/Matching.thy ===== *)
theory Matching
  imports Matchers Pci Usb
begin

text \<open>
  Driver patterns against device aliases: what a pattern built by \<open>pci_alias\<close> or
  \<open>usb_alias\<close> matches, what a table of macros extracts to, and the cache of the index.
  The two device types provide one interface, \<open>alias_bus\<close>, and the facts on matching are
  proved once in it.
\<close>

subsection \<open>Values of alias fields\<close>

lemma fmt_X_plain: "plain (fmt_X w i)"
proof -
  have d: "c \<in> set (digits 16 hexdig_up n) \<Longrightarrow> is_hexdig c" for c n
    using digits_all [of 16 is_hexdig hexdig_up n] by (auto simp: is_hexdig_up)
  have n: "\<not> is_hexdig CHR ''*''" "\<not> is_hexdig CHR ''?''" "\<not> is_hexdig CHR ''[''" by code_simp+
  have "plain (digits 16 hexdig_up m)" for m
    using d n unfolding plain_def by auto
  moreover have "plain (replicate k CHR ''0'')" for k
    by (auto simp: plain_def)
  ultimately show ?thesis by (auto simp: fmt_hex_def zpad_def)
qed

lemma fmt_X_lowers: "lowers (fmt_X w i) = 0"
  using fmt_X_chars by (auto simp: lowers_zero_iff)

lemma value_ok_fmt_X: "value_ok (fmt_X w i)"
  by (simp add: value_ok_def fmt_X_plain fmt_X_lowers)

definition part_ok :: "str option \<Rightarrow> bool" where
  "part_ok x \<longleftrightarrow> (case x of None \<Rightarrow> True | Some v \<Rightarrow> value_ok v)"

lemma part_ok_parts: "part_ok None" "part_ok (pci_id i)" "part_ok (usb_part w a i)" "part_ok (class_part c m k b)"
  by (simp_all add: part_ok_def pci_id_def usb_part_def class_part_def value_ok_fmt_X)

lemma pattern_star: "pattern ((t, x) # ps) = t @ star x @ pattern ps"
  by (cases x) (simp_all add: star_def)

subsection \<open>The interface of a bus\<close>

text \<open>A device alias is a fixed sequence of tags with a value after each, and no value has a lower-case letter.\<close>

locale alias_bus =
  fixes tags :: "str list" and fields :: "'d \<Rightarrow> fields" and dev_alias :: "'d \<Rightarrow> str"
  assumes alias_fields: "dev_alias d = render (fields d)"
    and field_tags: "map fst (fields d) = tags"
    and tags_ok: "t \<in> set tags \<Longrightarrow> tag_ok t"
    and values_ok: "f \<in> set (fields d) \<Longrightarrow> lowers (snd f) = 0"
begin

lemma matches:
  assumes "map fst ps = tags" and "\<forall>p \<in> set ps. part_ok (snd p)"
  shows "fnmatch (dev_alias d) (pattern ps) \<longleftrightarrow> list_all2 field_agrees ps (fields d)"
proof -
  have "fields_ok ps (fields d)"
    unfolding fields_ok_def
    using assms field_tags [of d] tags_ok values_ok [of _ d] by (auto simp: part_ok_def)
  then show ?thesis by (simp add: alias_fields fnmatch_fields)
qed

text \<open>A pattern with a star in every place matches every device.\<close>

lemma matches_any: "fnmatch (dev_alias d) (pattern (map (\<lambda>t. (t, None)) tags))"
proof -
  have "list_all2 field_agrees (map (\<lambda>t. (t, None)) (map fst fs)) fs" for fs
    by (induction fs) (simp_all add: field_agrees_def)
  from this [of "fields d"] have "list_all2 field_agrees (map (\<lambda>t. (t, None)) tags) (fields d)"
    by (simp only: field_tags)
  then show ?thesis
    using matches [of "map (\<lambda>t. (t, None)) tags" d] by (simp add: comp_def part_ok_def)
qed

text \<open>Two devices that agree on the values a pattern fixes match it alike.\<close>

lemma matches_cong:
  assumes "map fst ps = tags" and "\<forall>p \<in> set ps. part_ok (snd p)"
    and "\<And>i. i < length ps \<Longrightarrow> snd (ps ! i) \<noteq> None \<Longrightarrow> snd (fields d ! i) = snd (fields d' ! i)"
  shows "fnmatch (dev_alias d) (pattern ps) \<longleftrightarrow> fnmatch (dev_alias d') (pattern ps)"
proof -
  have "length (fields d) = length ps" "length (fields d') = length ps"
    using field_tags [of d] field_tags [of d'] assms(1) by (metis length_map)+
  then show ?thesis
    using assms(3) by (auto simp: matches [OF assms(1,2)] list_all2_conv_all_nth field_agrees_def
        split: option.splits)
qed

end

definition pci_tags :: "str list" where
  "pci_tags = [''pci:v'', ''d'', ''sv'', ''sd'', ''bc'', ''sc'', ''i'']"

definition usb_tags :: "str list" where
  "usb_tags = [''usb:v'', ''p'', ''d'', ''dc'', ''dsc'', ''dp'', ''ic'', ''isc'', ''ip'', ''in'']"

lemma tags_ok_all: "\<forall>t \<in> set pci_tags. tag_ok t" "\<forall>t \<in> set usb_tags. tag_ok t"
  by code_simp+

interpretation pci_bus: alias_bus pci_tags pci_fields pci_dev_alias
  using tags_ok_all
  by unfold_locales (auto simp: pci_dev_alias_fields pci_fields_def pci_tags_def fmt_X_lowers)

lemma star_not_lower: "\<not> is_lower CHR ''*''"
  by code_simp

interpretation usb_bus: alias_bus usb_tags usb_fields usb_dev_alias
  using tags_ok_all
  by unfold_locales
    (auto simp: usb_dev_alias_fields usb_fields_def usb_tags_def fmt_X_lowers star_not_lower)

subsection \<open>What the built patterns match\<close>

definition pci_parts :: "int \<Rightarrow> int \<Rightarrow> int \<Rightarrow> int \<Rightarrow> int \<Rightarrow> int \<Rightarrow> (str \<times> str option) list" where
  "pci_parts v d sv sd cls m =
     [(''pci:v'', pci_id v), (''d'', pci_id d), (''sv'', pci_id sv), (''sd'', pci_id sd),
      (''bc'', class_part cls m 16 0xFF0000), (''sc'', class_part cls m 8 0x00FF00),
      (''i'', class_part cls m 0 0x0000FF)]"

lemma pci_alias_pattern: "pci_alias v d sv sd cls m = pattern (pci_parts v d sv sd cls m)"
  by (simp only: pci_alias_def pci_parts_def pattern_star pattern.simps append_Nil2)

definition usb_parts :: "int \<Rightarrow> int \<Rightarrow> int \<Rightarrow> int \<Rightarrow> int \<Rightarrow> int \<Rightarrow> int \<Rightarrow> int \<Rightarrow> (str \<times> str option) list" where
  "usb_parts v p dc dsc dp ic isc ip =
     [(''usb:v'', usb_part 4 0xFFFF v), (''p'', usb_part 4 0xFFFF p), (''d'', None),
      (''dc'', usb_part 2 0xFF dc), (''dsc'', usb_part 2 0xFF dsc), (''dp'', usb_part 2 0xFF dp),
      (''ic'', usb_part 2 0xFF ic), (''isc'', usb_part 2 0xFF isc), (''ip'', usb_part 2 0xFF ip),
      (''in'', None)]"

lemma usb_alias_pattern: "usb_alias v p dc dsc dp ic isc ip = pattern (usb_parts v p dc dsc dp ic isc ip)"
  by (simp add: usb_alias_def usb_parts_def pattern_star star_def)

definition id_agrees :: "int \<Rightarrow> int \<Rightarrow> int \<Rightarrow> bool" where
  "id_agrees any want have \<longleftrightarrow> want = any \<or> want = have"

text \<open>A class byte is compared when class and mask are set and the mask covers some of the byte.\<close>

definition class_agrees :: "int \<Rightarrow> int \<Rightarrow> int \<Rightarrow> bool" where
  "class_agrees cls m dev_cls \<longleftrightarrow> cls = 0 \<or> m = 0
     \<or> ((m AND 0xFF0000 = 0 \<or> drop_bit 16 cls AND 0xFF = drop_bit 16 dev_cls AND 0xFF)
        \<and> (m AND 0x00FF00 = 0 \<or> drop_bit 8 cls AND 0xFF = drop_bit 8 dev_cls AND 0xFF)
        \<and> (m AND 0x0000FF = 0 \<or> cls AND 0xFF = dev_cls AND 0xFF))"

definition pci_ids_ok :: "pci_device \<Rightarrow> bool" where
  "pci_ids_ok d \<longleftrightarrow> 0 \<le> pci_vendor d \<and> 0 \<le> pci_devid d \<and> 0 \<le> pci_subvendor d \<and> 0 \<le> pci_subdevice d"

lemma pci_id_agrees: "0 \<le> i \<Longrightarrow> 0 \<le> j \<Longrightarrow> field_agrees (t, pci_id i) (t, fmt_X 8 j) \<longleftrightarrow> id_agrees PCI_ANY_ID i j"
  by (auto simp: field_agrees_def pci_id_def id_agrees_def fmt_X_inj)

lemma usb_part_agrees: "0 \<le> i \<Longrightarrow> 0 \<le> j \<Longrightarrow> field_agrees (t, usb_part w a i) (t, fmt_X w j) \<longleftrightarrow> id_agrees a i j"
  by (auto simp: field_agrees_def usb_part_def id_agrees_def fmt_X_inj)

lemma class_part_agrees_low:
  "field_agrees (t, class_part c m 0 b) (t, fmt_X 2 (x AND 0xFF))
     \<longleftrightarrow> c = 0 \<or> m = 0 \<or> m AND b = 0 \<or> c AND 0xFF = x AND 0xFF"
  by (auto simp: field_agrees_def class_part_def fmt_X_inj)

lemma class_part_agrees:
  "field_agrees (t, class_part c m k b) (t, fmt_X 2 (drop_bit k x AND 0xFF))
     \<longleftrightarrow> c = 0 \<or> m = 0 \<or> m AND b = 0 \<or> drop_bit k c AND 0xFF = drop_bit k x AND 0xFF"
  by (auto simp: field_agrees_def class_part_def fmt_X_inj)

lemma pci_pattern_matches:
  assumes "pci_ids_ok dv" and "0 \<le> v" "0 \<le> d" "0 \<le> sv" "0 \<le> sd"
  shows "fnmatch (pci_dev_alias dv) (pci_alias v d sv sd cls m) \<longleftrightarrow>
     id_agrees PCI_ANY_ID v (pci_vendor dv) \<and> id_agrees PCI_ANY_ID d (pci_devid dv)
     \<and> id_agrees PCI_ANY_ID sv (pci_subvendor dv) \<and> id_agrees PCI_ANY_ID sd (pci_subdevice dv)
     \<and> class_agrees cls m (pci_cls dv)"
proof -
  have "fnmatch (pci_dev_alias dv) (pci_alias v d sv sd cls m)
      \<longleftrightarrow> list_all2 field_agrees (pci_parts v d sv sd cls m) (pci_fields dv)"
    unfolding pci_alias_pattern
    by (rule pci_bus.matches) (auto simp: pci_parts_def pci_tags_def part_ok_parts)
  then show ?thesis
    using assms
    by (simp add: pci_parts_def pci_fields_def pci_id_agrees pci_base_class_def pci_sub_class_def
        pci_prog_if_def class_part_agrees class_part_agrees_low class_agrees_def pci_ids_ok_def) blast
qed

definition usb_ids_ok :: "usb_device \<Rightarrow> bool" where
  "usb_ids_ok d \<longleftrightarrow> 0 \<le> usb_vendor d \<and> 0 \<le> usb_product d
     \<and> 0 \<le> usb_dev_class d \<and> 0 \<le> usb_dev_subclass d \<and> 0 \<le> usb_dev_protocol d
     \<and> 0 \<le> usb_iface_class d \<and> 0 \<le> usb_iface_subclass d \<and> 0 \<le> usb_iface_protocol d"

lemma usb_pattern_matches:
  assumes "usb_ids_ok dv" and "0 \<le> v" "0 \<le> p" "0 \<le> dc" "0 \<le> dsc" "0 \<le> dp" "0 \<le> ic" "0 \<le> isc" "0 \<le> ip"
  shows "fnmatch (usb_dev_alias dv) (usb_alias v p dc dsc dp ic isc ip) \<longleftrightarrow>
     id_agrees 0xFFFF v (usb_vendor dv) \<and> id_agrees 0xFFFF p (usb_product dv)
     \<and> id_agrees 0xFF dc (usb_dev_class dv) \<and> id_agrees 0xFF dsc (usb_dev_subclass dv)
     \<and> id_agrees 0xFF dp (usb_dev_protocol dv) \<and> id_agrees 0xFF ic (usb_iface_class dv)
     \<and> id_agrees 0xFF isc (usb_iface_subclass dv) \<and> id_agrees 0xFF ip (usb_iface_protocol dv)"
proof -
  have "fnmatch (usb_dev_alias dv) (usb_alias v p dc dsc dp ic isc ip)
      \<longleftrightarrow> list_all2 field_agrees (usb_parts v p dc dsc dp ic isc ip) (usb_fields dv)"
    unfolding usb_alias_pattern
    by (rule usb_bus.matches) (auto simp: usb_parts_def usb_tags_def part_ok_parts)
  moreover have "field_agrees (t, None) f" for t f by (simp add: field_agrees_def)
  ultimately show ?thesis
    using assms by (simp add: usb_parts_def usb_fields_def usb_part_agrees usb_ids_ok_def)
qed

subsection \<open>Properties\<close>

text \<open>
  C22. The alias of a PCI device matches the pattern of a table entry exactly when each of the
  four identifiers is the wildcard or equal, and each class byte the mask covers is equal (a zero
  class or mask compares nothing).
\<close>

theorem pci_alias_matches_iff:
  assumes "pci_ids_ok dv" and "0 \<le> v" "0 \<le> d" "0 \<le> sv" "0 \<le> sd"
  shows "fnmatch (pci_dev_alias dv) (pci_alias v d sv sd cls m) \<longleftrightarrow>
     id_agrees PCI_ANY_ID v (pci_vendor dv) \<and> id_agrees PCI_ANY_ID d (pci_devid dv)
     \<and> id_agrees PCI_ANY_ID sv (pci_subvendor dv) \<and> id_agrees PCI_ANY_ID sd (pci_subdevice dv)
     \<and> class_agrees cls m (pci_cls dv)"
  by (rule pci_pattern_matches [OF assms])

definition sample_nic :: pci_device where
  "sample_nic = \<lparr>pci_slot = ''0000:00:02.0'', pci_vendor = 0x8086, pci_devid = 0x1533, pci_subvendor = 0xFFFF,
     pci_subdevice = 0xFFFF, pci_cls = 0x020000, pci_header_type = 0\<rparr>"

theorem pci_alias_matches_iff_witness:
  "fnmatch (pci_dev_alias sample_nic) (pci_alias 0x8086 0x1533 PCI_ANY_ID PCI_ANY_ID 0 0)"
proof -
  have "fnmatch (pci_dev_alias sample_nic) (pci_alias 0x8086 0x1533 PCI_ANY_ID PCI_ANY_ID 0 0) \<longleftrightarrow>
     id_agrees PCI_ANY_ID 0x8086 (pci_vendor sample_nic) \<and> id_agrees PCI_ANY_ID 0x1533 (pci_devid sample_nic)
     \<and> id_agrees PCI_ANY_ID PCI_ANY_ID (pci_subvendor sample_nic) \<and> id_agrees PCI_ANY_ID PCI_ANY_ID (pci_subdevice sample_nic)
     \<and> class_agrees 0 0 (pci_cls sample_nic)"
    by (rule pci_alias_matches_iff) (simp_all add: pci_ids_ok_def sample_nic_def PCI_ANY_ID_def)
  then show ?thesis by (simp add: id_agrees_def class_agrees_def sample_nic_def)
qed

text \<open>
  C23. The alias of a USB device matches the pattern of a table entry exactly when each
  identifier and class byte is the wildcard or equal. The wildcard of the class bytes is 0xFF,
  which is also the vendor-specific class, so a driver that asks for it matches every class.
\<close>

theorem usb_alias_matches_iff:
  assumes "usb_ids_ok dv" and "0 \<le> v" "0 \<le> p" "0 \<le> dc" "0 \<le> dsc" "0 \<le> dp" "0 \<le> ic" "0 \<le> isc" "0 \<le> ip"
  shows "fnmatch (usb_dev_alias dv) (usb_alias v p dc dsc dp ic isc ip) \<longleftrightarrow>
     id_agrees 0xFFFF v (usb_vendor dv) \<and> id_agrees 0xFFFF p (usb_product dv)
     \<and> id_agrees 0xFF dc (usb_dev_class dv) \<and> id_agrees 0xFF dsc (usb_dev_subclass dv)
     \<and> id_agrees 0xFF dp (usb_dev_protocol dv) \<and> id_agrees 0xFF ic (usb_iface_class dv)
     \<and> id_agrees 0xFF isc (usb_iface_subclass dv) \<and> id_agrees 0xFF ip (usb_iface_protocol dv)"
  by (rule usb_pattern_matches [OF assms])

definition sample_stick :: usb_device where
  "sample_stick = \<lparr>usb_bus = 1, usb_address = 2, usb_vendor = 0x0781, usb_product = 0x5567, usb_bcd_device = 0x0100,
     usb_dev_class = 0, usb_dev_subclass = 0, usb_dev_protocol = 0, usb_iface_class = 8, usb_iface_subclass = 6,
     usb_iface_protocol = 80\<rparr>"

theorem usb_alias_matches_iff_witness:
  "fnmatch (usb_dev_alias sample_stick) (usb_alias 0xFFFF 0xFFFF 0xFF 0xFF 0xFF 0xFF 6 80)"
proof -
  have "fnmatch (usb_dev_alias sample_stick) (usb_alias 0xFFFF 0xFFFF 0xFF 0xFF 0xFF 0xFF 6 80) \<longleftrightarrow>
     id_agrees 0xFFFF 0xFFFF (usb_vendor sample_stick) \<and> id_agrees 0xFFFF 0xFFFF (usb_product sample_stick)
     \<and> id_agrees 0xFF 0xFF (usb_dev_class sample_stick) \<and> id_agrees 0xFF 0xFF (usb_dev_subclass sample_stick)
     \<and> id_agrees 0xFF 0xFF (usb_dev_protocol sample_stick) \<and> id_agrees 0xFF 0xFF (usb_iface_class sample_stick)
     \<and> id_agrees 0xFF 6 (usb_iface_subclass sample_stick) \<and> id_agrees 0xFF 80 (usb_iface_protocol sample_stick)"
    by (rule usb_alias_matches_iff) (simp_all add: usb_ids_ok_def sample_stick_def)
  then show ?thesis by (simp add: id_agrees_def sample_stick_def)
qed

text \<open>The index written to the cache file reads back as the same index, entry for entry.\<close>

theorem index_cache_round_trip: "index_from_json (index_to_json idx) = Some idx"
  by (rule index_from_to_json)

end
