(* ===== verification/Extract.thy ===== *)
theory Extract
  imports Matching
begin

text \<open>
  The extraction finds every macro call of a driver's source text: the entry of each device a
  driver lists is in the index of a tree that contains the file, so the driver is found for
  the device.
\<close>

subsection \<open>Macro calls\<close>

text \<open>A call with hexadecimal arguments, as drivers write it.\<close>

definition hex_lit :: "str \<Rightarrow> bool" where
  "hex_lit s \<longleftrightarrow> starts_with ''0x'' s \<and> 2 < length s \<and> list_all is_hexdig (drop 2 s)"

definition macro_call :: "str \<Rightarrow> str list \<Rightarrow> str" where
  "macro_call name args = name @ ''('' @ join '', '' args @ '')''"

lemma hex_litE:
  assumes "hex_lit s"
  obtains ds where "s = CHR ''0'' # CHR ''x'' # ds" "ds \<noteq> []" "\<forall>c \<in> set ds. is_hexdig c"
proof -
  obtain a b ds where s: "s = a # b # ds"
    using assms by (cases s; cases "tl s") (auto simp: hex_lit_def)
  then show ?thesis using assms that [of ds] by (auto simp: hex_lit_def starts_with_def list_all_iff)
qed

lemma hex_val_lit: "hex_lit s \<Longrightarrow> hex_val s = int (num_val 16 (drop 2 s))"
proof -
  have l: "to_lower CHR ''0'' = CHR ''0''" "to_lower CHR ''x'' = CHR ''x''" by code_simp+
  show "hex_lit s \<Longrightarrow> ?thesis"
    by (elim hex_litE) (simp add: hex_val_def starts_with_def lower_def l)
qed

lemma hex_val_nonneg: "0 \<le> hex_val s"
  by (simp add: hex_val_def)

lemma not_hexdig: "\<not> is_hexdig CHR '',''" "\<not> is_hexdig CHR '')''"
  by code_simp+

lemma not_space: "\<not> is_space CHR '',''" "\<not> is_space CHR '')''" "\<not> is_space CHR ''0''" "\<not> is_space CHR ''(''"
  by code_simp+

lemma is_space_blank: "is_space CHR '' ''"
  by code_simp

subsection \<open>Steps of the matcher\<close>

lemma rmatch_num:
  assumes "hex_lit s" and "rest \<noteq> [] \<and> \<not> is_hexdig (hd rest)"
    and "\<And>p. k (p, rest, (j, s) # g) = Some m"
  shows "rmatch (Grp j num_rx) (p, s @ rest, g) k = Some m"
proof -
  obtain ds where s: "s = CHR ''0'' # CHR ''x'' # ds" "ds \<noteq> []" "\<forall>c \<in> set ds. is_hexdig c"
    using assms(1) by (rule hex_litE)
  let ?k = "\<lambda>(p', s', g'). k (p', s', (j, take (length (s @ rest) - length s') (s @ rest)) # g')"
  have "rep is_hexdig 1 (Some CHR ''x'') (ds @ rest) g ?k = Some m"
    by (rule rep_span) (use assms s in \<open>auto simp: Suc_le_eq\<close>)
  then show ?thesis by (simp add: num_rx_def s chr_rx_def)
qed

lemma rmatch_sp: "rest \<noteq> [] \<and> \<not> is_space (hd rest) \<Longrightarrow> rmatch sp (p, rest, g) k = k (p, rest, g)"
  by (simp add: sp_def rep_none)

lemma rmatch_comma:
  assumes "rest \<noteq> [] \<and> \<not> is_space (hd rest)" and "\<And>p. k (p, rest, g) = Some m"
  shows "rmatch comma_rx (p, '', '' @ rest, g) k = Some m"
proof -
  have "rmatch sp (Some CHR '','', CHR '' '' # rest, g) k = Some m"
    using assms is_space_blank by (simp add: sp_def rep_none)
  then show ?thesis by (simp add: comma_rx_def rmatch_sp not_space chr_rx_def)
qed

lemma rmatch_chr: "rmatch (chr_rx c) (p, c # s, g) k = k (Some c, s, g)"
  by (simp add: chr_rx_def)

text \<open>The arguments behind the first one, numbered from \<open>j\<close>, and the groups they capture.\<close>

fun more_args :: "nat \<Rightarrow> nat \<Rightarrow> rx list" where
  "more_args j 0 = []"
| "more_args j (Suc n) = comma_rx # Grp j num_rx # more_args (Suc j) n"

fun captured :: "nat \<Rightarrow> str list \<Rightarrow> (nat \<times> str) list \<Rightarrow> (nat \<times> str) list" where
  "captured j [] g = g"
| "captured j (a # as) g = captured (Suc j) as ((j, a) # g)"

definition args_text :: "str list \<Rightarrow> str" where
  "args_text as = concat (map (\<lambda>a. '', '' @ a) as)"

lemma args_text_simps: "args_text [] = []" "args_text (a # as) = '', '' @ a @ args_text as"
  by (simp_all add: args_text_def)

lemma join_args: "join '', '' (a # as) = a @ args_text as"
  by (induction as arbitrary: a) (simp_all add: args_text_simps)

lemma args_text_head: "\<not> is_hexdig (hd (args_text as @ CHR '')'' # post))"
  by (cases as) (simp_all add: args_text_simps not_hexdig)

lemma rmatch_more:
  assumes "\<forall>a \<in> set as. hex_lit a"
    and "\<And>p. rmatch (seq_rx rs) (p, CHR '')'' # post, captured j as g) k = Some m"
  shows "rmatch (seq_rx (more_args j (length as) @ rs)) (p, args_text as @ CHR '')'' # post, g) k = Some m"
  using assms
proof (induction as arbitrary: j g p)
  case Nil
  then show ?case by (simp add: args_text_simps)
next
  case (Cons a as)
  let ?rest = "args_text as @ CHR '')'' # post"
  have "rmatch (seq_rx (more_args (Suc j) (length as) @ rs)) (q, ?rest, (j, a) # g) k = Some m" for q
    by (rule Cons.IH) (use Cons.prems in simp_all)
  then have "rmatch (Grp j num_rx) (q, a @ ?rest, g)
      (\<lambda>m. rmatch (seq_rx (more_args (Suc j) (length as) @ rs)) m k) = Some m" for q
    using Cons.prems(1) by (intro rmatch_num) (simp_all add: args_text_head)
  then have "rmatch comma_rx (p, '', '' @ a @ ?rest, g) (\<lambda>m. rmatch (Grp j num_rx) m
      (\<lambda>m. rmatch (seq_rx (more_args (Suc j) (length as) @ rs)) m k)) = Some m"
    using Cons.prems(1) not_space(3) by (intro rmatch_comma) (auto elim!: hex_litE)
  then show ?case by (simp add: args_text_simps)
qed

lemma call_match:
  assumes "\<forall>a \<in> set (a # as). hex_lit a"
  shows "match_at (call_rx name (Grp 1 num_rx # more_args 2 (length as))) p (macro_call name (a # as) @ post)
     = Some (Some CHR '')'', post, captured 1 (a # as) [])"
proof -
  let ?close = "[sp, chr_rx CHR '')'']"
  let ?m = "(Some CHR '')'', post, captured 1 (a # as) [])"
  have "rmatch (seq_rx ?close) (q, CHR '')'' # post, captured 2 as [(1, a)]) Some = Some ?m" for q
    by (simp add: rmatch_sp not_space rmatch_chr numeral_2_eq_2)
  then have "rmatch (seq_rx (more_args 2 (length as) @ ?close)) (q, args_text as @ CHR '')'' # post, [(1, a)]) Some
      = Some ?m" for q
    using assms by (intro rmatch_more) simp_all
  then have arg: "rmatch (Grp 1 num_rx) (q, a @ args_text as @ CHR '')'' # post, [])
      (\<lambda>m. rmatch (seq_rx (more_args 2 (length as) @ ?close)) m Some) = Some ?m" for q
    using assms by (intro rmatch_num) (simp_all add: args_text_head)
  have "a @ s \<noteq> [] \<and> \<not> is_space (hd (a @ s))" for s
    using assms not_space(3) by (auto elim!: hex_litE)
  then show ?thesis
    using arg unfolding match_at_def call_rx_def macro_call_def
    by (simp add: rmatch_lit rmatch_sp not_space rmatch_chr join_args del: rmatch.simps(7) lit.simps)
qed

subsection \<open>Every call is found\<close>

text \<open>The text of a call: the name, space, and brackets with no opening bracket inside.\<close>

lemma lang_call:
  assumes "lang (call_rx name rs) t" and "\<forall>r \<in> set rs. avoids CHR ''('' r"
  shows "\<exists>s u. t = name @ s @ ''('' @ u @ '')'' \<and> (\<forall>c \<in> set s. is_space c) \<and> CHR ''('' \<notin> set u"
proof -
  obtain s u where "t = name @ s @ CHR ''('' # u" "\<forall>c \<in> set s. is_space c"
    and u: "lang (seq_rx ((sp # rs) @ [sp, chr_rx CHR '')''])) u"
    using assms(1) by (auto simp: call_rx_def lang_lit lang_sp chr_rx_def)
  moreover obtain a b where "u = a @ b @ '')''" "lang (seq_rx (sp # rs)) a" "\<forall>c \<in> set b. is_space c"
    using u unfolding lang_seq_append by (auto simp: lang_sp chr_rx_def)
  moreover have "avoids CHR ''('' (seq_rx (sp # rs))"
    using assms(2) not_space by (simp add: avoids_seq sp_def)
  ultimately show ?thesis
    using avoids_lang [of "seq_rx (sp # rs)" a "CHR ''(''"] not_space by (intro exI [of _ s] exI [of _ "a @ b"]) auto
qed

lemma split_at_unique: "c \<notin> set a \<Longrightarrow> c \<notin> set b \<Longrightarrow> a @ c # x = b @ c # y \<Longrightarrow> a = b"
  using takeWhile_append_stop [of a "\<lambda>z. z \<noteq> c" "c # x"] takeWhile_append_stop [of b "\<lambda>z. z \<noteq> c" "c # y"]
  by (metis list.discI list.sel(1))

definition name_ok :: "str \<Rightarrow> bool" where
  "name_ok name \<longleftrightarrow> name \<noteq> [] \<and> \<not> is_space (last name) \<and> CHR ''('' \<notin> set name \<and> CHR '')'' \<notin> set name"

lemma calls_apart:
  assumes "lang (call_rx name rs) (u @ v)" and "u \<noteq> []" and "v \<noteq> []"
    and "name_ok name" and "\<forall>r \<in> set rs. avoids CHR ''('' r"
  shows "(name @ CHR ''('' # rest) \<noteq> v @ w"
proof
  assume eq: "name @ CHR ''('' # rest = v @ w"
  obtain s x where t: "u @ v = name @ s @ ''('' @ x @ '')''" "\<forall>c \<in> set s. is_space c" "CHR ''('' \<notin> set x"
    using lang_call [OF assms(1,5)] by blast
  have "last v = CHR '')''" using arg_cong [OF t(1), of last] assms(3) by simp
  then have "CHR '')'' \<in> set v" using assms(3) by (metis last_in_set)
  then have "\<not> (\<exists>z. name = v @ z)" using assms(4) by (auto simp: name_ok_def)
  then obtain z where z: "v = name @ CHR ''('' # z"
    using eq by (auto simp: append_eq_append_conv2 Cons_eq_append_conv)
  have "(u @ name) @ CHR ''('' # z = (name @ s) @ CHR ''('' # x @ '')''" using t(1) z by simp
  moreover have "CHR ''('' \<notin> set (name @ s)" using assms(4) t(2) not_space by (auto simp: name_ok_def)
  moreover have "CHR ''('' \<notin> set (u @ name)"
  proof
    assume "CHR ''('' \<in> set (u @ name)"
    then have "count_list u CHR ''('' \<noteq> 0" using assms(4) by (auto simp: count_list_0_iff name_ok_def)
    then have "count_list (u @ v) CHR ''('' \<noteq> 1" using z by (simp add: count_list_append)
    moreover have "count_list (u @ v) CHR ''('' = 1"
      using t \<open>CHR ''('' \<notin> set (name @ s)\<close> by (simp add: count_list_append)
    ultimately show False by simp
  qed
  ultimately have "u @ name = name @ s" using split_at_unique by metis
  moreover from this have "s = []"
    using t(2) assms(4) by (metis last_append last_in_set name_ok_def)
  ultimately show False using assms(2) by simp
qed

lemma calls_found:
  assumes "\<forall>a \<in> set (a # as). hex_lit a" and "name_ok name"
  shows "captured 1 (a # as) [] \<in>
     set (finditer (call_rx name (Grp 1 num_rx # more_args 2 (length as))) (pre @ macro_call name (a # as) @ post))"
  unfolding finditer_def
proof (rule find_all_occurs)
  have "\<not> is_hexdig CHR ''(''" "\<not> is_digit CHR ''(''" by code_simp+
  then have num: "avoids CHR ''('' num_rx" by (simp add: num_rx_def chr_rx_def)
  then have "\<forall>r \<in> set (more_args j n). avoids CHR ''('' r" for j n
    by (induction n arbitrary: j) (auto simp: comma_rx_def sp_def chr_rx_def not_space)
  with num have "\<forall>r \<in> set (Grp 1 num_rx # more_args 2 (length as)). avoids CHR ''('' r" by simp
  note apart = calls_apart [OF _ _ _ assms(2) this]
  show "macro_call name (a # as) @ post \<noteq> v @ w"
    if "lang (call_rx name (Grp 1 num_rx # more_args 2 (length as))) (u @ v)" "u \<noteq> []" "v \<noteq> []" for u v w
    using apart [OF that] by (simp add: macro_call_def)
  show "match_at (call_rx name (Grp 1 num_rx # more_args 2 (length as))) p (macro_call name (a # as) @ post)
      = Some (Some CHR '')'', post, captured 1 (a # as) [])" for p
    by (rule call_match [OF assms(1)])
  show "\<not> lang (call_rx name (Grp 1 num_rx # more_args 2 (length as))) []"
    using assms(2) by (auto simp: call_rx_def lang_lit name_ok_def)
qed (simp add: macro_call_def)

lemma call_regexes:
  "PCI_DEVICE_RE = call_rx ''PCI_DEVICE'' (Grp 1 num_rx # more_args 2 1)"
  "PCI_DEVICE_CLASS_RE = call_rx ''PCI_DEVICE_CLASS'' (Grp 1 num_rx # more_args 2 1)"
  "USB_DEVICE_RE = call_rx ''USB_DEVICE'' (Grp 1 num_rx # more_args 2 1)"
  "USB_IFACE_RE = call_rx ''USB_INTERFACE_INFO'' (Grp 1 num_rx # more_args 2 2)"
  "USB_DEV_IFACE_RE = call_rx ''USB_DEVICE_AND_INTERFACE_INFO'' (Grp 1 num_rx # more_args 2 4)"
  by (simp_all add: PCI_DEVICE_RE_def PCI_DEVICE_CLASS_RE_def USB_DEVICE_RE_def USB_IFACE_RE_def
      USB_DEV_IFACE_RE_def numeral_eq_Suc)


subsection \<open>Entries of a table\<close>

lemma calls_found_n:
  assumes "\<forall>a \<in> set (a # as). hex_lit a" and "name_ok name" and "n = length as"
  shows "captured 1 (a # as) [] \<in>
     set (finditer (call_rx name (Grp 1 num_rx # more_args 2 n)) (pre @ macro_call name (a # as) @ post))"
  using calls_found [OF assms(1,2)] by (simp only: assms(3))

lemma names_ok: "name_ok ''PCI_DEVICE''" "name_ok ''PCI_DEVICE_CLASS''" "name_ok ''USB_DEVICE''"
  "name_ok ''USB_INTERFACE_INFO''" "name_ok ''USB_DEVICE_AND_INTERFACE_INFO''" "name_ok ''MODULE_DEVICE_TABLE''"
  by code_simp+

lemma group_captured: "group 1 (captured 1 [a, b] []) = a" "group 2 (captured 1 [a, b] []) = b"
  "group 1 (captured 1 [a, b, c] []) = a" "group 2 (captured 1 [a, b, c] []) = b" "group 3 (captured 1 [a, b, c] []) = c"
  by (simp_all add: group_def)

lemma pci_device_entry:
  assumes "hex_lit v" and "hex_lit d"
  shows "entry_of (pci_alias (hex_val v) (hex_val d) PCI_ANY_ID PCI_ANY_ID 0 0) md src
     \<in> set (extract_pci_entries (pre @ macro_call ''PCI_DEVICE'' [v, d] @ post) md src)"
  using calls_found [of v "[d]" "''PCI_DEVICE''" pre post] assms names_ok group_captured(1,2) [of v d]
  unfolding extract_pci_entries_def call_regexes
  by (force simp del: captured.simps more_args.simps)

lemma pci_class_entry:
  assumes "hex_lit c" and "hex_lit m"
  shows "entry_of (pci_alias PCI_ANY_ID PCI_ANY_ID PCI_ANY_ID PCI_ANY_ID (hex_val c) (hex_val m)) md src
     \<in> set (extract_pci_entries (pre @ macro_call ''PCI_DEVICE_CLASS'' [c, m] @ post) md src)"
  using calls_found [of c "[m]" "''PCI_DEVICE_CLASS''" pre post] assms names_ok group_captured(1,2) [of c m]
  unfolding extract_pci_entries_def call_regexes
  by (force simp del: captured.simps more_args.simps)

lemma usb_device_entry:
  assumes "hex_lit v" and "hex_lit p"
  shows "entry_of (usb_alias (hex_val v) (hex_val p) 0xFF 0xFF 0xFF 0xFF 0xFF 0xFF) md src
     \<in> set (extract_usb_entries (pre @ macro_call ''USB_DEVICE'' [v, p] @ post) md src)"
  using calls_found [of v "[p]" "''USB_DEVICE''" pre post] assms names_ok group_captured(1,2) [of v p]
  unfolding extract_usb_entries_def call_regexes
  by (force simp del: captured.simps more_args.simps)

lemma usb_iface_entry:
  assumes "hex_lit a" and "hex_lit b" and "hex_lit c"
  shows "entry_of (usb_alias 0xFFFF 0xFFFF 0xFF 0xFF 0xFF (hex_val a) (hex_val b) (hex_val c)) md src
     \<in> set (extract_usb_entries (pre @ macro_call ''USB_INTERFACE_INFO'' [a, b, c] @ post) md src)"
  using calls_found_n [of a "[b, c]" "''USB_INTERFACE_INFO''" 2 pre post] assms names_ok group_captured(3-5) [of a b c]
  unfolding extract_usb_entries_def call_regexes
  by (force simp del: captured.simps more_args.simps)

subsection \<open>Declared tables\<close>

definition ident :: "str \<Rightarrow> bool" where
  "ident s \<longleftrightarrow> s \<noteq> [] \<and> list_all is_word s"

lemma not_word: "\<not> is_word CHR '',''" "\<not> is_word CHR '')''" "\<not> is_word CHR ''(''"
  by code_simp+

lemma word_not_space: "is_word c \<Longrightarrow> \<not> is_space c"
proof -
  have "\<forall>c \<in> set ws_chars. \<not> is_word c" by code_simp
  then show "is_word c \<Longrightarrow> \<not> is_space c" by (auto simp: is_space_def)
qed

lemma rmatch_ident:
  assumes "ident s" and "rest \<noteq> [] \<and> \<not> is_word (hd rest)" and "\<And>p. k (p, rest, (j, s) # g) = Some m"
  shows "rmatch (Grp j (Rep is_word 1)) (p, s @ rest, g) k = Some m"
proof -
  let ?k = "\<lambda>(p', s', g'). k (p', s', (j, take (length (s @ rest) - length s') (s @ rest)) # g')"
  have "rep is_word 1 p (s @ rest) g ?k = Some m"
    by (rule rep_span) (use assms in \<open>auto simp: ident_def list_all_iff Suc_le_eq\<close>)
  then show ?thesis by simp
qed

lemma table_match:
  assumes "ident bus" and "ident tbl"
  shows "match_at (call_rx name [Grp 1 (Rep is_word 1), comma_rx, Grp 2 (Rep is_word 1)]) p
      (macro_call name [bus, tbl] @ post)
     = Some (Some CHR '')'', post, [(2, tbl), (1, bus)])"
proof -
  let ?m = "(Some CHR '')'', post, [(2, tbl), (1, bus)])"
  let ?k = "\<lambda>m. rmatch (seq_rx [sp, chr_rx CHR '')'']) m Some"
  have head: "s @ x \<noteq> [] \<and> \<not> is_space (hd (s @ x))" if "ident s" for s x
    using that word_not_space by (cases s) (auto simp: ident_def)
  have "?k (q, CHR '')'' # post, [(2, tbl), (1, bus)]) = Some ?m" for q
    by (simp add: rmatch_sp not_space rmatch_chr)
  then have 1: "rmatch (Grp 2 (Rep is_word 1)) (q, tbl @ CHR '')'' # post, [(1, bus)]) ?k = Some ?m" for q
    using assms by (intro rmatch_ident) (simp_all add: not_word)
  have 2: "rmatch comma_rx (q, '', '' @ tbl @ CHR '')'' # post, [(1, bus)])
      (\<lambda>m. rmatch (Grp 2 (Rep is_word 1)) m ?k) = Some ?m" for q
    by (rule rmatch_comma) (use 1 head [OF assms(2)] in auto)
  have "rmatch (Grp 1 (Rep is_word 1)) (q, bus @ '', '' @ tbl @ CHR '')'' # post, [])
      (\<lambda>m. rmatch comma_rx m (\<lambda>m. rmatch (Grp 2 (Rep is_word 1)) m ?k)) = Some ?m" for q
    by (rule rmatch_ident) (use 2 assms in \<open>simp_all add: not_word\<close>)
  then show ?thesis
    using head [OF assms(1)] unfolding match_at_def call_rx_def macro_call_def
    by (simp add: rmatch_lit rmatch_sp not_space rmatch_chr del: rmatch.simps(7) lit.simps)
qed

lemma table_found:
  assumes "ident bus" and "ident tbl"
  shows "[(2, tbl), (1, bus)] \<in> set (finditer MOD_TABLE_RE (pre @ macro_call ''MODULE_DEVICE_TABLE'' [bus, tbl] @ post))"
  unfolding finditer_def
proof (rule find_all_occurs)
  have "\<forall>r \<in> set [Grp 1 (Rep is_word 1), comma_rx, Grp 2 (Rep is_word 1)]. avoids CHR ''('' r"
    by (simp add: comma_rx_def sp_def chr_rx_def not_word not_space)
  note apart = calls_apart [OF _ _ _ names_ok(6) this]
  show "macro_call ''MODULE_DEVICE_TABLE'' [bus, tbl] @ post \<noteq> v @ w"
    if "lang MOD_TABLE_RE (u @ v)" "u \<noteq> []" "v \<noteq> []" for u v w
    using apart [OF that [unfolded MOD_TABLE_RE_def]] by (simp add: macro_call_def)
  show "match_at MOD_TABLE_RE p (macro_call ''MODULE_DEVICE_TABLE'' [bus, tbl] @ post)
      = Some (Some CHR '')'', post, [(2, tbl), (1, bus)])" for p
    unfolding MOD_TABLE_RE_def by (rule table_match [OF assms])
  show "\<not> lang MOD_TABLE_RE []" by (auto simp: MOD_TABLE_RE_def call_rx_def lang_lit)
qed (simp add: macro_call_def)

lemma contains_append: "contains p (a @ p @ b)"
proof (induction a)
  case Nil
  have "starts_with p (p @ b)" by (simp add: starts_with_def)
  then show ?case by (cases "p @ b") auto
qed simp

lemma scan_c_text_entry:
  assumes "ident bus" "ident tbl" and "dget BUS_EXTRACTORS (lower bus) = Some f"
    and "content = pre @ macro_call ''MODULE_DEVICE_TABLE'' [bus, tbl] @ post"
    and "x \<in> set (f content (module_from_path rel) (join ''/'' rel))"
  shows "x \<in> set (scan_c_text rel content)"
proof -
  have "contains ''MODULE_DEVICE_TABLE'' content"
    using contains_append unfolding assms(4) macro_call_def by (metis append.assoc)
  moreover have "group 1 [(2, tbl), (1, bus)] = bus" by (simp add: group_def)
  ultimately show ?thesis
    using table_found [OF assms(1,2), of pre post] assms(3,5)
    unfolding scan_c_text_def assms(4) [symmetric] by force
qed

text \<open>A file of a listable part of the tree is visited.\<close>

fun listed :: "ktree \<Rightarrow> str list \<Rightarrow> str \<Rightarrow> bool" where
  "listed (KFile _) ns t = False"
| "listed (KDir l es) [] t = False"
| "listed (KDir l es) [n] t = (l \<and> (n, KFile (Some t)) \<in> set es)"
| "listed (KDir l es) (n # m # ns) t = (l \<and> (\<exists>(n', d) \<in> set es. n' = n \<and> listed d (m # ns) t))"

lemma rglob_listed:
  "listed d ns t \<Longrightarrow> ends_with ''.c'' (last ns) \<Longrightarrow> (rel @ ns, KFile (Some t)) \<in> set (rglob_c rel d)"
proof (induction d ns t arbitrary: rel rule: listed.induct)
  case (3 l es n t)
  then have "(n, KFile (Some t)) \<in> set (filter (\<lambda>(n, t). ends_with ''.c'' n) es)" "l" by simp_all
  then show ?case by (auto simp: image_iff intro: rev_bexI)
next
  case (4 l es n m ns t)
  then obtain d where d: "l" "(n, d) \<in> set es" "listed d (m # ns) t" by auto
  then have "(r @ m # ns, KFile (Some t)) \<in> set (rglob_c r d)" for r
    using "4.IH" [of "(n, d)" n d] "4.prems"(2) by simp
  from this [of "rel @ [n]"] have "(rel @ n # m # ns, KFile (Some t)) \<in> set (rglob_c (rel @ [n]) d)" by simp
  with d(1,2) show ?case by (auto intro!: bexI [of _ "(n, d)"])
qed simp_all

lemma scan_tree_file:
  assumes "dir \<in> set SCAN_DIRS" and "ktree_at src [dir] = Some d" and "listed d ns t" and "ends_with ''.c'' (last ns)"
  shows "set (scan_c_text (dir # ns) t) \<subseteq> set (scan_tree src)"
proof -
  have "(dir # ns, KFile (Some t)) \<in> set (rglob_c [dir] d)"
    using rglob_listed [OF assms(3,4), of "[dir]"] by simp
  then show ?thesis
    using assms(1,2) unfolding scan_tree_def by (force simp: scan_c_file_def)
qed

subsection \<open>Properties\<close>

text \<open>
  C1. A driver that lists a PCI device is found for it: when a C file of the scanned tree
  declares a PCI table and contains \<^verbatim>\<open>PCI_DEVICE(v, d)\<close> anywhere, the index of the tree
  maps the alias of every device with these identifiers to that file's module.
\<close>

theorem listed_pci_device_matched:
  assumes "dir \<in> set SCAN_DIRS" and "ktree_at src [dir] = Some t" and "listed t ns content" and "ends_with ''.c'' (last ns)"
    and "content = a @ macro_call ''MODULE_DEVICE_TABLE'' [bus, tbl] @ b" and "lower bus = ''pci''" and "ident bus" and "ident tbl"
    and "content = a' @ macro_call ''PCI_DEVICE'' [v, d] @ b'" and "hex_lit v" and "hex_lit d"
    and "pci_ids_ok dv" and "pci_vendor dv = hex_val v" and "pci_devid dv = hex_val d"
  shows "\<exists>x \<in> set (index_match (scan_tree src) (pci_dev_alias dv)).
     module x = module_from_path (dir # ns) \<and> source_file x = join ''/'' (dir # ns)"
proof -
  let ?x = "entry_of (pci_alias (hex_val v) (hex_val d) PCI_ANY_ID PCI_ANY_ID 0 0) (module_from_path (dir # ns)) (join ''/'' (dir # ns))"
  have ext: "dget BUS_EXTRACTORS (lower bus) = Some extract_pci_entries" by (simp add: assms(6) BUS_EXTRACTORS_def)
  have "?x \<in> set (extract_pci_entries content (module_from_path (dir # ns)) (join ''/'' (dir # ns)))"
    unfolding assms(9) by (rule pci_device_entry [OF assms(10,11)])
  then have "?x \<in> set (scan_c_text (dir # ns) content)"
    using scan_c_text_entry [OF assms(7,8) ext assms(5)] by blast
  then have "?x \<in> set (scan_tree src)" using scan_tree_file [OF assms(1-4)] by blast
  moreover have "fnmatch (pci_dev_alias dv) (alias_pattern ?x)"
    using pci_pattern_matches [OF assms(12), of "hex_val v" "hex_val d" PCI_ANY_ID PCI_ANY_ID 0 0] assms(13,14) hex_val_nonneg
    by (simp add: entry_of_def id_agrees_def class_agrees_def PCI_ANY_ID_def)
  ultimately show ?thesis by (intro bexI [of _ ?x]) (simp_all add: index_match_def entry_of_def)
qed

definition sample_source :: str where
  "sample_source = ''/* ids */ static t[] = { { PCI_DEVICE(0x8086, 0x1533) }, {0} }; MODULE_DEVICE_TABLE(pci, t);''"

definition sample_src :: ktree where
  "sample_src = KDir True [(''drivers'', KDir True [(''igb_main.c'', KFile (Some sample_source))])]"

theorem listed_pci_device_matched_witness:
  "\<exists>x \<in> set (index_match (scan_tree sample_src) (pci_dev_alias sample_nic)).
     module x = module_from_path [''drivers'', ''igb_main.c''] \<and> source_file x = join ''/'' [''drivers'', ''igb_main.c'']"
proof (rule listed_pci_device_matched [where bus = "''pci''" and tbl = "''t''" and v = "''0x8086''" and d = "''0x1533''"
      and a = "take 64 sample_source" and b = "drop 91 sample_source"
      and a' = "take 27 sample_source" and b' = "drop 53 sample_source"])
  show "''drivers'' \<in> set SCAN_DIRS" by code_simp
  show "ktree_at sample_src [''drivers''] = Some (KDir True [(''igb_main.c'', KFile (Some sample_source))])"
    by (simp add: sample_src_def)
  show "listed (KDir True [(''igb_main.c'', KFile (Some sample_source))]) [''igb_main.c''] sample_source" by simp
  show "ends_with ''.c'' (last [''igb_main.c''])" by code_simp
  show "sample_source = take 64 sample_source @ macro_call ''MODULE_DEVICE_TABLE'' [''pci'', ''t''] @ drop 91 sample_source" by code_simp
  show "sample_source = take 27 sample_source @ macro_call ''PCI_DEVICE'' [''0x8086'', ''0x1533''] @ drop 53 sample_source" by code_simp
  show "lower ''pci'' = ''pci''" by code_simp
  show "ident ''pci''" by code_simp
  show "ident ''t''" by code_simp
  show "hex_lit ''0x8086''" by code_simp
  show "hex_lit ''0x1533''" by code_simp
  show "pci_ids_ok sample_nic" by (simp add: pci_ids_ok_def sample_nic_def)
  show "pci_vendor sample_nic = hex_val ''0x8086''" by code_simp
  show "pci_devid sample_nic = hex_val ''0x1533''" by code_simp
qed

text \<open>
  C33. A USB interface class a driver lists is found: a device whose first interface has the
  class triple of a \<^verbatim>\<open>USB_INTERFACE_INFO\<close> entry is mapped to that driver's module.
\<close>

theorem listed_usb_interface_matched:
  assumes "dir \<in> set SCAN_DIRS" and "ktree_at src [dir] = Some t" and "listed t ns content" and "ends_with ''.c'' (last ns)"
    and "content = a @ macro_call ''MODULE_DEVICE_TABLE'' [bus, tbl] @ b" and "lower bus = ''usb''" and "ident bus" and "ident tbl"
    and "content = a' @ macro_call ''USB_INTERFACE_INFO'' [x, y, z] @ b'" and "hex_lit x" and "hex_lit y" and "hex_lit z"
    and "usb_ids_ok dv" and "usb_iface_class dv = hex_val x" and "usb_iface_subclass dv = hex_val y"
    and "usb_iface_protocol dv = hex_val z"
  shows "\<exists>en \<in> set (index_match (scan_tree src) (usb_dev_alias dv)). module en = module_from_path (dir # ns)"
proof -
  let ?x = "entry_of (usb_alias 0xFFFF 0xFFFF 0xFF 0xFF 0xFF (hex_val x) (hex_val y) (hex_val z))
    (module_from_path (dir # ns)) (join ''/'' (dir # ns))"
  have ext: "dget BUS_EXTRACTORS (lower bus) = Some extract_usb_entries" by (simp add: assms(6) BUS_EXTRACTORS_def)
  have "?x \<in> set (extract_usb_entries content (module_from_path (dir # ns)) (join ''/'' (dir # ns)))"
    unfolding assms(9) by (rule usb_iface_entry [OF assms(10-12)])
  then have "?x \<in> set (scan_c_text (dir # ns) content)"
    using scan_c_text_entry [OF assms(7,8) ext assms(5)] by blast
  then have "?x \<in> set (scan_tree src)" using scan_tree_file [OF assms(1-4)] by blast
  moreover have "fnmatch (usb_dev_alias dv) (alias_pattern ?x)"
    using usb_pattern_matches [OF assms(13), of "0xFFFF" "0xFFFF" "0xFF" "0xFF" "0xFF" "hex_val x" "hex_val y" "hex_val z"]
      assms(14-16) hex_val_nonneg
    by (simp add: entry_of_def id_agrees_def)
  ultimately show ?thesis by (intro bexI [of _ ?x]) (simp_all add: index_match_def entry_of_def)
qed

definition storage_source :: str where
  "storage_source = ''USB_INTERFACE_INFO(0x08, 0x06, 0x50) MODULE_DEVICE_TABLE(usb, t)''"

definition storage_dir :: ktree where
  "storage_dir = KDir True [(''usb.c'', KFile (Some storage_source))]"

theorem listed_usb_interface_matched_witness:
  "\<exists>en \<in> set (index_match (scan_tree (KDir True [(''drivers'', storage_dir)])) (usb_dev_alias sample_stick)).
     module en = module_from_path [''drivers'', ''usb.c'']"
proof (rule listed_usb_interface_matched [where t = storage_dir and content = storage_source and bus = "''usb''" and tbl = "''t''"
      and x = "''0x08''" and y = "''0x06''" and z = "''0x50''" and a = "take 37 storage_source" and b = "[]"
      and a' = "[]" and b' = "drop 36 storage_source"])
  show "''drivers'' \<in> set SCAN_DIRS" by code_simp
  show "ktree_at (KDir True [(''drivers'', storage_dir)]) [''drivers''] = Some storage_dir" by simp
  show "listed storage_dir [''usb.c''] storage_source" by (simp add: storage_dir_def)
  show "ends_with ''.c'' (last [''usb.c''])" by code_simp
  show "storage_source = take 37 storage_source @ macro_call ''MODULE_DEVICE_TABLE'' [''usb'', ''t''] @ []" by code_simp
  show "storage_source = [] @ macro_call ''USB_INTERFACE_INFO'' [''0x08'', ''0x06'', ''0x50''] @ drop 36 storage_source" by code_simp
  show "lower ''usb'' = ''usb''" by code_simp
  show "ident ''usb''" by code_simp
  show "ident ''t''" by code_simp
  show "hex_lit ''0x08''" by code_simp
  show "hex_lit ''0x06''" by code_simp
  show "hex_lit ''0x50''" by code_simp
  show "usb_ids_ok sample_stick" by (simp add: usb_ids_ok_def sample_stick_def)
  show "usb_iface_class sample_stick = hex_val ''0x08''" by code_simp
  show "usb_iface_subclass sample_stick = hex_val ''0x06''" by code_simp
  show "usb_iface_protocol sample_stick = hex_val ''0x50''" by code_simp
qed

end
