(* ===== verification/MakefileDb.thy ===== *)
theory MakefileDb
  imports Extract
begin

text \<open>
  \<^verbatim>\<open>kconfig_builder/matchers.py\<close>, second half: \<^verbatim>\<open>MakefileDB\<close>, the map from
  module names to configuration symbols read off the kernel's makefiles. A Python set of symbols
  is a list without duplicates; it is only ever shown sorted. A file's text is what
  \<^verbatim>\<open>read_text\<close> gives, with line ends already translated.
\<close>

record makefile_db =
  module_to_configs :: "(str, str list) dict"
  built :: bool

definition empty_db :: makefile_db where
  "empty_db = \<lparr>module_to_configs = [], built = False\<rparr>"

definition cfg_char :: "char \<Rightarrow> bool" where
  "cfg_char c \<longleftrightarrow> is_upper c \<or> is_digit c \<or> c = CHR ''_''"

definition not_blank :: "char \<Rightarrow> bool" where
  "not_blank c \<longleftrightarrow> \<not> is_space c"

definition OBJ_RE :: rx where
  "OBJ_RE = seq_rx [lit ''obj-$(CONFIG_'', Grp 1 (Rep cfg_char 1), chr_rx CHR '')'', sp, lit ''+='', sp,
     Grp 2 (Rep not_blank 1)]"

definition CONT_RE :: rx where
  "CONT_RE = seq_rx [chr_rx CHR 0x5C, chr_rx CHR 0x0A, sp]"

text \<open>\<^verbatim>\<open>d.setdefault(k, set()).add(x)\<close>.\<close>

definition add_to :: "'k \<Rightarrow> 'v \<Rightarrow> ('k, 'v list) dict \<Rightarrow> ('k, 'v list) dict" where
  "add_to k x d = (let xs = dget_default d k [] in dset k (if x \<in> set xs then xs else xs @ [x]) d)"

definition obj_target :: "str \<Rightarrow> str" where
  "obj_target t =
     (let target = rstrip_chars ''/'' t
      in if ends_with ''.o'' target \<or> ends_with ''.ko'' target then name_stem (path_name (mk_path target))
         else target)"

definition obj_line :: "str \<Rightarrow> (str, str list) dict \<Rightarrow> (str, str list) dict" where
  "obj_line line d =
     (case search OBJ_RE line of None \<Rightarrow> d | Some m \<Rightarrow> add_to (obj_target (group 2 m)) (group 1 m) d)"

definition parse_makefile :: "str \<Rightarrow> (str, str list) dict \<Rightarrow> (str, str list) dict" where
  "parse_makefile content d = fold obj_line (splitlines (re_sub CONT_RE '' '' content)) d"

definition parse_makefile_of :: "ktree option \<Rightarrow> (str, str list) dict \<Rightarrow> (str, str list) dict" where
  "parse_makefile_of t d =
     (case t of
        None \<Rightarrow> d
      | Some f \<Rightarrow> (case ktree_text f of None \<Rightarrow> d | Some content \<Rightarrow> parse_makefile content d))"

text \<open>\<^verbatim>\<open>_scan_dir\<close>: the makefiles of a directory, then its subdirectories in listing order.\<close>

fun scan_dir :: "ktree \<Rightarrow> (str, str list) dict \<Rightarrow> (str, str list) dict" where
  "scan_dir (KFile _) d = d"
| "scan_dir (KDir listable es) d =
     (let d' = parse_makefile_of (map_of es ''Kbuild'') (parse_makefile_of (map_of es ''Makefile'') d)
      in if listable then fold (\<lambda>(n, t). scan_dir t) es d' else d')"

text \<open>\<^verbatim>\<open>build\<close>: once only; a scanned name that is no directory cannot be listed.\<close>

fun scan_roots :: "ktree \<Rightarrow> str list \<Rightarrow> (str, str list) dict \<Rightarrow> exn + (str, str list) dict" where
  "scan_roots src [] d = Inr d"
| "scan_roots src (n # ns) d =
     (case ktree_at src [n] of
        None \<Rightarrow> scan_roots src ns d
      | Some (KFile _) \<Rightarrow> Inl (OSErr ''Not a directory'')
      | Some t \<Rightarrow> scan_roots src ns (scan_dir t d))"

definition build_db :: "ktree \<Rightarrow> makefile_db \<Rightarrow> exn + makefile_db" where
  "build_db src db =
     (if built db then Inr db
      else map_sum id (\<lambda>d. \<lparr>module_to_configs = d, built = True\<rparr>) (scan_roots src SCAN_DIRS (module_to_configs db)))"

definition get_configs :: "makefile_db \<Rightarrow> str \<Rightarrow> str list" where
  "get_configs db m =
     (let d = module_to_configs db;
          keys = filter (\<lambda>k. dget d k \<noteq> None) [m, replace_char CHR ''-'' CHR ''_'' m, replace_char CHR ''_'' CHR ''-'' m]
      in case keys of
           k # _ \<Rightarrow> sort (dget_default d k [])
         | [] \<Rightarrow> (case filter (\<lambda>(k, cs). starts_with k m \<or> starts_with m k) d of
                    (k, cs) # _ \<Rightarrow> sort cs
                  | [] \<Rightarrow> []))"

subsection \<open>Symbols are only added\<close>

definition has_config :: "(str, str list) dict \<Rightarrow> str \<Rightarrow> str \<Rightarrow> bool" where
  "has_config d m c \<longleftrightarrow> (\<exists>cs. dget d m = Some cs \<and> c \<in> set cs)"

lemma has_config_add_to: "has_config (add_to k x d) m c \<longleftrightarrow> has_config d m c \<or> (m = k \<and> c = x)"
  by (cases "dget d k") (auto simp: has_config_def add_to_def Let_def dict_simps dget_default_def)

lemma has_config_obj_line: "has_config d m c \<Longrightarrow> has_config (obj_line l d) m c"
  by (simp add: obj_line_def has_config_add_to split: option.split)

lemma has_config_parse: "has_config d m c \<Longrightarrow> has_config (parse_makefile t d) m c"
proof -
  have "has_config d m c \<Longrightarrow> has_config (fold obj_line ls d) m c" for ls
    by (induction ls arbitrary: d) (simp_all add: has_config_obj_line)
  then show "has_config d m c \<Longrightarrow> has_config (parse_makefile t d) m c" by (simp add: parse_makefile_def)
qed

lemma has_config_parse_of: "has_config d m c \<Longrightarrow> has_config (parse_makefile_of t d) m c"
  by (simp add: parse_makefile_of_def has_config_parse split: option.split)

lemma has_config_fold:
  "(\<And>x d. x \<in> set xs \<Longrightarrow> has_config d m c \<Longrightarrow> has_config (f x d) m c) \<Longrightarrow>
     has_config d m c \<Longrightarrow> has_config (fold f xs d) m c"
  by (induction xs arbitrary: d) simp_all

lemma has_config_scan_dir: "has_config d m c \<Longrightarrow> has_config (scan_dir t d) m c"
proof (induction t d rule: scan_dir.induct)
  case (2 l es d)
  let ?d = "parse_makefile_of (map_of es ''Kbuild'') (parse_makefile_of (map_of es ''Makefile'') d)"
  have "has_config ?d m c" using 2 by (simp add: has_config_parse_of)
  then show ?case
  proof (cases l)
    case True
    have "has_config (fold (\<lambda>(n, t). scan_dir t) es ?d) m c"
      by (rule has_config_fold) (use 2 True \<open>has_config ?d m c\<close> in \<open>auto simp: Let_def\<close>)
    then show ?thesis using True by (simp add: Let_def)
  qed (simp add: Let_def)
qed simp

subsection \<open>An object line is found\<close>

definition obj_text :: "str \<Rightarrow> str \<Rightarrow> str \<Rightarrow> str" where
  "obj_text cfg target rest = ''obj-$(CONFIG_'' @ cfg @ '') += '' @ target @ rest"

definition cfg_name :: "str \<Rightarrow> bool" where
  "cfg_name s \<longleftrightarrow> s \<noteq> [] \<and> list_all cfg_char s"

definition target_name :: "str \<Rightarrow> bool" where
  "target_name s \<longleftrightarrow> s \<noteq> [] \<and> list_all not_blank s"

lemma obj_chars: "\<not> cfg_char CHR '')''" "\<not> is_space CHR ''+''" "is_space CHR '' ''"
  by code_simp+

lemma rmatch_group_span:
  assumes "s \<noteq> []" and "list_all P s" and "rest = [] \<or> \<not> P (hd rest)" and "\<And>p. k (p, rest, (j, s) # g) = Some m"
  shows "rmatch (Grp j (Rep P 1)) (p, s @ rest, g) k = Some m"
proof -
  let ?k = "\<lambda>(p', s', g'). k (p', s', (j, take (length (s @ rest) - length s') (s @ rest)) # g')"
  have "rep P 1 p (s @ rest) g ?k = Some m"
    by (rule rep_span) (use assms in \<open>auto simp: list_all_iff Suc_le_eq\<close>)
  then show ?thesis by simp
qed

lemma rmatch_sp_blank:
  "rest \<noteq> [] \<and> \<not> is_space (hd rest) \<Longrightarrow> k (Some CHR '' '', rest, g) = Some m \<Longrightarrow>
     rmatch sp (p, CHR '' '' # rest, g) k = Some m"
  using rep_span [of "[CHR '' '']" is_space rest 0 k p g m] by (simp add: sp_def obj_chars)

lemma obj_match:
  assumes "cfg_name cfg" and "target_name target" and "rest = [] \<or> is_space (hd rest)"
  shows "\<exists>p'. match_at OBJ_RE p (obj_text cfg target rest) = Some (p', rest, [(2, target), (1, cfg)])"
proof -
  let ?m = "(Some (last target), rest, [(2, target), (1, cfg)])"
  let ?k2 = "\<lambda>m. rmatch (Grp 2 (Rep not_blank 1)) m Some"
  have tne: "target @ x \<noteq> [] \<and> \<not> is_space (hd (target @ x))" for x
    using assms(2) by (cases target) (auto simp: target_name_def not_blank_def)
  have "rmatch (Rep not_blank 1) (q, target @ rest, [(1, cfg)])
      (\<lambda>(p', s', g'). Some (p', s', (2, take (length (target @ rest) - length s') (target @ rest)) # g')) = Some ?m" for q
    unfolding rmatch.simps
    by (rule rep_span) (use assms(2,3) in \<open>auto simp: target_name_def list_all_iff not_blank_def Suc_le_eq\<close>)
  then have 2: "?k2 (q, target @ rest, [(1, cfg)]) = Some ?m" for q by simp
  have 3: "rmatch sp (q, '' '' @ target @ rest, [(1, cfg)]) ?k2 = Some ?m" for q
    using rmatch_sp_blank [of "target @ rest" ?k2] 2 tne by simp
  have "rmatch (lit ''+='') (q, ''+='' @ '' '' @ target @ rest, [(1, cfg)]) (\<lambda>m. rmatch sp m ?k2) = Some ?m" for q
    by (simp only: rmatch_lit 3)
  then have 4: "rmatch sp (q, '' += '' @ target @ rest, [(1, cfg)])
      (\<lambda>m. rmatch (lit ''+='') m (\<lambda>m. rmatch sp m ?k2)) = Some ?m" for q
    using rmatch_sp_blank [of "''+= '' @ target @ rest"] by (simp add: obj_chars del: lit.simps rmatch.simps)
  then have 5: "rmatch (chr_rx CHR '')'') (q, '')'' @ '' += '' @ target @ rest, [(1, cfg)])
      (\<lambda>m. rmatch sp m (\<lambda>m. rmatch (lit ''+='') m (\<lambda>m. rmatch sp m ?k2))) = Some ?m" for q
    by (simp add: rmatch_chr del: lit.simps rmatch.simps)
  have "rmatch (Grp 1 (Rep cfg_char 1)) (q, cfg @ '')'' @ '' += '' @ target @ rest, [])
      (\<lambda>m. rmatch (chr_rx CHR '')'') m (\<lambda>m. rmatch sp m
         (\<lambda>m. rmatch (lit ''+='') m (\<lambda>m. rmatch sp m ?k2)))) = Some ?m" for q
    by (rule rmatch_group_span) (use assms(1) 5 in \<open>simp_all add: cfg_name_def obj_chars del: lit.simps rmatch.simps\<close>)
  then have "rmatch OBJ_RE (p, ''obj-$(CONFIG_'' @ cfg @ '')'' @ '' += '' @ target @ rest, []) Some = Some ?m"
    by (simp only: OBJ_RE_def seq_rx.simps rmatch.simps(4) rmatch_lit) (simp del: lit.simps rmatch.simps(7))
  then show ?thesis by (simp add: match_at_def obj_text_def del: rmatch.simps)
qed

lemma search_obj:
  assumes "cfg_name cfg" and "target_name target" and "rest = [] \<or> is_space (hd rest)"
  shows "search OBJ_RE (obj_text cfg target rest) = Some [(2, target), (1, cfg)]"
proof -
  obtain p' where m: "match_at OBJ_RE None (obj_text cfg target rest) = Some (p', rest, [(2, target), (1, cfg)])"
    using obj_match [OF assms] by blast
  have "length rest < length (obj_text cfg target rest)" by (simp add: obj_text_def)
  then show ?thesis unfolding search_def finditer_def using find_all_hit [OF m] by simp
qed

text \<open>A makefile without continuation lines.\<close>

definition makefile_line :: "str \<Rightarrow> bool" where
  "makefile_line l \<longleftrightarrow> one_line l \<and> CHR 0x5C \<notin> set l"

lemma parse_makefile_lines:
  assumes "\<forall>l \<in> set ls. makefile_line l"
  shows "parse_makefile (unlines ls) d = fold obj_line ls d"
proof -
  have "CHR 0x5C \<notin> set (unlines ls)" using assms by (auto simp: unlines_def makefile_line_def)
  then have "re_sub CONT_RE '' '' (unlines ls) = unlines ls"
    unfolding CONT_RE_def seq_rx.simps by (rule re_sub_absent)
  then show ?thesis
    using splitlines_unlines [of ls] assms by (simp add: parse_makefile_def makefile_line_def)
qed

lemma parse_makefile_finds:
  assumes "\<forall>l \<in> set ls. makefile_line l" and "obj_text cfg target rest \<in> set ls"
    and "cfg_name cfg" and "target_name target" and "rest = [] \<or> is_space (hd rest)"
  shows "has_config (parse_makefile (unlines ls) d) (obj_target target) cfg"
proof -
  obtain as bs where ls: "ls = as @ obj_text cfg target rest # bs" using assms(2) by (meson split_list)
  have "has_config (obj_line (obj_text cfg target rest) (fold obj_line as d)) (obj_target target) cfg"
    using search_obj [OF assms(3-5)] by (simp add: obj_line_def group_def has_config_add_to)
  then have "has_config (fold obj_line ls d) (obj_target target) cfg"
    using has_config_fold [of bs _ _ obj_line] by (simp add: ls has_config_obj_line)
  then show ?thesis by (simp add: parse_makefile_lines [OF assms(1)])
qed

text \<open>A directory of the tree that the scan reaches, through listable directories.\<close>

fun reaches :: "ktree \<Rightarrow> str list \<Rightarrow> ktree \<Rightarrow> bool" where
  "reaches t [] t' = (t = t')"
| "reaches (KFile _) (n # ns) t' = False"
| "reaches (KDir l es) (n # ns) t' = (l \<and> (\<exists>(n', d) \<in> set es. n' = n \<and> reaches d ns t'))"

lemma has_config_fold_hit:
  assumes "x \<in> set xs" and "\<And>d. has_config (f x d) m c"
    and "\<And>x d. has_config d m c \<Longrightarrow> has_config (f x d) m c"
  shows "has_config (fold f xs d) m c"
proof -
  obtain as bs where xs: "xs = as @ x # bs" using assms(1) by (meson split_list)
  have "has_config (f x (fold f as d)) m c" by (rule assms(2))
  then show ?thesis using has_config_fold [of bs m c f] assms(3) by (simp add: xs)
qed

lemma scan_dir_finds:
  assumes mk: "map_of es ''Makefile'' = Some (KFile (Some text))"
    and hit: "\<And>d. has_config (parse_makefile text d) m c"
  shows "reaches t ns (KDir l es) \<Longrightarrow> has_config (scan_dir t d) m c"
proof (induction t ns "KDir l es" arbitrary: d rule: reaches.induct)
  case (1 t)
  let ?d = "parse_makefile_of (map_of es ''Kbuild'') (parse_makefile_of (map_of es ''Makefile'') d)"
  have "has_config ?d m c"
    by (rule has_config_parse_of) (simp add: parse_makefile_of_def mk hit)
  then show ?case
    using 1 has_config_fold [of es m c "\<lambda>(n, t). scan_dir t"] by (auto simp: Let_def has_config_scan_dir)
next
  case (3 l' es' n ns)
  then obtain d' where d': "l'" "(n, d') \<in> set es'" "reaches d' ns (KDir l es)" by auto
  have "has_config (fold (\<lambda>(n, t). scan_dir t) es' d0) m c" for d0
    by (rule has_config_fold_hit [OF d'(2)])
      (use "3.hyps" [of "(n, d')" n d'] d' in \<open>auto simp: has_config_scan_dir\<close>)
  then show ?case using d'(1) by (simp add: Let_def)
qed simp

lemma scan_roots_mono:
  "scan_roots src ns d = Inr d' \<Longrightarrow> has_config d m c \<Longrightarrow> has_config d' m c"
  by (induction src ns d rule: scan_roots.induct)
    (auto simp: has_config_scan_dir simp del: scan_dir.simps split: option.splits ktree.splits)

lemma scan_roots_finds:
  assumes "r \<in> set ns" and "ktree_at src [r] = Some t" and "\<And>d. has_config (scan_dir t d) m c"
  shows "scan_roots src ns d = Inr d' \<Longrightarrow> has_config d' m c"
  using assms(1)
proof (induction ns arbitrary: d)
  case (Cons n ns)
  show ?case
  proof (cases "n = r")
    case True
    then have "scan_roots src ns (scan_dir t d) = Inr d'"
      using Cons.prems(1) assms(2) by (auto split: ktree.splits)
    then show ?thesis by (rule scan_roots_mono) (rule assms(3))
  next
    case False
    with Cons show ?thesis by (auto split: option.splits ktree.splits)
  qed
qed simp

lemma get_configs_exact:
  assumes "has_config (module_to_configs db) m c"
  shows "c \<in> set (get_configs db m)"
proof -
  obtain cs where "dget (module_to_configs db) m = Some cs" "c \<in> set cs"
    using assms by (auto simp: has_config_def)
  then show ?thesis by (simp add: get_configs_def Let_def dget_default_def)
qed

subsection \<open>Properties\<close>


definition sample_makefile :: "str list" where
  "sample_makefile = [''# SPDX'', ''obj-$(CONFIG_IGB) += igb.o'', ''igb-y := main.o'']"

definition sample_files :: "(str \<times> ktree) list" where
  "sample_files = [(''Makefile'', KFile (Some (unlines sample_makefile)))]"

definition sample_drivers :: ktree where
  "sample_drivers = KDir True [(''net'', KDir True sample_files)]"

definition sample_tree :: ktree where
  "sample_tree = KDir True [(''drivers'', sample_drivers)]"


end
