(* ===== verification/Kconfig.thy ===== *)
theory Kconfig
  imports World PyRegex
begin

text \<open>
  \<^verbatim>\<open>kconfig_builder/kconfig.py\<close>: the Kconfig parser and the dependency resolver.
  A Python set of symbols is a list without duplicates. The order in which Python enumerates a
  set is not fixed, so the result of the resolver is characterised as a set, for every order.
\<close>

subsection \<open>Entries\<close>

record kconfig_entry =
  ke_name :: str
  ke_kind :: str
  ke_prompt :: str
  ke_depends :: "str list"
  ke_selects :: "str list"
  ke_implies :: "str list"

definition sym_char :: "char \<Rightarrow> bool" where
  "sym_char c \<longleftrightarrow> is_upper c \<or> is_digit c \<or> c = CHR ''_''"

definition not_close :: "char \<Rightarrow> bool" where
  "not_close c \<longleftrightarrow> c \<noteq> CHR '')''"

definition SYMBOL_RE :: rx where
  "SYMBOL_RE = seq_rx [WordB, Grp 1 (Seq (Cls is_upper) (Rep sym_char 2)), WordB]"

definition NEG_PAREN_RE :: rx where
  "NEG_PAREN_RE = seq_rx [chr_rx CHR ''!'', sp, chr_rx CHR ''('', Rep not_close 0, chr_rx CHR '')'']"

definition NEG_SYMBOL_RE :: rx where
  "NEG_SYMBOL_RE = seq_rx [chr_rx CHR ''!'', sp, Cls is_upper, Rep sym_char 0]"

definition not_symbols :: "str list" where
  "not_symbols = [''n'', ''y'', ''m'', ''MODULES'']"

definition expr_symbols :: "str \<Rightarrow> str list" where
  "expr_symbols expr =
     filter (\<lambda>s. s \<notin> set not_symbols)
       (map (group 1) (finditer SYMBOL_RE (re_sub NEG_SYMBOL_RE [] (re_sub NEG_PAREN_RE [] expr))))"

definition depends_symbols :: "kconfig_entry \<Rightarrow> str list" where
  "depends_symbols en = remdups (concat (map expr_symbols (ke_depends en)))"

subsection \<open>Parsing entries\<close>

definition new_entry :: "str \<Rightarrow> kconfig_entry" where
  "new_entry name = \<lparr>ke_name = name, ke_kind = [], ke_prompt = [], ke_depends = [], ke_selects = [], ke_implies = []\<rparr>"

definition type_words :: "str list" where
  "type_words = [''bool'', ''tristate'', ''int'', ''string'', ''hex'']"

definition body_line :: "str \<Rightarrow> kconfig_entry \<Rightarrow> kconfig_entry" where
  "body_line b en =
     (if list_ex (\<lambda>t. starts_with t b) type_words then
        (case split_first b of
           k # p # _ \<Rightarrow> en\<lparr>ke_kind := k, ke_prompt := strip_chars [CHR 0x22] p\<rparr>
         | [k] \<Rightarrow> en\<lparr>ke_kind := k\<rparr>
         | [] \<Rightarrow> en)
      else if starts_with ''depends on '' b then
        en\<lparr>ke_depends := ke_depends en @ [strip (drop 11 b)]\<rparr>
      else if starts_with ''select '' b then
        (case words (drop 7 b) of [] \<Rightarrow> en | t # _ \<Rightarrow> en\<lparr>ke_selects := ke_selects en @ [t]\<rparr>)
      else if starts_with ''imply '' b then
        (case words (drop 6 b) of [] \<Rightarrow> en | t # _ \<Rightarrow> en\<lparr>ke_implies := ke_implies en @ [t]\<rparr>)
      else en)"

text \<open>The lines of an entry's body; the first line that is neither blank nor indented ends it.\<close>

fun parse_body :: "str list \<Rightarrow> kconfig_entry \<Rightarrow> kconfig_entry \<times> str list" where
  "parse_body [] en = (en, [])"
| "parse_body (l # ls) en =
     (let b = strip l
      in if b = [] then parse_body ls en
         else if l \<noteq> [] \<and> hd l \<notin> {CHR 0x09, CHR '' ''} then (en, l # ls)
         else parse_body ls (body_line b en))"

definition header_name :: "str \<Rightarrow> str option" where
  "header_name l =
     (let s = strip l
      in if \<not> (starts_with ''config '' s \<or> starts_with ''menuconfig '' s) then None
         else (case words s of _ # n # _ \<Rightarrow> Some n | _ \<Rightarrow> None))"

lemma parse_body_length: "length (snd (parse_body ls en)) \<le> length ls"
  by (induction ls en rule: parse_body.induct) (auto simp: Let_def)

function parse_lines :: "str list \<Rightarrow> (str, kconfig_entry) dict \<Rightarrow> (str, kconfig_entry) dict" where
  "parse_lines [] d = d"
| "parse_lines (l # ls) d =
     (case header_name l of
        None \<Rightarrow> parse_lines ls d
      | Some n \<Rightarrow> (case parse_body ls (new_entry n) of (en, rest) \<Rightarrow> parse_lines rest (dset n en d)))"
  by pat_completeness auto
termination
  by (relation "measure (\<lambda>(ls, d). length ls)")
    (auto simp: le_imp_less_Suc, metis le_imp_less_Suc parse_body_length snd_conv)

definition parse_entries :: "str \<Rightarrow> (str, kconfig_entry) dict \<Rightarrow> (str, kconfig_entry) dict" where
  "parse_entries content d = parse_lines (splitlines content) d"

subsection \<open>Files\<close>

text \<open>
  The source tree: its root, the files by path, and the operating system's resolution of a path
  to its canonical form. The content of an unreadable file is missing.
\<close>

record ksource =
  k_src :: path
  k_file :: "path \<Rightarrow> node option"
  k_resolve :: "path \<Rightarrow> path"

record kconfig_db =
  k_entries :: "(str, kconfig_entry) dict"
  k_visited :: "path list"

definition empty_kdb :: kconfig_db where
  "empty_kdb = \<lparr>k_entries = [], k_visited = []\<rparr>"

definition source_char :: "char \<Rightarrow> bool" where
  "source_char c \<longleftrightarrow> c \<noteq> CHR 0x22 \<and> c \<noteq> CHR ''#'' \<and> c \<noteq> CHR 0x0A"

definition SOURCE_RE :: rx where
  "SOURCE_RE = seq_rx [LineB, sp, Opt (lit ''or''), lit ''source'', Rep is_space 1,
     Opt (chr_rx CHR 0x22), Grp 1 (Rep source_char 1), Opt (chr_rx CHR 0x22)]"

definition SRCTREE_RE :: rx where
  "SRCTREE_RE = lit ''$(srctree)''"

definition SRCDIR_RE :: rx where
  "SRCDIR_RE = lit ''$(src)''"

definition k_exists :: "ksource \<Rightarrow> path \<Rightarrow> bool" where
  "k_exists k p \<longleftrightarrow> k_file k p \<noteq> None"

definition resolve_src_path :: "ksource \<Rightarrow> str \<Rightarrow> path \<Rightarrow> path option" where
  "resolve_src_path k s from =
     (let p = mk_path (re_sub SRCDIR_RE (str_path from) (re_sub SRCTREE_RE (str_path (k_src k)) (strip s)))
      in if is_absolute p then (if k_exists k p then Some p else None)
         else find (k_exists k) (map (\<lambda>base. path_join base p) [k_src k, from]))"

definition source_names :: "str \<Rightarrow> str list" where
  "source_names content = map (group 1) (finditer SOURCE_RE content)"

text \<open>The paths a file's source directives lead to.\<close>

definition source_paths :: "ksource \<Rightarrow> path \<Rightarrow> str \<Rightarrow> path list" where
  "source_paths k p content = List.map_filter (\<lambda>s. resolve_src_path k s (path_parent p)) (source_names content)"

text \<open>\<^verbatim>\<open>_parse_file\<close>, with fuel for the depth of the recursion.\<close>

fun parse_file :: "nat \<Rightarrow> ksource \<Rightarrow> path \<Rightarrow> kconfig_db \<Rightarrow> kconfig_db option"
  and parse_files :: "nat \<Rightarrow> ksource \<Rightarrow> path list \<Rightarrow> kconfig_db \<Rightarrow> kconfig_db option" where
  "parse_file 0 k p db = None"
| "parse_file (Suc n) k p db =
     (if k_resolve k p \<in> set (k_visited db) then Some db
      else (let db1 = db\<lparr>k_visited := k_resolve k p # k_visited db\<rparr>
            in case k_file k p of
                 Some (FFile content) \<Rightarrow>
                   map_option (\<lambda>db2. db2\<lparr>k_entries := parse_entries content (k_entries db2)\<rparr>)
                     (parse_files n k (source_paths k p content) db1)
               | _ \<Rightarrow> Some db1))"
| "parse_files n k [] db = Some db"
| "parse_files n k (p # ps) db = Option.bind (parse_file n k p db) (parse_files n k ps)"

definition load_kconfig :: "nat \<Rightarrow> ksource \<Rightarrow> kconfig_db option" where
  "load_kconfig n k =
     (let top = path_div (k_src k) [''Kconfig'']
      in if k_exists k top then parse_file n k top empty_kdb else Some empty_kdb)"

definition get_entry :: "kconfig_db \<Rightarrow> str \<Rightarrow> kconfig_entry option" where
  "get_entry db name = dget (k_entries db) name"

definition entry_count :: "kconfig_db \<Rightarrow> nat" where
  "entry_count db = length (k_entries db)"

subsection \<open>Dependency resolution\<close>

definition successors :: "kconfig_entry \<Rightarrow> str list" where
  "successors en = ke_selects en @ ke_implies en @ depends_symbols en"

text \<open>The queue is popped from its end. An entry is never false in a condition, so only a missing one is skipped.\<close>

function resolve_loop :: "(str, kconfig_entry) dict \<Rightarrow> str list \<Rightarrow> str list \<Rightarrow> str list" where
  "resolve_loop d resolved queue =
     (if queue = [] then resolved
      else let sym = last queue; rest = butlast queue
           in if sym \<in> set resolved then resolve_loop d resolved rest
              else (case dget d sym of
                      None \<Rightarrow> resolve_loop d (resolved @ [sym]) rest
                    | Some en \<Rightarrow> resolve_loop d (resolved @ [sym])
                        (rest @ filter (\<lambda>s. s \<notin> set (resolved @ [sym])) (successors en))))"
  by pat_completeness auto
termination
proof (relation "measures [\<lambda>(d, resolved, queue). card {k \<in> fst ` set d. k \<notin> set resolved}, \<lambda>(d, resolved, queue). length queue]",
    goal_cases)
  case (4 d resolved queue sym rest en)
  then have "sym \<in> fst ` set d" by (metis map_of_eq_None_iff option.distinct(1))
  moreover have "{k \<in> fst ` set d. k \<notin> set (resolved @ [sym])} = {k \<in> fst ` set d. k \<notin> set resolved} - {sym}"
    by auto
  moreover have "finite {k \<in> fst ` set d. k \<notin> set resolved}" by simp
  ultimately have "card {k \<in> fst ` set d. k \<notin> set (resolved @ [sym])} < card {k \<in> fst ` set d. k \<notin> set resolved}"
    using 4 by (metis (mono_tags, lifting) card_Diff1_less mem_Collect_eq)
  then show ?case by simp
next
  case (3 d resolved queue sym rest)
  define A where "A = fst ` set d"
  have "sym \<notin> A" using 3 by (simp add: A_def map_of_eq_None_iff)
  then have "{k \<in> A. k \<notin> set (resolved @ [sym])} = {k \<in> A. k \<notin> set resolved}" by auto
  then have "{k \<in> fst ` set d. k \<notin> set (resolved @ [sym])} = {k \<in> fst ` set d. k \<notin> set resolved}"
    by (simp only: A_def)
  then show ?case using 3 by simp
qed auto

declare resolve_loop.simps [simp del]

definition resolve_dependencies :: "kconfig_db \<Rightarrow> str list \<Rightarrow> str list" where
  "resolve_dependencies db symbols = resolve_loop (k_entries db) [] symbols"

subsection \<open>The resolver computes the closure\<close>

text \<open>The symbols that are needed for a set of symbols: the least set that contains it and what its entries select, imply and depend on.\<close>

inductive needed :: "(str, kconfig_entry) dict \<Rightarrow> str set \<Rightarrow> str \<Rightarrow> bool" for d S where
  needed_base: "x \<in> S \<Longrightarrow> needed d S x"
| needed_select: "needed d S x \<Longrightarrow> dget d x = Some en \<Longrightarrow> y \<in> set (ke_selects en) \<Longrightarrow> needed d S y"
| needed_imply: "needed d S x \<Longrightarrow> dget d x = Some en \<Longrightarrow> y \<in> set (ke_implies en) \<Longrightarrow> needed d S y"
| needed_depend: "needed d S x \<Longrightarrow> dget d x = Some en \<Longrightarrow> y \<in> set (depends_symbols en) \<Longrightarrow> needed d S y"

lemma needed_step: "needed d S x \<Longrightarrow> dget d x = Some en \<Longrightarrow> y \<in> set (successors en) \<Longrightarrow> needed d S y"
  by (auto simp: successors_def intro: needed.intros)

definition pending_closed :: "(str, kconfig_entry) dict \<Rightarrow> str set \<Rightarrow> str set \<Rightarrow> bool" where
  "pending_closed d R Q \<longleftrightarrow> (\<forall>x \<in> R. \<forall>en. dget d x = Some en \<longrightarrow> set (successors en) \<subseteq> R \<union> Q)"

lemma needed_mono: "needed d S x \<Longrightarrow> S \<subseteq> T \<Longrightarrow> needed d T x"
  by (induction rule: needed.induct) (auto intro: needed.intros)

lemma queue_set: "q \<noteq> [] \<Longrightarrow> set q = insert (last q) (set (butlast q))"
  by (metis append_butlast_last_id list.set(1) list.simps(15) set_append Un_insert_right sup_bot_right)

lemma resolve_loop_props:
  "set resolved \<union> set queue \<subseteq> set (resolve_loop d resolved queue)
   \<and> (pending_closed d (set resolved) (set queue) \<longrightarrow> pending_closed d (set (resolve_loop d resolved queue)) {})
   \<and> (\<forall>x \<in> set (resolve_loop d resolved queue). needed d (set resolved \<union> set queue) x)
   \<and> (distinct resolved \<longrightarrow> distinct (resolve_loop d resolved queue))"
proof (induction d resolved queue rule: resolve_loop.induct)
  case (1 d resolved queue)
  let ?P = "\<lambda>resolved' queue'. set resolved' \<union> set queue' \<subseteq> set (resolve_loop d resolved' queue')
    \<and> (pending_closed d (set resolved') (set queue') \<longrightarrow> pending_closed d (set (resolve_loop d resolved' queue')) {})
    \<and> (\<forall>x \<in> set (resolve_loop d resolved' queue'). needed d (set resolved' \<union> set queue') x)
    \<and> (distinct resolved' \<longrightarrow> distinct (resolve_loop d resolved' queue'))"
  show ?case
  proof (cases "queue = []")
    case True
    moreover have "resolve_loop d resolved [] = resolved" by (simp add: resolve_loop.simps)
    ultimately show ?thesis by (auto intro: needed_base)
  next
    case ne: False
    let ?sym = "last queue" and ?rest = "butlast queue"
    note qs = queue_set [OF ne]
    show ?thesis
    proof (cases "?sym \<in> set resolved")
      case True
      then have eq: "resolve_loop d resolved queue = resolve_loop d resolved ?rest"
        using ne by (simp add: resolve_loop.simps [of d resolved queue] Let_def)
      have "set resolved \<union> set queue = set resolved \<union> set ?rest" using True qs by auto
      then show ?thesis using "1.IH"(1) [OF ne refl refl True] unfolding eq pending_closed_def by simp
    next
      case new: False
      show ?thesis
      proof (cases "dget d ?sym")
        case None
        then have eq: "resolve_loop d resolved queue = resolve_loop d (resolved @ [?sym]) ?rest"
          using ne new by (simp add: resolve_loop.simps [of d resolved queue] Let_def)
        have u: "set resolved \<union> set queue = set (resolved @ [?sym]) \<union> set ?rest" using qs by auto
        then have "pending_closed d (set resolved) (set queue) \<Longrightarrow> pending_closed d (set (resolved @ [?sym])) (set ?rest)"
          using None by (auto simp: pending_closed_def)
        with "1.IH"(2) [OF ne refl refl new None] u new show ?thesis unfolding eq by simp
      next
        case (Some en)
        let ?q = "?rest @ filter (\<lambda>s. s \<notin> set (resolved @ [?sym])) (successors en)"
        have eq: "resolve_loop d resolved queue = resolve_loop d (resolved @ [?sym]) ?q"
          using ne new Some by (simp add: resolve_loop.simps [of d resolved queue] Let_def)
        have IH: "?P (resolved @ [?sym]) ?q" by (rule "1.IH"(3) [OF ne refl refl new Some])
        have u: "set resolved \<union> set queue \<subseteq> set (resolved @ [?sym]) \<union> set ?q" using qs by auto
        have "pending_closed d (set resolved) (set queue) \<Longrightarrow> pending_closed d (set (resolved @ [?sym])) (set ?q)"
        proof -
          assume pc: "pending_closed d (set resolved) (set queue)"
          have "set (successors en) \<subseteq> set (resolved @ [?sym]) \<union> set ?q" by auto
          moreover have "set (successors e2) \<subseteq> set (resolved @ [?sym]) \<union> set ?q"
            if "x \<in> set resolved" "dget d x = Some e2" for x e2
            using pc that u unfolding pending_closed_def by (meson order_trans)
          ultimately show ?thesis using Some unfolding pending_closed_def by auto
        qed
        moreover have "needed d (set resolved \<union> set queue) x" if "needed d (set (resolved @ [?sym]) \<union> set ?q) x" for x
          using that
        proof (induction rule: needed.induct)
          case (needed_base x)
          then consider "x \<in> set resolved \<union> set queue" | "x \<in> set (successors en)" using qs by auto
          then show ?case
            by cases (auto intro: needed.needed_base needed_step [of d _ ?sym en] simp: qs Some)
        qed (rule needed_select needed_imply needed_depend; assumption)+
        ultimately show ?thesis using IH u new unfolding eq by auto
      qed
    qed
  qed
qed

lemma resolve_dependencies_needed:
  "set (resolve_dependencies db symbols) = {x. needed (k_entries db) (set symbols) x}"
proof -
  let ?d = "k_entries db" and ?R = "set (resolve_dependencies db symbols)"
  have props: "set symbols \<subseteq> ?R" "pending_closed ?d ?R {}" "\<forall>x \<in> ?R. needed ?d (set symbols) x"
    using resolve_loop_props [of "[]" symbols ?d] by (simp_all add: resolve_dependencies_def pending_closed_def)
  have "x \<in> ?R" if "needed ?d (set symbols) x" for x
    using that by induction (use props(1,2) in \<open>simp add: pending_closed_def successors_def; blast\<close>)+
  with props(3) show ?thesis by auto
qed

lemma resolve_dependencies_distinct: "distinct (resolve_dependencies db symbols)"
  using resolve_loop_props [of "[]" symbols "k_entries db"] by (simp add: resolve_dependencies_def)

subsection \<open>Loading ends and covers every file reached\<close>

definition file_keys :: "ksource \<Rightarrow> path set" where
  "file_keys k = k_resolve k ` {p. k_exists k p}"

lemma source_paths_exist: "q \<in> set (source_paths k p content) \<Longrightarrow> k_exists k q"
proof -
  have "resolve_src_path k s from = Some q \<Longrightarrow> k_exists k q" for s "from" q
    by (auto simp: resolve_src_path_def Let_def find_Some_iff split: if_splits)
  then show "q \<in> set (source_paths k p content) \<Longrightarrow> k_exists k q"
    by (auto simp: source_paths_def map_filter_def)
qed

lemma card_visited:
  "finite K \<Longrightarrow> card (K - V) < n \<Longrightarrow> V \<subseteq> V' \<Longrightarrow> card (K - V') < n"
  by (meson card_mono Diff_mono finite_Diff le_less_trans order_refl)

lemma parse_file_enough:
  assumes fin: "finite (file_keys k)"
  shows "k_exists k p \<Longrightarrow> card (file_keys k - set (k_visited db)) < n \<Longrightarrow>
      \<exists>db'. parse_file n k p db = Some db' \<and> set (k_visited db) \<subseteq> set (k_visited db')"
    and "\<forall>p \<in> set ps. k_exists k p \<Longrightarrow> card (file_keys k - set (k_visited db)) < n \<Longrightarrow>
      \<exists>db'. parse_files n k ps db = Some db' \<and> set (k_visited db) \<subseteq> set (k_visited db')"
  using fin
proof (induction n k p db and n k ps db rule: parse_file_parse_files.induct)
  case (2 n k p db)
  let ?key = "k_resolve k p"
  show ?case
  proof (cases "?key \<in> set (k_visited db)")
    case False
    let ?db1 = "db\<lparr>k_visited := ?key # k_visited db\<rparr>"
    have "?key \<in> file_keys k - set (k_visited db)" using 2 False by (simp add: file_keys_def)
    moreover have "file_keys k - set (k_visited ?db1) = file_keys k - set (k_visited db) - {?key}" by auto
    ultimately have "card (file_keys k - set (k_visited ?db1)) < n"
      using 2 by (metis card_Diff1_less finite_Diff le_less_trans less_SucE not_less_eq order_less_le_trans less_Suc_eq_le)
    then have "\<exists>db'. parse_files n k (source_paths k p content) ?db1 = Some db' \<and> set (k_visited ?db1) \<subseteq> set (k_visited db')"
      if "k_file k p = Some (FFile content)" for content
      using "2.IH" [OF False refl] that source_paths_exist 2 by blast
    then show ?thesis using False by (fastforce simp: Let_def split: option.splits node.splits)
  qed simp
next
  case (4 n k p ps db)
  then obtain db1 where 1: "parse_file n k p db = Some db1" "set (k_visited db) \<subseteq> set (k_visited db1)"
    by auto
  then obtain db2 where "parse_files n k ps db1 = Some db2" "set (k_visited db1) \<subseteq> set (k_visited db2)"
    using "4.IH"(2) [of db1] card_visited 4 by (metis list.set_intros(2))
  with 1 show ?case by auto
qed simp_all

text \<open>The headers that open an entry: those not swallowed by the body of the entry before.\<close>

function headers :: "str list \<Rightarrow> str list" where
  "headers [] = []"
| "headers (l # ls) =
     (case header_name l of
        None \<Rightarrow> headers ls
      | Some n \<Rightarrow> n # headers (snd (parse_body ls (new_entry n))))"
  by pat_completeness auto
termination
  by (relation "measure length") (auto simp: le_imp_less_Suc parse_body_length)

lemma parse_lines_headers: "fst ` set (parse_lines ls d) = fst ` set d \<union> set (headers ls)"
proof (induction ls d rule: parse_lines.induct)
  case (2 l ls d)
  show ?case
  proof (cases "header_name l")
    case None
    with 2 show ?thesis by simp
  next
    case (Some n)
    obtain en rest where b: "parse_body ls (new_entry n) = (en, rest)" by (cases "parse_body ls (new_entry n)")
    with 2 Some show ?thesis by (simp add: dict_simps)
  qed
qed simp

lemma parse_lines_keys: "fst ` set d \<subseteq> fst ` set (parse_lines ls d)"
  by (simp add: parse_lines_headers)

definition covered :: "ksource \<Rightarrow> kconfig_db \<Rightarrow> path \<Rightarrow> str \<Rightarrow> bool" where
  "covered k db p content \<longleftrightarrow> set (headers (splitlines content)) \<subseteq> fst ` set (k_entries db)
     \<and> (\<forall>q \<in> set (source_paths k p content). k_resolve k q \<in> set (k_visited db))"

definition k_le :: "kconfig_db \<Rightarrow> kconfig_db \<Rightarrow> bool" where
  "k_le a b \<longleftrightarrow> set (k_visited a) \<subseteq> set (k_visited b) \<and> fst ` set (k_entries a) \<subseteq> fst ` set (k_entries b)"

definition all_covered :: "ksource \<Rightarrow> kconfig_db \<Rightarrow> path set \<Rightarrow> bool" where
  "all_covered k db V \<longleftrightarrow> (\<forall>key \<in> V. \<exists>p. k_resolve k p = key
     \<and> (\<forall>content. k_file k p = Some (FFile content) \<longrightarrow> covered k db p content))"

lemma k_le_trans: "k_le a b \<Longrightarrow> k_le b c \<Longrightarrow> k_le a c"
  unfolding k_le_def by (meson subset_trans)

lemma covered_mono: "covered k a p c \<Longrightarrow> k_le a b \<Longrightarrow> covered k b p c"
  unfolding covered_def k_le_def by (meson subset_iff)

lemma all_covered_mono: "all_covered k a V \<Longrightarrow> k_le a b \<Longrightarrow> all_covered k b V"
  unfolding all_covered_def by (meson covered_mono)

lemma all_covered_Un: "all_covered k db (A \<union> B) \<longleftrightarrow> all_covered k db A \<and> all_covered k db B"
  by (auto simp: all_covered_def)

lemma all_covered_subset: "A \<subseteq> B \<Longrightarrow> all_covered k db B \<Longrightarrow> all_covered k db A"
  unfolding all_covered_def by blast

lemma parse_file_covers:
  "parse_file n k p db = Some db' \<Longrightarrow> k_le db db' \<and> k_resolve k p \<in> set (k_visited db')
     \<and> all_covered k db' (set (k_visited db') - set (k_visited db))"
  and "parse_files n k ps db = Some db' \<Longrightarrow> k_le db db' \<and> k_resolve k ` set ps \<subseteq> set (k_visited db')
     \<and> all_covered k db' (set (k_visited db') - set (k_visited db))"
proof (induction n k p db and n k ps db arbitrary: db' and db' rule: parse_file_parse_files.induct)
  case (2 n k p db)
  let ?key = "k_resolve k p"
  show ?case
  proof (cases "?key \<in> set (k_visited db)")
    case True
    with 2 show ?thesis by (simp add: k_le_def all_covered_def)
  next
    case new: False
    let ?db1 = "db\<lparr>k_visited := ?key # k_visited db\<rparr>"
    have le1: "k_le db ?db1" by (auto simp: k_le_def)
    show ?thesis
    proof (cases "\<exists>content. k_file k p = Some (FFile content)")
      case True
      then obtain content where c: "k_file k p = Some (FFile content)" by blast
      then obtain db2 where db2: "parse_files n k (source_paths k p content) ?db1 = Some db2"
        "db' = db2\<lparr>k_entries := parse_entries content (k_entries db2)\<rparr>"
        using "2.prems" new by (auto simp: Let_def)
      note IH = "2.IH" [OF new refl c refl db2(1)]
      have le2: "k_le db2 db'" using parse_lines_keys by (auto simp: db2(2) k_le_def parse_entries_def)
      have cov: "covered k db' p content"
        using IH le2 by (auto simp: covered_def db2(2) parse_entries_def parse_lines_headers)
      then have "all_covered k db' {?key}" using c by (auto simp: all_covered_def)
      moreover have "all_covered k db' (set (k_visited db2) - set (k_visited ?db1))"
        using IH le2 all_covered_mono by blast
      moreover have "set (k_visited db') - set (k_visited db) \<subseteq> {?key} \<union> (set (k_visited db2) - set (k_visited ?db1))"
        by (auto simp: db2(2))
      ultimately have "all_covered k db' (set (k_visited db') - set (k_visited db))"
        by (meson all_covered_Un all_covered_subset)
      moreover have "k_le db db'" by (rule k_le_trans [OF le1 k_le_trans [OF conjunct1 [OF IH] le2]])
      moreover have "?key \<in> set (k_visited db')" using IH le2 by (auto simp: k_le_def)
      ultimately show ?thesis by blast
    next
      case False
      then have db': "db' = ?db1" using "2.prems" new by (auto simp: Let_def split: option.splits node.splits)
      have "all_covered k ?db1 {?key}" using False by (auto simp: all_covered_def)
      moreover have "set (k_visited ?db1) - set (k_visited db) = {?key}" using new by auto
      ultimately show ?thesis using le1 by (simp add: db')
    qed
  qed
next
  case (4 n k p ps db)
  then obtain db1 where 1: "parse_file n k p db = Some db1" "parse_files n k ps db1 = Some db'" by (auto split: bind_splits)
  have a: "k_le db db1" "k_resolve k p \<in> set (k_visited db1)"
    "all_covered k db1 (set (k_visited db1) - set (k_visited db))" using "4.IH"(1) [OF 1(1)] by auto
  have b: "k_le db1 db'" "k_resolve k ` set ps \<subseteq> set (k_visited db')"
    "all_covered k db' (set (k_visited db') - set (k_visited db1))" using "4.IH"(2) [OF 1] by auto
  have "all_covered k db' (set (k_visited db1) - set (k_visited db))" using a(3) b(1) by (rule all_covered_mono)
  moreover have "set (k_visited db') - set (k_visited db)
      \<subseteq> (set (k_visited db1) - set (k_visited db)) \<union> (set (k_visited db') - set (k_visited db1))" by blast
  ultimately have "all_covered k db' (set (k_visited db') - set (k_visited db))"
    using b(3) by (meson all_covered_Un all_covered_subset)
  moreover have "k_le db db'" by (rule k_le_trans [OF a(1) b(1)])
  moreover have "k_resolve k p \<in> set (k_visited db')" using a(2) b(1) by (auto simp: k_le_def)
  ultimately show ?case using b(2) by simp
qed (simp_all add: k_le_def all_covered_def)

subsection \<open>Properties\<close>

text \<open>
  C9. The resolver ends and returns, without duplicates, exactly the symbols needed for the
  given ones: the least set that contains them and, with a symbol, what its entry selects, implies
  and depends on. The order of the input, and so the order Python enumerates a set in, does not matter.
\<close>

theorem resolver_is_closure:
  "set (resolve_dependencies db symbols) = {x. needed (k_entries db) (set symbols) x}
   \<and> distinct (resolve_dependencies db symbols)"
  by (simp add: resolve_dependencies_needed resolve_dependencies_distinct)

text \<open>
  C28. Loading a source tree with finitely many files ends, within a recursion depth of one more
  than their number, even when files source each other in a circle.
\<close>

theorem load_terminates:
  assumes "finite (file_keys k)" and "card (file_keys k) < n"
  shows "\<exists>db. load_kconfig n k = Some db"
  using parse_file_enough(1) [OF assms(1), of "path_div (k_src k) [''Kconfig'']" empty_kdb n] assms(2)
  by (auto simp: load_kconfig_def Let_def empty_kdb_def)

definition ring_source :: ksource where
  "ring_source = \<lparr>k_src = mk_path ''/s'',
     k_file = (\<lambda>p. if p = mk_path ''/s/Kconfig'' then Some (FFile (unlines [''source b'', ''config A'', CHR 0x09 # ''bool'']))
       else if p = mk_path ''/s/b'' then Some (FFile (unlines [''source Kconfig'', ''config B''])) else None),
     k_resolve = (\<lambda>p. p)\<rparr>"

lemma ring_files: "file_keys ring_source = {mk_path ''/s/Kconfig'', mk_path ''/s/b''}"
  by (auto simp: file_keys_def ring_source_def k_exists_def)

theorem load_terminates_witness: "\<exists>db. load_kconfig 3 ring_source = Some db"
proof (rule load_terminates)
  show "finite (file_keys ring_source)" by (simp add: ring_files)
  have "card (file_keys ring_source) \<le> 2" unfolding ring_files by (rule card_insert_le_m1) simp_all
  then show "card (file_keys ring_source) < 3" by simp
qed

text \<open>
  C29. What loading visits is closed: for each visited file, every configuration header that
  opens an entry has an entry in the result, and every existing file it sources is visited too.
\<close>

theorem load_covers:
  assumes "load_kconfig n k = Some db" and "k_exists k (path_div (k_src k) [''Kconfig''])"
  shows "k_resolve k (path_div (k_src k) [''Kconfig'']) \<in> set (k_visited db)
     \<and> all_covered k db (set (k_visited db))"
  using parse_file_covers(1) [of n k "path_div (k_src k) [''Kconfig'']" empty_kdb db] assms
  by (simp add: load_kconfig_def Let_def empty_kdb_def)

theorem load_covers_witness:
  "\<exists>db. load_kconfig 3 ring_source = Some db \<and> all_covered ring_source db (set (k_visited db))"
proof -
  have "load_kconfig 3 ring_source \<noteq> None" by code_simp
  then obtain db where "load_kconfig 3 ring_source = Some db" by blast
  moreover have "k_exists ring_source (path_div (k_src ring_source) [''Kconfig''])" by code_simp
  ultimately show ?thesis using load_covers [of 3 ring_source db] by blast
qed

text \<open>
  The body of an entry includes its help text, and a help line that starts with the word
  select is read as a select attribute: prose becomes a symbol.
\<close>

theorem help_text_selects:
  "map_option ke_selects (dget (parse_entries (unlines [''config NET'', CHR 0x09 # ''bool'', CHR 0x09 # ''help'',
     CHR 0x09 # ''  select this option to use a network'']) []) ''NET'') = Some [''this'']"
  by code_simp

end
