(* ===== verification/KconfigText.thy ===== *)
theory KconfigText
  imports Kconfig
begin

text \<open>
  What the Kconfig parser reads from text of the usual shape: the entries of a file written
  line by line, and the symbols of a dependency expression.
\<close>

subsection \<open>Symbols of an expression\<close>

lemma sym_char_word: "sym_char c \<Longrightarrow> is_word c"
  by (auto simp: sym_char_def is_word_def)

lemma upper_sym_char: "is_upper c \<Longrightarrow> sym_char c"
  by (simp add: sym_char_def)

definition symbol_ok :: "str \<Rightarrow> bool" where
  "symbol_ok n \<longleftrightarrow> is_upper (hd n) \<and> 3 \<le> length n"

definition sym_name :: "str \<Rightarrow> bool" where
  "sym_name n \<longleftrightarrow> n \<noteq> [] \<and> list_all sym_char n"

definition ends_word :: "str \<Rightarrow> bool" where
  "ends_word s \<longleftrightarrow> s = [] \<or> \<not> is_word (hd s)"

definition before_word :: "char option \<Rightarrow> bool" where
  "before_word p \<longleftrightarrow> (case p of None \<Rightarrow> True | Some c \<Rightarrow> \<not> is_word c)"

lemma symbol_no_match: "\<not> is_upper c \<or> \<not> at_word p (c # s) \<Longrightarrow> match_at SYMBOL_RE p (c # s) = None"
  by (auto simp: match_at_def SYMBOL_RE_def)

lemma symbol_match:
  assumes "sym_name n" and "symbol_ok n" and "ends_word s" and "before_word p"
  shows "match_at SYMBOL_RE p (n @ s) = Some (Some (last n), s, [(1, n)])"
proof -
  obtain c cs where n: "n = c # cs" "is_upper c" "2 \<le> length cs" "\<forall>x \<in> set cs. sym_char x"
    using assms(1,2) by (cases n) (auto simp: sym_name_def symbol_ok_def list_all_iff)
  have cs: "cs \<noteq> []" using n(3) by auto
  let ?k = "\<lambda>(p', s', g'). rmatch (seq_rx [WordB]) (p', s', (1, take (length (n @ s) - length s') (n @ s)) # g') Some"
  have "is_word (last n)" "is_word c"
    using n sym_char_word upper_sym_char by (auto simp: n(1))
  then have w: "at_word (Some (last n)) s" "at_word p (c # cs @ s)"
    using assms(3,4) by (auto simp: at_word_def ends_word_def before_word_def split: option.splits list.splits)
  have "rep sym_char 2 (Some c) (cs @ s) [] ?k = Some (Some (last n), s, [(1, n)])"
  proof (rule rep_span)
    show "s = [] \<or> \<not> sym_char (hd s)" using assms(3) sym_char_word by (auto simp: ends_word_def)
    show "?k (if cs = [] then Some c else Some (last cs), s, []) = Some (Some (last n), s, [(1, n)])"
      using w(1) cs by (simp add: n(1))
  qed (use n in auto)
  then show ?thesis using w(2) n(2) by (simp add: match_at_def SYMBOL_RE_def n(1))
qed

lemma rep_short:
  "length cs < n \<Longrightarrow> s = [] \<or> \<not> P (hd s) \<Longrightarrow> rep P n p (cs @ s) g k = None"
proof (induction cs arbitrary: n p)
  case Nil
  then show ?case by (cases s) auto
next
  case (Cons c cs)
  then have "rep P (n - 1) (Some c) (cs @ s) g k = None" by auto
  with Cons.prems show ?case by auto
qed

lemma symbol_short:
  assumes "sym_name n" and "\<not> symbol_ok n" and "ends_word s"
  shows "match_at SYMBOL_RE p (n @ s) = None"
proof -
  obtain c cs where n: "n = c # cs" by (cases n) (use assms(1) in \<open>auto simp: sym_name_def\<close>)
  have "rep sym_char 2 (Some c) (cs @ s) [] k = None" if "is_upper c" for k
    using that assms n sym_char_word by (intro rep_short) (auto simp: symbol_ok_def ends_word_def)
  then show ?thesis by (simp add: match_at_def SYMBOL_RE_def n)
qed

lemma find_symbols_inner:
  "\<forall>x \<in> set cs. is_word x \<Longrightarrow> is_word c \<Longrightarrow>
     find_all SYMBOL_RE (Some c) (cs @ s) = find_all SYMBOL_RE (Some (last (c # cs))) s"
proof (induction cs arbitrary: c)
  case (Cons x xs)
  then have "\<not> at_word (Some c) (x # xs @ s)" by (simp add: at_word_def)
  then have "find_all SYMBOL_RE (Some c) (x # xs @ s) = find_all SYMBOL_RE (Some x) (xs @ s)"
    by (intro find_all_skip symbol_no_match) simp
  with Cons show ?case by simp
qed simp

lemma find_symbols_name:
  assumes "sym_name n" and "ends_word s" and "before_word p"
  shows "find_all SYMBOL_RE p (n @ s) = (if symbol_ok n then [[(1, n)]] else []) @ find_all SYMBOL_RE (Some (last n)) s"
proof (cases "symbol_ok n")
  case True
  then show ?thesis using find_all_hit [OF symbol_match [OF assms(1) True assms(2,3)]] assms(1) by (simp add: sym_name_def)
next
  case False
  obtain c cs where n: "n = c # cs" by (cases n) (use assms(1) in \<open>auto simp: sym_name_def\<close>)
  have "find_all SYMBOL_RE p (c # cs @ s) = find_all SYMBOL_RE (Some c) (cs @ s)"
    using symbol_short [OF assms(1) False assms(2)] by (intro find_all_skip) (simp add: n)
  also have "\<dots> = find_all SYMBOL_RE (Some (last n)) s"
    using assms(1) sym_char_word by (subst find_symbols_inner) (auto simp: n sym_name_def list_all_iff)
  finally show ?thesis using False n by simp
qed

lemma find_symbols_gap:
  "\<forall>c \<in> set g. \<not> is_word c \<Longrightarrow> g \<noteq> [] \<Longrightarrow> find_all SYMBOL_RE p (g @ s) = find_all SYMBOL_RE (Some (last g)) s"
proof (induction g arbitrary: p)
  case (Cons c cs)
  then have "\<not> is_upper c" by (auto simp: is_word_def)
  then have "find_all SYMBOL_RE p (c # cs @ s) = find_all SYMBOL_RE (Some c) (cs @ s)"
    by (intro find_all_skip symbol_no_match) simp
  with Cons show ?case by (cases cs) auto
qed simp

text \<open>Literals joined by an operator; a negated literal is an exclamation mark and a symbol.\<close>

definition literal_text :: "bool \<times> str \<Rightarrow> str" where
  "literal_text l = (if fst l then CHR ''!'' # snd l else snd l)"

definition literal_ok :: "bool \<times> str \<Rightarrow> bool" where
  "literal_ok l \<longleftrightarrow> sym_name (snd l) \<and> (fst l \<longrightarrow> is_upper (hd (snd l)))"

definition kept_text :: "bool \<times> str \<Rightarrow> str" where
  "kept_text l = (if fst l then [] else snd l)"

definition kept_symbols :: "(bool \<times> str) list \<Rightarrow> str list" where
  "kept_symbols ls = filter (\<lambda>n. symbol_ok n \<and> n \<noteq> ''MODULES'') (map snd (filter (\<lambda>l. \<not> fst l) ls))"

lemma re_sub_impossible:
  assumes "\<And>t. lang r t \<Longrightarrow> c \<in> set t" and "c \<notin> set s"
  shows "re_sub r new s = s"
proof -
  have "match_at r p u = None" if "c \<notin> set u" for p u
    using match_at_lang [of r p u] assms(1) that by (cases "match_at r p u") fastforce+
  then have "sub_from r new p u = u" if "c \<notin> set u" for p u
    using that
  proof (induction u arbitrary: p)
    case (Cons x xs)
    then show ?case by (subst sub_from_skip) auto
  qed (subst sub_from.simps, simp)
  then show ?thesis using assms(2) by (simp add: re_sub_def)
qed

lemma sub_neg_skip: "c \<noteq> CHR ''!'' \<Longrightarrow> sub_from NEG_SYMBOL_RE new p (c # s) = c # sub_from NEG_SYMBOL_RE new (Some c) s"
  by (rule sub_from_skip) (simp add: match_at_def NEG_SYMBOL_RE_def chr_rx_def)

lemma sub_neg_text:
  "CHR ''!'' \<notin> set t \<Longrightarrow> \<exists>q. sub_from NEG_SYMBOL_RE new p (t @ s) = t @ sub_from NEG_SYMBOL_RE new q s"
  by (induction t arbitrary: p) (auto simp: sub_neg_skip)

lemma neg_match:
  assumes "sym_name n" and "is_upper (hd n)" and "ends_word s"
  shows "\<exists>q. match_at NEG_SYMBOL_RE p (CHR ''!'' # n @ s) = Some (q, s, [])"
proof -
  obtain c cs where n: "n = c # cs" "is_upper c" "\<forall>x \<in> set cs. sym_char x"
    using assms(1,2) by (cases n) (auto simp: sym_name_def list_all_iff)
  have "\<forall>c \<in> set ws_chars. \<not> is_upper c" by code_simp
  then have "\<not> is_space c" using n(2) by (auto simp: is_space_def)
  then have sp: "rmatch sp (Some CHR ''!'', c # cs @ s, []) k = k (Some CHR ''!'', c # cs @ s, [])" for k
    by (simp add: sp_def rep_none)
  have "rep sym_char 0 (Some c) (cs @ s) [] Some = Some (if cs = [] then Some c else Some (last cs), s, [])"
    by (rule rep_span) (use n(3) assms(3) sym_char_word in \<open>auto simp: ends_word_def\<close>)
  then show ?thesis by (simp add: match_at_def NEG_SYMBOL_RE_def chr_rx_def n sp)
qed

definition gap_ok :: "str \<Rightarrow> bool" where
  "gap_ok g \<longleftrightarrow> g \<noteq> [] \<and> (\<forall>c \<in> set g. \<not> is_word c \<and> c \<noteq> CHR ''!'' \<and> c \<noteq> CHR ''('')"

lemma sym_name_no_bang: "sym_name n \<Longrightarrow> CHR ''!'' \<notin> set n \<and> CHR ''('' \<notin> set n"
proof -
  have "\<not> sym_char CHR ''!''" "\<not> sym_char CHR ''(''" by code_simp+
  then show "sym_name n \<Longrightarrow> ?thesis" by (auto simp: sym_name_def list_all_iff)
qed

lemma sub_neg_literal:
  assumes "literal_ok l" and "ends_word s"
  shows "\<exists>q. sub_from NEG_SYMBOL_RE [] p (literal_text l @ s) = kept_text l @ sub_from NEG_SYMBOL_RE [] q s"
proof (cases "fst l")
  case True
  then obtain q where "match_at NEG_SYMBOL_RE p (CHR ''!'' # snd l @ s) = Some (q, s, [])"
    using neg_match [of "snd l" s p] assms by (auto simp: literal_ok_def)
  from sub_from_hit [OF this] True show ?thesis by (auto simp: literal_text_def kept_text_def)
next
  case False
  then show ?thesis using sub_neg_text [of "snd l" "[]" p s] sym_name_no_bang assms(1)
    by (simp add: literal_text_def kept_text_def literal_ok_def)
qed

lemma gap_ends_word: "gap_ok g \<Longrightarrow> ends_word (g @ s)"
  by (cases g) (auto simp: gap_ok_def ends_word_def)

lemma sub_neg_join:
  assumes "gap_ok g"
  shows "\<forall>l \<in> set ls. literal_ok l \<Longrightarrow>
    sub_from NEG_SYMBOL_RE [] p (join g (map literal_text ls)) = join g (map kept_text ls)"
proof (induction ls arbitrary: p rule: induct_list012)
  case 1
  show ?case by (simp add: sub_from.simps [of _ _ _ "[]"] match_at_def NEG_SYMBOL_RE_def chr_rx_def)
next
  case (2 l)
  have "sub_from NEG_SYMBOL_RE [] q [] = []" for q
    by (simp add: sub_from.simps [of _ _ _ "[]"] match_at_def NEG_SYMBOL_RE_def chr_rx_def)
  then show ?case using sub_neg_literal [of l "[]" p] 2 by (auto simp: ends_word_def)
next
  case (3 l m ls)
  let ?t = "join g (map literal_text (m # ls))"
  obtain q where 1: "sub_from NEG_SYMBOL_RE [] p (literal_text l @ g @ ?t) = kept_text l @ sub_from NEG_SYMBOL_RE [] q (g @ ?t)"
    using sub_neg_literal [of l "g @ ?t" p] gap_ends_word [OF assms] 3 by auto
  obtain q' where "sub_from NEG_SYMBOL_RE [] q (g @ ?t) = g @ sub_from NEG_SYMBOL_RE [] q' ?t"
    using sub_neg_text [of g "[]" q ?t] assms by (auto simp: gap_ok_def)
  with 1 "3.IH"(2) [of q'] "3.prems" show ?case by simp
qed

lemma find_symbols_join:
  assumes "gap_ok g"
  shows "\<forall>l \<in> set ls. literal_ok l \<Longrightarrow> before_word p \<Longrightarrow>
    find_all SYMBOL_RE p (join g (map kept_text ls))
      = map (\<lambda>n. [(1, n)]) (filter symbol_ok (map snd (filter (\<lambda>l. \<not> fst l) ls)))"
proof -
  have nil: "find_all SYMBOL_RE q [] = []" for q
    by (subst find_all.simps) (simp add: match_at_def SYMBOL_RE_def)
  have lit: "find_all SYMBOL_RE p (kept_text l @ s)
      = map (\<lambda>n. [(1, n)]) (filter symbol_ok (map snd (filter (\<lambda>l. \<not> fst l) [l])))
        @ find_all SYMBOL_RE (if kept_text l = [] then p else Some (last (kept_text l))) s"
    if "literal_ok l" "ends_word s" "before_word p" for l s p
    using find_symbols_name [of "snd l" s p] that by (auto simp: kept_text_def literal_ok_def sym_name_def)
  show "\<forall>l \<in> set ls. literal_ok l \<Longrightarrow> before_word p \<Longrightarrow> ?thesis"
  proof (induction ls arbitrary: p rule: induct_list012)
    case 1
    then show ?case by (simp add: nil)
  next
    case (2 l)
    then show ?case using lit [of l "[]" p] by (simp add: nil ends_word_def)
  next
    case (3 l m ls)
    let ?t = "join g (map kept_text (m # ls))"
    have "before_word (Some (last g))" using assms by (auto simp: gap_ok_def before_word_def)
    then have "find_all SYMBOL_RE q (g @ ?t)
        = map (\<lambda>n. [(1, n)]) (filter symbol_ok (map snd (filter (\<lambda>l. \<not> fst l) (m # ls))))" for q
      using find_symbols_gap [of g q ?t] assms "3.IH"(2) [of "Some (last g)"] "3.prems"(1)
      by (simp add: gap_ok_def)
    then show ?case
      using lit [of l "g @ ?t" p] gap_ends_word [OF assms] 3 by simp
  qed
qed

lemma expr_symbols_literals:
  assumes "gap_ok g" and "\<forall>l \<in> set ls. literal_ok l"
  shows "expr_symbols (join g (map literal_text ls)) = kept_symbols ls"
proof -
  have j: "c \<notin> set (join g xs)" if "c \<notin> set g" "\<forall>x \<in> set xs. c \<notin> set x" for c xs
    using that by (induction xs rule: induct_list012) auto
  have "CHR ''('' \<notin> set (join g (map literal_text ls))"
  proof (rule j)
    show "CHR ''('' \<notin> set g" using assms(1) by (auto simp: gap_ok_def)
    show "\<forall>x \<in> set (map literal_text ls). CHR ''('' \<notin> set x"
      using assms(2) sym_name_no_bang by (auto simp: literal_text_def literal_ok_def)
  qed
  moreover have "lang NEG_PAREN_RE t \<Longrightarrow> CHR ''('' \<in> set t" for t
    by (auto simp: NEG_PAREN_RE_def chr_rx_def)
  ultimately have 1: "re_sub NEG_PAREN_RE [] (join g (map literal_text ls)) = join g (map literal_text ls)"
    by (rule re_sub_impossible [rotated])
  have short: "\<not> symbol_ok ''n''" "\<not> symbol_ok ''y''" "\<not> symbol_ok ''m''" by (simp_all add: symbol_ok_def)
  have "finditer SYMBOL_RE (join g (map kept_text ls))
      = map (\<lambda>n. [(1, n)]) (filter symbol_ok (map snd (filter (\<lambda>l. \<not> fst l) ls)))"
    unfolding finditer_def by (rule find_symbols_join) (use assms in \<open>auto simp: before_word_def\<close>)
  then have "expr_symbols (join g (map literal_text ls))
      = filter (\<lambda>s. s \<notin> set not_symbols) (filter symbol_ok (map snd (filter (\<lambda>l. \<not> fst l) ls)))"
    using 1 sub_neg_join [OF assms, of None]
    by (simp add: expr_symbols_def re_sub_def comp_def group_def)
  moreover have "(symbol_ok s \<and> s \<notin> set not_symbols) = (symbol_ok s \<and> s \<noteq> ''MODULES'')" for s
    using short by (simp only: not_symbols_def list.set insert_iff empty_iff) blast
  ultimately show ?thesis by (simp only: kept_symbols_def filter_filter)
qed

subsection \<open>Entries of a file\<close>

text \<open>An entry written out: the header and its indented attributes.\<close>

definition tab_line :: "str \<Rightarrow> str" where
  "tab_line s = CHR 0x09 # s"

definition type_line :: "kconfig_entry \<Rightarrow> str" where
  "type_line en = ke_kind en @ '' '' @ [CHR 0x22] @ ke_prompt en @ [CHR 0x22]"

definition attr_lines :: "kconfig_entry \<Rightarrow> str list" where
  "attr_lines en = type_line en # map (\<lambda>d. ''depends on '' @ d) (ke_depends en)
     @ map (\<lambda>s. ''select '' @ s) (ke_selects en) @ map (\<lambda>s. ''imply '' @ s) (ke_implies en)"

definition entry_lines :: "kconfig_entry \<Rightarrow> str list" where
  "entry_lines en = (''config '' @ ke_name en) # map tab_line (attr_lines en)"

definition prompt_ok :: "str \<Rightarrow> bool" where
  "prompt_ok s \<longleftrightarrow> s \<noteq> [] \<and> hd s \<noteq> CHR 0x22 \<and> last s \<noteq> CHR 0x22"

definition entry_ok :: "kconfig_entry \<Rightarrow> bool" where
  "entry_ok en \<longleftrightarrow> one_word (ke_name en) \<and> ke_kind en \<in> set type_words \<and> prompt_ok (ke_prompt en)
     \<and> list_all trimmed (ke_depends en) \<and> list_all one_word (ke_selects en) \<and> list_all one_word (ke_implies en)"

lemma chars_space: "is_space CHR '' ''" "is_space CHR 0x09" "\<not> is_space CHR 0x22"
  "\<not> is_space CHR ''d''" "\<not> is_space CHR ''s''" "\<not> is_space CHR ''i''" "\<not> is_space CHR ''c''"
  by code_simp+

lemma type_words_ok: "k \<in> set type_words \<Longrightarrow> one_word k"
proof -
  have "\<forall>k \<in> set type_words. one_word k" unfolding one_word_def by code_simp
  then show "k \<in> set type_words \<Longrightarrow> one_word k" by blast
qed

lemma body_type:
  assumes "k \<in> set type_words" and "prompt_ok p"
  shows "body_line (k @ '' '' @ [CHR 0x22] @ p @ [CHR 0x22]) en = en\<lparr>ke_kind := k, ke_prompt := p\<rparr>"
proof -
  let ?b = "k @ '' '' @ [CHR 0x22] @ p @ [CHR 0x22]"
  have "list_ex (\<lambda>t. starts_with t ?b) type_words"
    using assms(1) by (auto simp: list_ex_iff starts_with_def intro!: bexI [of _ k])
  moreover have "split_first ?b = [k, [CHR 0x22] @ p @ [CHR 0x22]]"
    using split_first_two [of k "CHR '' ''" "[CHR 0x22] @ p @ [CHR 0x22]"] type_words_ok [OF assms(1)] chars_space
    by simp
  moreover have "strip_chars [CHR 0x22] ([CHR 0x22] @ p @ [CHR 0x22]) = p"
  proof -
    have "dropWhile (\<lambda>c. c \<in> set [CHR 0x22]) (p @ [CHR 0x22]) = p @ [CHR 0x22]"
      using assms(2) by (intro dropWhile_id) (simp add: prompt_ok_def)
    moreover have "dropWhile (\<lambda>c. c \<in> set [CHR 0x22]) (rev p) = rev p"
      using assms(2) by (intro dropWhile_id) (simp add: prompt_ok_def hd_rev)
    ultimately show ?thesis by (simp add: strip_chars_def)
  qed
  ultimately show ?thesis by (simp add: body_line_def)
qed

lemma no_type: "\<not> list_ex (\<lambda>t. starts_with t (''depends on '' @ s)) type_words"
  "\<not> list_ex (\<lambda>t. starts_with t (''select '' @ s)) type_words"
  "\<not> list_ex (\<lambda>t. starts_with t (''imply '' @ s)) type_words"
  by (simp_all add: type_words_def starts_with_def)

lemma body_depends: "trimmed s \<Longrightarrow> body_line (''depends on '' @ s) en = en\<lparr>ke_depends := ke_depends en @ [s]\<rparr>"
  unfolding body_line_def using no_type(1) [of s] by (simp add: starts_with_def strip_trimmed)

lemma body_select: "one_word s \<Longrightarrow> body_line (''select '' @ s) en = en\<lparr>ke_selects := ke_selects en @ [s]\<rparr>"
  unfolding body_line_def using no_type(2) [of s] by (simp add: starts_with_def words_one)

lemma body_imply: "one_word s \<Longrightarrow> body_line (''imply '' @ s) en = en\<lparr>ke_implies := ke_implies en @ [s]\<rparr>"
  unfolding body_line_def using no_type(3) [of s] by (simp add: starts_with_def words_one)

lemma parse_body_tabs:
  "\<forall>l \<in> set ls. trimmed l \<Longrightarrow> parse_body (map tab_line ls @ rest) en = parse_body rest (fold body_line ls en)"
  by (induction ls arbitrary: en) (auto simp: tab_line_def strip_space_Cons chars_space strip_trimmed Let_def trimmed_def)

lemma fold_depends: "list_all trimmed ds \<Longrightarrow>
    fold body_line (map (\<lambda>d. ''depends on '' @ d) ds) en = en\<lparr>ke_depends := ke_depends en @ ds\<rparr>"
proof (induction ds arbitrary: en)
  case (Cons d ds)
  then show ?case using body_depends [of d en] by simp
qed simp

lemma fold_selects: "list_all one_word ds \<Longrightarrow>
    fold body_line (map (\<lambda>d. ''select '' @ d) ds) en = en\<lparr>ke_selects := ke_selects en @ ds\<rparr>"
proof (induction ds arbitrary: en)
  case (Cons d ds)
  then show ?case using body_select [of d en] by simp
qed simp

lemma fold_implies: "list_all one_word ds \<Longrightarrow>
    fold body_line (map (\<lambda>d. ''imply '' @ d) ds) en = en\<lparr>ke_implies := ke_implies en @ ds\<rparr>"
proof (induction ds arbitrary: en)
  case (Cons d ds)
  then show ?case using body_imply [of d en] by simp
qed simp

lemma fold_attrs: "entry_ok en \<Longrightarrow> fold body_line (attr_lines en) (new_entry (ke_name en)) = en"
  by (simp add: entry_ok_def attr_lines_def type_line_def body_type [simplified] fold_depends [simplified]
      fold_selects [simplified] fold_implies [simplified] new_entry_def)

lemma attrs_trimmed: "entry_ok en \<Longrightarrow> \<forall>l \<in> set (attr_lines en). trimmed l"
proof -
  assume ok: "entry_ok en"
  have "trimmed (type_line en)"
    using ok type_words_ok [of "ke_kind en"] chars_space by (auto simp: entry_ok_def type_line_def trimmed_def one_word_def)
  moreover have "trimmed s \<Longrightarrow> trimmed (''depends on '' @ s)" "trimmed s \<Longrightarrow> trimmed (''select '' @ s)"
    "trimmed s \<Longrightarrow> trimmed (''imply '' @ s)" for s
    using chars_space by (simp_all add: trimmed_def)
  ultimately show ?thesis
    using ok one_word_trimmed by (auto simp: entry_ok_def attr_lines_def list_all_iff simp del: append_Cons)
qed

lemma header_name_entry: "one_word n \<Longrightarrow> header_name (''config '' @ n) = Some n"
proof -
  assume n: "one_word n"
  have "one_word ''config''" unfolding one_word_def by code_simp
  then have "words (''config'' @ CHR '' '' # n) = [''config'', n]" using words_two n chars_space(1) by blast
  moreover have "trimmed (''config '' @ n)" using one_word_trimmed [OF n] chars_space by (simp add: trimmed_def)
  ultimately show ?thesis by (simp add: header_name_def Let_def strip_trimmed starts_with_def)
qed

definition starts_entry :: "str list \<Rightarrow> bool" where
  "starts_entry ls \<longleftrightarrow> (case ls of [] \<Rightarrow> True | l # _ \<Rightarrow> trimmed l)"

lemma parse_body_stop: "starts_entry ls \<Longrightarrow> parse_body ls en = (en, ls)"
proof (cases ls)
  case (Cons l rest)
  moreover assume "starts_entry ls"
  ultimately have "trimmed l" "hd l \<noteq> CHR 0x09" "hd l \<noteq> CHR '' ''"
    using chars_space by (auto simp: starts_entry_def trimmed_def)
  then show ?thesis using Cons by (auto simp: strip_trimmed trimmed_def Let_def)
qed simp

lemma starts_entries: "\<forall>en \<in> set ens. entry_ok en \<Longrightarrow> starts_entry (concat (map entry_lines ens))"
  using chars_space one_word_trimmed by (cases ens) (auto simp: starts_entry_def entry_lines_def entry_ok_def trimmed_def)

lemma parse_lines_entries:
  "\<forall>en \<in> set ens. entry_ok en \<Longrightarrow>
     parse_lines (concat (map entry_lines ens)) d = fold (\<lambda>en. dset (ke_name en) en) ens d"
proof (induction ens arbitrary: d)
  case (Cons en ens)
  let ?rest = "concat (map entry_lines ens)"
  have "parse_body (map tab_line (attr_lines en) @ ?rest) (new_entry (ke_name en)) = (en, ?rest)"
    using parse_body_tabs [OF attrs_trimmed [of en]] parse_body_stop [OF starts_entries [of ens]] Cons.prems
    by (simp add: fold_attrs)
  moreover have "header_name (''config '' @ ke_name en) = Some (ke_name en)"
    using Cons.prems by (intro header_name_entry) (simp add: entry_ok_def)
  moreover have "concat (map entry_lines (en # ens))
      = (''config '' @ ke_name en) # map tab_line (attr_lines en) @ ?rest"
    by (simp add: entry_lines_def [of en])
  ultimately show ?case using Cons by (simp only: parse_lines.simps option.case prod.case fold.simps comp_apply) simp
qed simp

subsection \<open>Properties\<close>

text \<open>
  The symbols of a dependency expression made of literals and one operator: the names
  that are not negated, in order, except those shorter than three characters, those that do not
  start with a letter, and \<^verbatim>\<open>MODULES\<close>. So a dependency on \<^verbatim>\<open>PM\<close> or
  \<^verbatim>\<open>64BIT\<close> is dropped.
\<close>

theorem expression_symbols:
  assumes "gap_ok g" and "\<forall>l \<in> set ls. literal_ok l"
  shows "expr_symbols (join g (map literal_text ls)) = kept_symbols ls"
  by (rule expr_symbols_literals [OF assms])

theorem expression_symbols_witness:
  "expr_symbols ''PCI && !X86_32 && PM && NETDEVICES'' = [''PCI'', ''NETDEVICES'']"
proof -
  let ?ls = "[(False, ''PCI''), (True, ''X86_32''), (False, ''PM''), (False, ''NETDEVICES'')]"
  have "expr_symbols (join '' && '' (map literal_text ?ls)) = kept_symbols ?ls"
  proof (rule expression_symbols)
    show "gap_ok '' && ''" unfolding gap_ok_def by code_simp
    show "\<forall>l \<in> set ?ls. literal_ok l" by code_simp
  qed
  moreover have "kept_symbols ?ls = [''PCI'', ''NETDEVICES'']" by code_simp
  ultimately show ?thesis by (simp add: literal_text_def)
qed

text \<open>
  C27. Entries written out in the usual form (header, type with prompt, dependencies, selects,
  implies) are read back as they are, each under its name, a later one replacing an earlier one of
  the same name, and the entries read before stay.
\<close>

theorem entries_round_trip:
  assumes "\<forall>en \<in> set ens. entry_ok en" and "\<forall>l \<in> set (concat (map entry_lines ens)). one_line l"
  shows "parse_entries (unlines (concat (map entry_lines ens))) d = fold (\<lambda>en. dset (ke_name en) en) ens d"
  using parse_lines_entries [OF assms(1)] splitlines_unlines [OF assms(2)] by (simp add: parse_entries_def)

definition sample_entries :: "kconfig_entry list" where
  "sample_entries =
    [\<lparr>ke_name = ''IGB'', ke_kind = ''tristate'', ke_prompt = ''Intel Gigabit'', ke_depends = [''PCI && PTP_1588_CLOCK''],
      ke_selects = [''I2C''], ke_implies = [''HWMON'']\<rparr>,
     \<lparr>ke_name = ''I2C'', ke_kind = ''bool'', ke_prompt = ''bus'', ke_depends = [], ke_selects = [], ke_implies = []\<rparr>]"

theorem entries_round_trip_witness:
  "parse_entries (unlines (concat (map entry_lines sample_entries))) [] = map (\<lambda>en. (ke_name en, en)) sample_entries"
proof -
  have "parse_entries (unlines (concat (map entry_lines sample_entries))) [] = fold (\<lambda>en. dset (ke_name en) en) sample_entries []"
  proof (rule entries_round_trip)
    show "\<forall>en \<in> set sample_entries. entry_ok en"
      unfolding entry_ok_def one_word_def trimmed_def list_all_iff sample_entries_def by code_simp
    show "\<forall>l \<in> set (concat (map entry_lines sample_entries)). one_line l"
      unfolding one_line_def by code_simp
  qed
  also have "\<dots> = map (\<lambda>en. (ke_name en, en)) sample_entries" by (simp add: sample_entries_def)
  finally show ?thesis .
qed

end
