(* ===== verification/Generator.thy ===== *)
theory Generator
  imports Dyn
begin

text \<open>
  \<^verbatim>\<open>kconfig_builder/generator.py\<close> and \<^verbatim>\<open>kconfig_builder/bootpath.py\<close>: the
  symbol table of a kernel configuration, its text form, and the symbols the boot path needs
  built in. The order in which a set is enumerated is an argument where the code depends on it.
\<close>

subsection \<open>The generator\<close>

definition ESSENTIAL :: "(str, str) dict" where
  "ESSENTIAL =
     [(''64BIT'', ''y''),
      (''PRINTK'', ''y''), (''BUG'', ''y''), (''ELF_CORE'', ''y''), (''MULTIUSER'', ''y''), (''SYSFS'', ''y''),
      (''PROC_FS'', ''y''), (''TMPFS'', ''y''), (''DEVTMPFS'', ''y''), (''DEVTMPFS_MOUNT'', ''y''),
      (''MMU'', ''y''), (''SLUB'', ''y''),
      (''BINFMT_ELF'', ''y''), (''BINFMT_SCRIPT'', ''y''),
      (''EXT4_FS'', ''y''), (''EXT4_USE_FOR_EXT2'', ''y''), (''VFAT_FS'', ''y''), (''FAT_FS'', ''y''),
      (''ISO9660_FS'', ''y''), (''TMPFS_POSIX_ACL'', ''y''),
      (''NET'', ''y''), (''INET'', ''y''), (''IPV6'', ''m''),
      (''PCI'', ''y''), (''PCIEPORTBUS'', ''y''), (''PCI_MSI'', ''y''),
      (''USB_SUPPORT'', ''y''), (''USB'', ''m''), (''USB_ANNOUNCE_NEW_DEVICES'', ''y''),
      (''BLOCK'', ''y''), (''BLK_DEV_BSG'', ''y''),
      (''GENERIC_IRQ_CHIP'', ''y''), (''GENERIC_IRQ_PROBE'', ''y''), (''GENERIC_IRQ_SHOW'', ''y''),
      (''ACPI'', ''y''),
      (''CLKEVT_HPET'', ''y''),
      (''PM'', ''y''), (''PM_SLEEP'', ''y''), (''SUSPEND'', ''y''),
      (''SHMEM'', ''y''), (''EMBEDDED'', ''n''),
      (''CRYPTO'', ''y''), (''CRYPTO_ALGAPI'', ''y''), (''CRYPTO_HASH'', ''y''),
      (''MODULES'', ''y''), (''MODULE_UNLOAD'', ''y''), (''KALLSYMS'', ''y''), (''PRINTK_TIME'', ''y''),
      (''EARLY_PRINTK'', ''y'')]"

definition DISABLED :: "str list" where
  "DISABLED = [''LOCALVERSION_AUTO'', ''WERROR'']"

text \<open>Symbol to value and section.\<close>

type_synonym generator = "(str, str \<times> str) dict"

definition new_generator :: "bool \<Rightarrow> generator" where
  "new_generator detected_acpi =
     map (\<lambda>(smb, val). (smb, (val, ''essential'')))
       (if detected_acpi then ESSENTIAL
        else filter (\<lambda>(smb, val). smb \<noteq> ''ACPI'' \<and> smb \<noteq> ''CLKEVT_HPET'') ESSENTIAL)"

definition gen_add :: "generator \<Rightarrow> str \<Rightarrow> str \<Rightarrow> str \<Rightarrow> generator" where
  "gen_add g smb val sec =
     (case dget g smb of
        Some (v, _) \<Rightarrow> if v = ''y'' then g else dset smb (val, sec) g
      | None \<Rightarrow> dset smb (val, sec) g)"

definition gen_add_many :: "generator \<Rightarrow> str list \<Rightarrow> str \<Rightarrow> str \<Rightarrow> generator" where
  "gen_add_many g symbols val sec = fold (\<lambda>smb g. gen_add g smb val sec) (sort (remdups symbols)) g"

definition total_symbols :: "generator \<Rightarrow> nat" where
  "total_symbols g = length g"

subsection \<open>The text form\<close>

text \<open>\<^verbatim>\<open>d.setdefault(k, []).append(x)\<close>.\<close>

definition append_to :: "'k \<Rightarrow> 'v \<Rightarrow> ('k, 'v list) dict \<Rightarrow> ('k, 'v list) dict" where
  "append_to k x d = dset k (dget_default d k [] @ [x]) d"

definition gen_sections :: "generator \<Rightarrow> (str, (str \<times> str) list) dict" where
  "gen_sections g = fold (\<lambda>(smb, (val, sec)). append_to sec (smb, val)) g []"

definition section_order :: "str list" where
  "section_order = [''essential'', ''hardware'', ''dependency'', ''acpi'', []]"

definition entry_line :: "str \<times> str \<Rightarrow> str" where
  "entry_line x =
     (if snd x = ''n'' then ''# CONFIG_'' @ fst x @ '' is not set''
      else ''CONFIG_'' @ fst x @ ''='' @ snd x)"

text \<open>The sections are written in the fixed order, the others sorted behind; each once.\<close>

fun write_sections :: "str list \<Rightarrow> str list \<Rightarrow> (str, (str \<times> str) list) dict \<Rightarrow> str list" where
  "write_sections [] written secs = []"
| "write_sections (sec # rest) written secs =
     (case dget secs sec of
        None \<Rightarrow> write_sections rest written secs
      | Some entries \<Rightarrow>
          if sec \<in> set written then write_sections rest written secs
          else (if sec \<noteq> [] then [''# --- '' @ capitalize sec @ '' ---''] else [])
            @ map entry_line (sort_key fst entries) @ [[]]
            @ write_sections rest (sec # written) secs)"

definition config_lines :: "str \<Rightarrow> (str, str) dict \<Rightarrow> generator \<Rightarrow> str list" where
  "config_lines ts meta g =
     (let secs = gen_sections g in
      [''# Linux kernel configuration'', ''# Generated by kconfig-builder on '' @ ts]
      @ map (\<lambda>(k, v). ''# '' @ k @ '': '' @ v) meta @ [[]]
      @ write_sections (section_order @ sort (filter (\<lambda>s. s \<notin> set section_order) (map fst secs))) [] secs
      @ [''# --- Disabled ---'']
      @ map (\<lambda>smb. ''# CONFIG_'' @ smb @ '' is not set'') (filter (\<lambda>smb. smb \<notin> fst ` set g) DISABLED)
      @ [[]])"

definition write_config :: "str \<Rightarrow> (str, str) dict \<Rightarrow> generator \<Rightarrow> str" where
  "write_config ts meta g = unlines (config_lines ts meta g)"

definition save_config :: "env \<Rightarrow> path \<Rightarrow> (str, str) dict \<Rightarrow> generator \<Rightarrow> (world, unit) act" where
  "save_config e p meta g = (\<lambda>w.
     write_text e p (write_config (stamp e (ticks w)) meta g) (w\<lparr>ticks := Suc (ticks w)\<rparr>))"

subsection \<open>The boot path\<close>

definition FS_CONFIG :: "(str, str) dict" where
  "FS_CONFIG =
     [(''ext2'', ''EXT2_FS''), (''ext3'', ''EXT3_FS''), (''ext4'', ''EXT4_FS''), (''btrfs'', ''BTRFS_FS''),
      (''xfs'', ''XFS_FS''), (''f2fs'', ''F2FS_FS''), (''jfs'', ''JFS_FS''), (''reiserfs'', ''REISERFS_FS''),
      (''vfat'', ''VFAT_FS''), (''fat'', ''FAT_FS'')]"

definition DEVICE_CONFIGS :: "(str \<times> str list) list" where
  "DEVICE_CONFIGS =
     [(''/dev/nvme'', [''BLK_DEV_NVME'', ''NVME_CORE'', ''PCI'']),
      (''/dev/sd'', [''ATA'', ''ATA_PIIX'', ''AHCI'', ''LIBAHCI'', ''LIBATA'', ''PCI'']),
      (''/dev/hd'', [''IDE'', ''BLK_DEV_IDE'', ''ATA'']),
      (''/dev/vd'', [''VIRTIO'', ''VIRTIO_PCI'', ''VIRTIO_BLK'']),
      (''/dev/mmcblk'', [''MMC'', ''MMC_BLOCK'', ''MMC_SDHCI'']),
      (''/dev/xvd'', [''XEN_BLKDEV_FRONTEND'']),
      (''/dev/mapper'', [])]"

definition LUKS_CRYPTO :: "str list" where
  "LUKS_CRYPTO = [''BLK_DEV_DM'', ''DM_MOD'', ''DM_CRYPT'', ''CRYPTO'', ''CRYPTO_AES'', ''CRYPTO_XTS'',
     ''CRYPTO_CBC'', ''CRYPTO_SHA256'', ''CRYPTO_AES_X86_64'']"

definition LVM_CONFIGS :: "str list" where
  "LVM_CONFIGS = [''BLK_DEV_DM'', ''DM_MOD'', ''MD'']"

definition RAID_CONFIGS :: "str list" where
  "RAID_CONFIGS = [''MD'', ''BLK_DEV_MD'', ''MD_RAID0'', ''MD_RAID1'', ''MD_RAID10'', ''MD_RAID456'']"

definition ALWAYS_STATIC :: "str list" where
  "ALWAYS_STATIC = [''BLOCK'', ''BLK_DEV'', ''PCI_MSI'', ''GENERIC_IRQ_CHIP'', ''GENERIC_IRQ_PROBE'']"

record boot_path =
  root_device :: str
  bp_root_fs :: str
  underlying_device :: str
  has_lvm :: bool
  has_luks :: bool
  has_raid :: bool
  luks_cipher :: str
  extra_static :: "str list"

text \<open>The patterns are literal strings, so \<^verbatim>\<open>pattern.search(dev)\<close> is the substring test.\<close>

definition device_configs :: "str \<Rightarrow> str list" where
  "device_configs dev =
     (case filter (\<lambda>(pat, syms). contains pat dev) DEVICE_CONFIGS of [] \<Rightarrow> [] | (pat, syms) # _ \<Rightarrow> syms)"

definition static_configs :: "boot_path \<Rightarrow> exn + str list" where
  "static_configs b =
     (case dget FS_CONFIG (lower (bp_root_fs b)) of
        None \<Rightarrow> Inl (ValueErr (''Unknown root filesystem type: '' @ repr_str (bp_root_fs b)))
      | Some fs_cfg \<Rightarrow> Inr (remdups
          (ALWAYS_STATIC @ [fs_cfg]
           @ device_configs (if underlying_device b \<noteq> [] then underlying_device b else root_device b)
           @ (if has_lvm b then LVM_CONFIGS else [])
           @ (if has_luks b then LUKS_CRYPTO @ [''CRYPTO_'' @ upper (hd (split_on CHR ''-'' (luks_cipher b)))] else [])
           @ (if has_raid b then RAID_CONFIGS else [])
           @ extra_static b)))"

definition boot_summary :: "boot_path \<Rightarrow> str" where
  "boot_summary b =
     (let flags = (if has_lvm b then [''LVM''] else []) @ (if has_luks b then [''LUKS''] else [])
            @ (if has_raid b then [''RAID''] else []);
          flag_str = (if flags \<noteq> [] then ''+'' @ join ''+'' flags else [])
      in root_device b @ '' ('' @ bp_root_fs b @ flag_str @ '')'')"

definition apply_boot_path :: "generator \<Rightarrow> boot_path \<Rightarrow> exn + (generator \<times> str list)" where
  "apply_boot_path g b =
     map_sum id (\<lambda>static. (fold (\<lambda>smb g. gen_add g smb ''y'' ''boot-critical'') static g, static)) (static_configs b)"

subsection \<open>Values only go up\<close>

text \<open>The three values of a symbol, ordered.\<close>

datatype level = Off | Module | Builtin

instantiation level :: linorder
begin

definition rank :: "level \<Rightarrow> nat" where
  "rank l = (case l of Off \<Rightarrow> 0 | Module \<Rightarrow> 1 | Builtin \<Rightarrow> 2)"

definition less_eq_level :: "level \<Rightarrow> level \<Rightarrow> bool" where
  "less_eq_level a b \<longleftrightarrow> rank a \<le> rank b"

definition less_level :: "level \<Rightarrow> level \<Rightarrow> bool" where
  "less_level a b \<longleftrightarrow> rank a < rank b"

instance
  by standard (auto simp: less_eq_level_def less_level_def rank_def split: level.splits)

end

definition level_of :: "str \<Rightarrow> level" where
  "level_of v = (if v = ''y'' then Builtin else if v = ''m'' then Module else Off)"

definition gen_level :: "generator \<Rightarrow> str \<Rightarrow> level" where
  "gen_level g smb = (case dget g smb of None \<Rightarrow> Off | Some (v, _) \<Rightarrow> level_of v)"

lemma level_le_simps [simp]: "Off \<le> l" "l \<le> Builtin" "Module \<le> Module" "\<not> Module \<le> Off" "\<not> Builtin \<le> Module" "\<not> Builtin \<le> Off"
  by (cases l; simp add: less_eq_level_def rank_def)+

lemma level_of_simps [simp]: "level_of ''y'' = Builtin" "level_of ''m'' = Module" "level_of ''n'' = Off"
  by (simp_all add: level_of_def)

lemma level_of_Builtin: "level_of v = Builtin \<longleftrightarrow> v = ''y''"
  by (simp add: level_of_def)

lemma gen_add_level:
  "gen_level (gen_add g s v sec) s' =
     (if s' = s \<and> gen_level g s \<noteq> Builtin then level_of v else gen_level g s')"
  by (cases "dget g s") (auto simp: gen_add_def gen_level_def dget_dset level_of_Builtin)

lemma gen_add_get: "s' \<noteq> s \<Longrightarrow> dget (gen_add g s v sec) s' = dget g s'"
  by (auto simp: gen_add_def dget_dset split: option.splits)

lemma gen_add_ok: "dict_ok g \<Longrightarrow> dict_ok (gen_add g s v sec)"
  by (auto simp: gen_add_def keeps split: option.splits)

lemma gen_add_max: "level_of v = Builtin \<or> level_of v = Module \<Longrightarrow>
    gen_level (gen_add g s v sec) s' = (if s' = s then max (gen_level g s) (level_of v) else gen_level g s')"
  by (cases "gen_level g s") (auto simp: gen_add_level max_def)

text \<open>Adding a list of symbols with one value: each gets at least that value, no other one changes.\<close>

lemma fold_add_level:
  assumes "level_of v = Builtin \<or> level_of v = Module"
  shows "gen_level (fold (\<lambda>smb g. gen_add g smb v sec) xs g) s
     = (if s \<in> set xs then max (gen_level g s) (level_of v) else gen_level g s)"
proof (induction xs arbitrary: g)
  case (Cons x xs)
  show ?case unfolding fold.simps comp_apply Cons by (auto simp: gen_add_max [OF assms] max.assoc)
qed simp

lemma fold_add_ok: "dict_ok g \<Longrightarrow> dict_ok (fold (\<lambda>smb g. gen_add g smb v sec) xs g)"
  by (induction xs arbitrary: g) (simp_all add: gen_add_ok)

lemma gen_add_many_level:
  assumes "level_of v = Builtin \<or> level_of v = Module"
  shows "gen_level (gen_add_many g xs v sec) s = (if s \<in> set xs then max (gen_level g s) (level_of v) else gen_level g s)"
  by (simp add: gen_add_many_def fold_add_level [OF assms])

lemma new_generator_ok: "dict_ok (new_generator a)"
proof -
  have "distinct (map fst ESSENTIAL)" by code_simp
  then have "dict_ok (map (\<lambda>(s, v). (s, v, ''essential'')) (filter P ESSENTIAL))" for P
    by (auto simp: comp_def case_prod_beta distinct_map intro: inj_on_subset)
  from this [of "\<lambda>_. True"] this [of "\<lambda>(smb, val). smb \<noteq> ''ACPI'' \<and> smb \<noteq> ''CLKEVT_HPET''"]
  show ?thesis by (simp add: new_generator_def)
qed

end
