(* ===== verification/GeneratorText.thy ===== *)
theory GeneratorText
  imports Generator "HOL-Library.Multiset"
begin

text \<open>
  The text of a kernel configuration reads back as the symbol table: every symbol with its
  value, the switched off ones as comments, whatever the sections.
\<close>

text \<open>How a line of a \<^verbatim>\<open>.config\<close> file is read by the kernel's build.\<close>

definition config_prefix :: str where
  "config_prefix = ''CONFIG_''"

definition unset_suffix :: str where
  "unset_suffix = '' is not set''"

definition read_line :: "str \<Rightarrow> (str \<times> str) option" where
  "read_line l =
     (if starts_with ''CONFIG_'' l \<and> CHR ''='' \<in> set l then
        Some (drop 7 (takeWhile (\<lambda>c. c \<noteq> CHR ''='') l), tl (dropWhile (\<lambda>c. c \<noteq> CHR ''='') l))
      else if starts_with ''# CONFIG_'' l \<and> ends_with '' is not set'' l then
        Some (take (length l - 20) (drop 9 l), ''n'')
      else None)"

definition read_config :: "str \<Rightarrow> (str \<times> str) list" where
  "read_config t = List.map_filter read_line (splitlines t)"

definition symbol_name :: "str \<Rightarrow> bool" where
  "symbol_name s \<longleftrightarrow> one_line s \<and> CHR ''='' \<notin> set s"

lemma read_entry_line: "symbol_name s \<Longrightarrow> read_line (entry_line (s, v)) = Some (s, v)"
proof (cases "v = ''n''")
  case True
  have "ends_with '' is not set'' (''# CONFIG_'' @ s @ '' is not set'')"
    by (simp add: ends_with_def)
  with True show ?thesis by (simp add: read_line_def entry_line_def starts_with_def)
next
  case False
  assume "symbol_name s"
  then have "\<forall>c \<in> set (''CONFIG_'' @ s). c \<noteq> CHR ''=''" by (auto simp: symbol_name_def)
  then have "takeWhile (\<lambda>c. c \<noteq> CHR ''='') ((''CONFIG_'' @ s) @ CHR ''='' # v) = ''CONFIG_'' @ s"
    "dropWhile (\<lambda>c. c \<noteq> CHR ''='') ((''CONFIG_'' @ s) @ CHR ''='' # v) = CHR ''='' # v"
    by (intro takeWhile_append_stop dropWhile_append_stop; simp)+
  with False show ?thesis by (simp add: read_line_def entry_line_def starts_with_def)
qed

lemma read_unset_line: "read_line (''# CONFIG_'' @ s @ '' is not set'') = Some (s, ''n'')"
proof -
  have "ends_with '' is not set'' (''# CONFIG_'' @ s @ '' is not set'')"
    by (simp add: ends_with_def)
  then show ?thesis by (simp add: read_line_def starts_with_def)
qed

lemma read_other_lines: "read_line [] = None" "read_line (''# --- '' @ s) = None"
  "read_line ''# Linux kernel configuration'' = None" "read_line (''# Generated by kconfig-builder on '' @ s) = None"
  by (simp_all add: read_line_def starts_with_def)

lemma map_filter_append: "List.map_filter f (xs @ ys) = List.map_filter f xs @ List.map_filter f ys"
  by (simp add: List.map_filter_def)

subsection \<open>Sections\<close>

definition in_section :: "str \<Rightarrow> generator \<Rightarrow> (str \<times> str) list" where
  "in_section sec g = map (\<lambda>(s, (v, _)). (s, v)) (filter (\<lambda>(s, (v, sec')). sec' = sec) g)"

lemma sections_fold:
  "dget_default (fold (\<lambda>(s, (v, sec)). append_to sec (s, v)) g d) sec [] = dget_default d sec [] @ in_section sec g"
proof (induction g arbitrary: d)
  case (Cons x g)
  obtain s v sec' where x: "x = (s, v, sec')" by (cases x)
  show ?case unfolding x fold.simps comp_apply prod.case Cons
    by (simp add: append_to_def dget_default_def dget_dset in_section_def)
qed (simp add: in_section_def)

lemma sections_dget: "dget_default (gen_sections g) sec [] = in_section sec g"
  using sections_fold [of g "[]" sec] by (simp add: gen_sections_def dget_default_def)

lemma sections_keys: "fst ` set (gen_sections g) = (\<lambda>(s, (v, sec)). sec) ` set g"
proof -
  have "fst ` set (fold (\<lambda>(s, (v, sec)). append_to sec (s, v)) g d) = fst ` set d \<union> (\<lambda>(s, (v, sec)). sec) ` set g" for d
    by (induction g arbitrary: d) (auto simp: append_to_def keys_dset split: prod.splits)
  then show ?thesis by (simp add: gen_sections_def)
qed

lemma sections_ok: "dict_ok (gen_sections g)"
proof -
  have "dict_ok d \<Longrightarrow> dict_ok (fold (\<lambda>(s, (v, sec)). append_to sec (s, v)) g d)" for d
    by (induction g arbitrary: d) (auto simp: append_to_def keeps split: prod.splits)
  then show ?thesis by (simp add: gen_sections_def)
qed

lemma map_of_in_section:
  "dict_ok g \<Longrightarrow> map_of (in_section sec g) s = (case dget g s of Some (v, sec') \<Rightarrow> if sec' = sec then Some v else None | None \<Rightarrow> None)"
proof (induction g)
  case (Cons x g)
  obtain s' v' sec' where x: "x = (s', v', sec')" by (cases x)
  show ?case
  proof (cases "s' = s")
    case True
    then have "dget g s = None" using Cons.prems x by (simp add: map_of_eq_None_iff)
    with Cons True show ?thesis by (simp add: x in_section_def)
  next
    case False
    with Cons show ?thesis by (simp add: x in_section_def)
  qed
qed (simp add: in_section_def)

lemma in_section_distinct: "dict_ok g \<Longrightarrow> distinct (map fst (in_section sec g))"
proof -
  have "map fst (in_section sec g) = map fst (filter (\<lambda>(s, (v, sec')). sec' = sec) g)"
    by (auto simp: in_section_def)
  then show "dict_ok g \<Longrightarrow> ?thesis" by (simp add: distinct_map_filter)
qed

lemma map_of_sort: "distinct (map fst xs) \<Longrightarrow> map_of (sort_key fst xs) = map_of xs"
proof -
  assume d: "distinct (map fst xs)"
  have "mset (map fst (sort_key fst xs)) = mset (map fst xs)" by simp
  then have "distinct (map fst (sort_key fst xs))" using d by (metis mset_eq_imp_distinct_iff)
  with d show ?thesis by (simp add: map_of_inject_set)
qed

lemma read_entries: "\<forall>x \<in> set xs. symbol_name (fst x) \<Longrightarrow> List.map_filter read_line (map entry_line xs) = xs"
  by (induction xs) (auto simp: read_entry_line)

lemma map_filter_header: "List.map_filter read_line (if sec \<noteq> [] then [''# --- '' @ capitalize sec @ '' ---''] else []) = []"
  using read_other_lines(2) [of "capitalize sec @ '' ---''"] by simp

definition section_in :: "generator \<Rightarrow> str \<Rightarrow> str set \<Rightarrow> str option" where
  "section_in g s S = (case dget g s of Some (v, sec) \<Rightarrow> if sec \<in> S then Some v else None | None \<Rightarrow> None)"

lemma read_sections:
  assumes ok: "dict_ok g" and names: "\<forall>s \<in> fst ` set g. symbol_name s"
  shows "map_of (List.map_filter read_line (write_sections L W (gen_sections g))) s = section_in g s (set L - set W)"
proof (induction L arbitrary: W)
  case Nil
  show ?case by (simp add: section_in_def split: option.split)
next
  case (Cons sec L)
  have key: "dget g s = Some (v, sec') \<Longrightarrow> sec' \<in> fst ` set (gen_sections g)" for v sec'
    unfolding sections_keys by (force dest: map_of_SomeD)
  show ?case
  proof (cases "dget (gen_sections g) sec")
    case None
    then have "sec \<notin> fst ` set (gen_sections g)" by (simp add: map_of_eq_None_iff)
    with Cons None key show ?thesis by (auto simp: section_in_def split: option.splits)
  next
    case (Some entries)
    then have e: "entries = in_section sec g" using sections_dget [of g sec] by (simp add: dget_default_def)
    show ?thesis
    proof (cases "sec \<in> set W")
      case True
      with Cons Some show ?thesis by (auto simp: section_in_def split: option.splits)
    next
      case False
      have "\<forall>x \<in> set (sort_key fst entries). symbol_name (fst x)"
        using names by (auto simp: e in_section_def)
      then have r: "List.map_filter read_line (map entry_line (sort_key fst entries)) = sort_key fst entries"
        by (rule read_entries)
      have "List.map_filter read_line (write_sections (sec # L) W (gen_sections g))
          = sort_key fst entries @ List.map_filter read_line (write_sections L (sec # W) (gen_sections g))"
        by (simp only: write_sections.simps Some option.case False if_False map_filter_append map_filter_header r)
          (simp add: read_other_lines(1))
      moreover have "map_of (sort_key fst entries) s = section_in g s {sec}"
        unfolding map_of_sort [OF in_section_distinct [OF ok], folded e] e map_of_in_section [OF ok]
        by (simp add: section_in_def split: option.split)
      ultimately show ?thesis using Cons [of "sec # W"] False
        by (auto simp: section_in_def map_add_def split: option.splits)
    qed
  qed
qed

subsection \<open>Reading back\<close>

definition meta_ok :: "str \<Rightarrow> (str, str) dict \<Rightarrow> bool" where
  "meta_ok ts meta \<longleftrightarrow> one_line ts \<and> (\<forall>(k, v) \<in> set meta. one_line k \<and> one_line v \<and> read_line (''# '' @ k @ '': '' @ v) = None)"

definition table_ok :: "generator \<Rightarrow> bool" where
  "table_ok g \<longleftrightarrow> dict_ok g \<and> (\<forall>(s, (v, sec)) \<in> set g. symbol_name s \<and> one_line v \<and> one_line sec)"

definition expected :: "generator \<Rightarrow> str \<Rightarrow> str option" where
  "expected g s =
     (case dget g s of Some (v, _) \<Rightarrow> Some v | None \<Rightarrow> if s \<in> set DISABLED then Some ''n'' else None)"

lemma one_line_simps: "one_line []" "one_line (c # s) \<longleftrightarrow> c \<notin> set line_breaks \<and> one_line s"
  "one_line (s @ t) \<longleftrightarrow> one_line s \<and> one_line t"
  by (auto simp: one_line_def)

lemma printable_no_break: "CHR '' '' \<le> c \<Longrightarrow> c \<le> CHR ''~'' \<Longrightarrow> c \<notin> set line_breaks"
  by (auto simp: line_breaks_def less_eq_char_def)

lemma one_line_capitalize: "one_line s \<Longrightarrow> one_line (capitalize s)"
proof -
  have "\<forall>c. c \<notin> set line_breaks \<longrightarrow> to_lower c \<notin> set line_breaks \<and> to_upper c \<notin> set line_breaks"
    by code_simp
  then have l: "c \<notin> set line_breaks \<Longrightarrow> to_lower c \<notin> set line_breaks"
    and u: "c \<notin> set line_breaks \<Longrightarrow> to_upper c \<notin> set line_breaks" for c by blast+
  show "one_line s \<Longrightarrow> one_line (capitalize s)"
    using l u by (cases s) (auto simp: one_line_def lower_def)
qed

lemma map_of_const: "map_of (map (\<lambda>s. (s, c)) xs) s = (if s \<in> set xs then Some c else None)"
  by (induction xs) auto

lemma read_config_lines:
  assumes "table_ok g" and "meta_ok ts meta"
  shows "map_of (List.map_filter read_line (config_lines ts meta g)) s = expected g s"
proof -
  let ?secs = "gen_sections g"
  let ?L = "section_order @ sort (filter (\<lambda>s. s \<notin> set section_order) (map fst ?secs))"
  let ?dis = "filter (\<lambda>smb. smb \<notin> fst ` set g) DISABLED"
  have meta: "List.map_filter read_line (map (\<lambda>(k, v). ''# '' @ k @ '': '' @ v) meta) = []"
    using assms(2) unfolding meta_ok_def by (induction meta) (auto simp: List.map_filter_simps)
  have dis: "List.map_filter read_line (map (\<lambda>smb. ''# CONFIG_'' @ smb @ '' is not set'') xs) = map (\<lambda>s. (s, ''n'')) xs" for xs
    using read_unset_line by (induction xs) (simp_all add: List.map_filter_simps)
  have all: "set ?L = set section_order \<union> fst ` set ?secs" by auto
  have names: "\<forall>s \<in> fst ` set g. symbol_name s" and ok: "dict_ok g"
    using assms(1) by (auto simp: table_ok_def)
  have "map_of (List.map_filter read_line (write_sections ?L [] ?secs)) s = section_in g s (set ?L)"
    using read_sections [OF ok names, of ?L "[]" s] by simp
  also have "\<dots> = map_option fst (dget g s)"
    unfolding section_in_def all sections_keys by (auto split: option.splits dest: map_of_SomeD intro: rev_image_eqI)
  finally have secs: "map_of (List.map_filter read_line (write_sections ?L [] ?secs)) s = map_option fst (dget g s)" .
  have "List.map_filter read_line (config_lines ts meta g)
      = List.map_filter read_line (write_sections ?L [] ?secs) @ map (\<lambda>s. (s, ''n'')) ?dis"
    using read_other_lines(2) [of "''Disabled ---''"] read_other_lines(3,4) read_other_lines(1)
    by (simp only: config_lines_def Let_def map_filter_append meta dis List.map_filter_simps option.case append_Nil append_Nil2
        append_assoc) simp
  moreover have "map_of (map (\<lambda>s. (s, ''n'')) ?dis) s = (if s \<in> set ?dis then Some ''n'' else None)"
    by (rule map_of_const)
  moreover have "s \<in> fst ` set g \<longleftrightarrow> dget g s \<noteq> None" by (simp add: map_of_eq_None_iff)
  ultimately show ?thesis using secs
    by (cases "dget g s") (simp_all add: expected_def map_add_def case_prod_beta)
qed

lemma entry_line_one_line: "one_line s \<Longrightarrow> one_line v \<Longrightarrow> one_line (entry_line (s, v))"
proof -
  have heads: "one_line ''# CONFIG_''" "one_line '' is not set''" "one_line ''CONFIG_''" "one_line ''=''"
    unfolding one_line_def by code_simp+
  show "one_line s \<Longrightarrow> one_line v \<Longrightarrow> one_line (entry_line (s, v))"
    using heads by (simp only: entry_line_def one_line_simps(3) fst_conv snd_conv split: if_split) simp
qed

lemma section_head_one_line: "one_line sec \<Longrightarrow> one_line (''# --- '' @ capitalize sec @ '' ---'')"
proof -
  have heads: "one_line ''# --- ''" "one_line '' ---''"
    unfolding one_line_def by code_simp+
  show "one_line sec \<Longrightarrow> one_line (''# --- '' @ capitalize sec @ '' ---'')"
    using heads by (simp only: one_line_simps(3) one_line_capitalize simp_thms)
qed

lemma write_sections_one_line:
  assumes "\<And>sec xs. dget secs sec = Some xs \<Longrightarrow> one_line sec"
    and "\<And>sec xs s v. dget secs sec = Some xs \<Longrightarrow> (s, v) \<in> set xs \<Longrightarrow> one_line s \<and> one_line v"
  shows "\<forall>l \<in> set (write_sections L W secs). one_line l"
proof (induction L arbitrary: W)
  case (Cons sec L)
  show ?case
  proof (cases "dget secs sec")
    case None
    with Cons show ?thesis by simp
  next
    case (Some xs)
    have "one_line (''# --- '' @ capitalize sec @ '' ---'')" by (rule section_head_one_line [OF assms(1) [OF Some]])
    moreover have "\<forall>x \<in> set xs. one_line (entry_line x)"
      using assms(2) [OF Some] entry_line_one_line by auto
    ultimately have "\<forall>l \<in> set ((if sec \<noteq> [] then [''# --- '' @ capitalize sec @ '' ---''] else [])
        @ map entry_line (sort_key fst xs) @ [[]] @ write_sections L (sec # W) secs). one_line l"
      using Cons [of "sec # W"] by (simp add: one_line_simps(1) ball_Un)
    with Some Cons [of W] show ?thesis
      by (cases "sec \<in> set W") (simp_all only: write_sections.simps option.case if_True if_False simp_thms)
  qed
qed simp

lemma config_lines_one_line:
  assumes "table_ok g" and "meta_ok ts meta"
  shows "\<forall>l \<in> set (config_lines ts meta g). one_line l"
proof -
  have heads: "one_line ''# Linux kernel configuration''" "one_line ''# Generated by kconfig-builder on ''"
    "one_line ''# ''" "one_line '': ''" "one_line ''# --- Disabled ---''" "\<forall>s \<in> set DISABLED. one_line (''# CONFIG_'' @ s @ '' is not set'')"
    unfolding one_line_def by code_simp+
  have sec: "one_line sec" if "dget (gen_sections g) sec = Some xs" for sec xs
  proof -
    have "sec \<in> fst ` set (gen_sections g)" using map_of_SomeD [OF that] by force
    then show ?thesis using assms(1) unfolding sections_keys by (auto simp: table_ok_def)
  qed
  have ent: "one_line s \<and> one_line v" if "dget (gen_sections g) sec = Some xs" "(s, v) \<in> set xs" for sec xs s v
  proof -
    have "xs = in_section sec g" using sections_dget [of g sec] that(1) by (simp add: dget_default_def)
    then show ?thesis using assms(1) that(2) by (auto simp: in_section_def table_ok_def symbol_name_def)
  qed
  have secs: "\<forall>l \<in> set (write_sections L W (gen_sections g)). one_line l" for L W
    by (rule write_sections_one_line) (use sec ent in blast)+
  have "\<forall>(k, v) \<in> set meta. one_line (''# '' @ k @ '': '' @ v)"
    using assms(2) heads by (auto simp: meta_ok_def one_line_simps(3) simp del: append_Cons)
  moreover have "one_line (''# Generated by kconfig-builder on '' @ ts)"
    using assms(2) heads(2) by (simp add: meta_ok_def one_line_simps(3) del: append_Cons)
  ultimately show ?thesis
    unfolding config_lines_def Let_def using secs heads by (auto simp: one_line_simps(1) simp del: append_Cons)
qed

lemma read_write_config:
  "table_ok g \<Longrightarrow> meta_ok ts meta \<Longrightarrow> map_of (read_config (write_config ts meta g)) s = expected g s"
  by (simp add: read_config_def write_config_def splitlines_unlines config_lines_one_line read_config_lines)

subsection \<open>Properties\<close>


definition nvme_boot :: boot_path where
  "nvme_boot = \<lparr>root_device = ''/dev/nvme0n1p3'', bp_root_fs = ''ext4'', underlying_device = ''/dev/nvme0n1'',
     has_lvm = False, has_luks = True, has_raid = False, luks_cipher = ''aes-xts-plain64'', extra_static = []\<rparr>"


text \<open>
  C26. The file written for a symbol table reads back as the table: each symbol of the table
  once with its value, the symbols always switched off unless the table has them, and nothing else.
\<close>

theorem config_file_round_trip:
  assumes "table_ok g" and "meta_ok ts meta"
  shows "map_of (read_config (write_config ts meta g)) s = expected g s"
  by (rule read_write_config [OF assms])

theorem config_file_round_trip_witness:
  "map_of (read_config (write_config ''now'' [(''generator'', ''anaconda-gentoo'')]
     [(''PCI'', (''y'', ''essential'')), (''IGB'', (''m'', ''hardware'')), (''EMBEDDED'', (''n'', ''essential''))])) ''EMBEDDED''
   = expected [(''PCI'', (''y'', ''essential'')), (''IGB'', (''m'', ''hardware'')), (''EMBEDDED'', (''n'', ''essential''))] ''EMBEDDED''"
proof (rule config_file_round_trip)
  show "table_ok [(''PCI'', (''y'', ''essential'')), (''IGB'', (''m'', ''hardware'')), (''EMBEDDED'', (''n'', ''essential''))]"
    unfolding table_ok_def symbol_name_def one_line_def by code_simp
  show "meta_ok ''now'' [(''generator'', ''anaconda-gentoo'')]"
    unfolding meta_ok_def one_line_def by code_simp
qed

end
