(* ===== verification/Fdt.thy ===== *)
theory Fdt
  imports Bytes
begin

text \<open>
  \<^verbatim>\<open>kconfig_builder/hardware/dt.py\<close>: the reader of a flattened device tree. The structure
  block is a sequence of tokens; the reader keeps the path of open nodes and the properties seen
  since the last node began or ended. Files are parameters: what a path holds, and the device
  tree files below a directory.
\<close>

definition FDT_MAGIC :: nat where
  "FDT_MAGIC = 0xD00DFEED"

record dt_device =
  node_path :: str
  compatible :: "str list"

definition dt_aliases :: "dt_device \<Rightarrow> str list" where
  "dt_aliases d = concat (map (\<lambda>c. [''of:'' @ c, ''platform:'' @ last (split_on CHR '','' c)]) (compatible d))"

definition read_u32_be :: "bytes \<Rightarrow> nat \<Rightarrow> exn + nat" where
  "read_u32_be d off = unpack_be 4 d off"

definition align4 :: "nat \<Rightarrow> nat" where
  "align4 n = (n + 3) div 4 * 4"

text \<open>\<^verbatim>\<open>d.index(b"\x00", off)\<close>, which raises when there is no zero byte.\<close>

definition find_zero :: "bytes \<Rightarrow> nat \<Rightarrow> exn + nat" where
  "find_zero d off =
     (let i = off + length (takeWhile (\<lambda>b. b \<noteq> 0) (drop off d))
      in if i < length d then Inr i else Inl (ValueErr ''subsection not found''))"

lemma find_zero_ge: "find_zero d off = Inr i \<Longrightarrow> off \<le> i"
  by (auto simp: find_zero_def Let_def split: if_splits)

lemma align4_ge: "n \<le> align4 n"
  unfolding align4_def by presburger

definition read_string :: "bytes \<Rightarrow> nat \<Rightarrow> exn + str" where
  "read_string strs off = map_sum id (\<lambda>i. decode (slice off (i - off) strs)) (find_zero strs off)"

definition compat_strings :: "bytes \<Rightarrow> str list" where
  "compat_strings raw = filter (\<lambda>p. p \<noteq> []) (split_on CHR 0x00 (decode raw))"

definition close_node :: "str list \<Rightarrow> (str, bytes) dict \<Rightarrow> dt_device list" where
  "close_node stack props =
     (case dget props ''compatible'' of
        None \<Rightarrow> []
      | Some raw \<Rightarrow>
          if stack = [] \<or> compat_strings raw = [] then []
          else [\<lparr>node_path = ''/'' @ join ''/'' stack, compatible = compat_strings raw\<rparr>])"

text \<open>The token loop: structure block, strings block, offset, path of open nodes, properties, devices so far.\<close>

function fdt_loop :: "bytes \<Rightarrow> bytes \<Rightarrow> nat \<Rightarrow> str list \<Rightarrow> (str, bytes) dict \<Rightarrow> dt_device list \<Rightarrow> exn + dt_device list" where
  "fdt_loop sd strs off stack props devs =
     (if length sd < off + 4 then Inr devs
      else (case read_u32_be sd off of
        Inl x \<Rightarrow> Inl x
      | Inr token \<Rightarrow>
          if token = 1 then
            (case find_zero sd (off + 4) of
               Inl x \<Rightarrow> Inl x
             | Inr name_end \<Rightarrow>
                 let name = decode (slice (off + 4) (name_end - (off + 4)) sd)
                 in fdt_loop sd strs (align4 (name_end + 1))
                      (stack @ [if name = [] then ''/'' else name]) [] devs)
          else if token = 2 then
            fdt_loop sd strs (off + 4) (butlast stack) [] (devs @ close_node stack props)
          else if token = 3 then
            (if length sd < off + 12 then Inr devs
             else (case (read_u32_be sd (off + 4), read_u32_be sd (off + 8)) of
               (Inr prop_len, Inr name_off) \<Rightarrow>
                 (case read_string strs name_off of
                    Inl x \<Rightarrow> Inl x
                  | Inr prop_name \<Rightarrow>
                      fdt_loop sd strs (align4 (off + 12 + prop_len)) stack
                        (dset prop_name (slice (off + 12) prop_len sd) props) devs)
             | (Inl x, _) \<Rightarrow> Inl x
             | (_, Inl x) \<Rightarrow> Inl x))
          else if token = 9 then Inr devs
          else fdt_loop sd strs (off + 4) stack props devs))"
  by pat_completeness auto
termination
proof (relation "measure (\<lambda>(sd, strs, off, stack, props, devs). length sd - off)", goal_cases)
  case (2 sd strs off stack props devs token name_end)
  then have "off + 5 \<le> align4 (name_end + 1)"
    using find_zero_ge [of sd "off + 4" name_end] align4_ge [of "name_end + 1"] by simp
  with 2 show ?case by simp
next
  case (4 sd strs off stack props devs token x y prop_len name_off prop_name)
  then show ?case using align4_ge [of "off + 12 + prop_len"] by simp
qed auto

declare fdt_loop.simps [simp del]

definition parse_fdt :: "bytes \<Rightarrow> exn + dt_device list option" where
  "parse_fdt d =
     (if length d < 8 then Inr None
      else (case read_u32_be d 0 of
        Inl x \<Rightarrow> Inl x
      | Inr magic \<Rightarrow>
          if magic \<noteq> FDT_MAGIC then Inr None
          else (case (read_u32_be d 8, read_u32_be d 12) of
            (Inr off_struct, Inr off_strings) \<Rightarrow>
              map_sum id Some (fdt_loop (drop off_struct d) (drop off_strings d) 0 [] [] [])
          | (Inl x, _) \<Rightarrow> Inl x
          | (_, Inl x) \<Rightarrow> Inl x)))"

subsection \<open>Finding a blob\<close>

record dt_files =
  dtf_dir :: "path \<Rightarrow> (path list \<times> path list) option"
  dtf_read :: "path \<Rightarrow> bytes option"

definition dtb_dirs :: "path list" where
  "dtb_dirs = map mk_path [''/boot/dtb'', ''/boot/dtbs'', ''/boot'', ''/'']"

definition find_dtb_paths :: "dt_files \<Rightarrow> str option \<Rightarrow> path list" where
  "find_dtb_paths f hint =
     (case hint of
        Some h \<Rightarrow> if h \<noteq> [] then [mk_path h]
          else concat (map (\<lambda>d. case dtf_dir f d of None \<Rightarrow> []
            | Some (a, b) \<Rightarrow> take 5 (sort_key pparts a) @ take 5 (sort_key pparts b)) dtb_dirs)
      | None \<Rightarrow> concat (map (\<lambda>d. case dtf_dir f d of None \<Rightarrow> []
            | Some (a, b) \<Rightarrow> take 5 (sort_key pparts a) @ take 5 (sort_key pparts b)) dtb_dirs))"

fun first_fdt :: "dt_files \<Rightarrow> path list \<Rightarrow> exn + (dt_device list \<times> str option)" where
  "first_fdt f [] = Inr ([], Some ''No valid FDT/DTB found'')"
| "first_fdt f (p # ps) =
     (case dtf_read f p of
        None \<Rightarrow> first_fdt f ps
      | Some d \<Rightarrow>
          (case parse_fdt d of
             Inl x \<Rightarrow> Inl x
           | Inr None \<Rightarrow> first_fdt f ps
           | Inr (Some ds) \<Rightarrow> Inr (ds, None)))"

definition scan_dt :: "dt_files \<Rightarrow> str option \<Rightarrow> exn + (dt_device list \<times> str option)" where
  "scan_dt f hint =
     (let paths = find_dtb_paths f hint
      in if paths = [] then Inr ([], Some ''No DTB file found'') else first_fdt f paths)"

subsection \<open>Encoded trees\<close>

text \<open>A device tree, and its structure block for a given placement of property names in the strings block.\<close>

datatype dtree = DNode str "(str \<times> bytes) list" "dtree list"

definition pad4 :: "bytes \<Rightarrow> bytes" where
  "pad4 b = b @ replicate (align4 (length b) - length b) 0"

definition enc_prop :: "(str \<Rightarrow> nat) \<Rightarrow> str \<times> bytes \<Rightarrow> bytes" where
  "enc_prop so p = bytes_be 4 3 @ bytes_be 4 (length (snd p)) @ bytes_be 4 (so (fst p)) @ pad4 (snd p)"

fun enc_node :: "(str \<Rightarrow> nat) \<Rightarrow> dtree \<Rightarrow> bytes" where
  "enc_node so (DNode n ps cs) =
     bytes_be 4 1 @ pad4 (encode n @ [0]) @ concat (map (enc_prop so) ps)
     @ concat (map (enc_node so) cs) @ bytes_be 4 2"

definition node_label :: "str \<Rightarrow> str" where
  "node_label n = (if n = [] then ''/'' else n)"

text \<open>What the reader reports: the nodes without children, since the end of a child drops the properties of its parent.\<close>

fun reported :: "str list \<Rightarrow> dtree \<Rightarrow> dt_device list" where
  "reported stack (DNode n ps cs) =
     (if cs = [] then close_node (stack @ [node_label n]) (fold (\<lambda>(k, v). dset k v) ps [])
      else concat (map (reported (stack @ [node_label n])) cs))"

definition prop_ok :: "bytes \<Rightarrow> (str \<Rightarrow> nat) \<Rightarrow> str \<times> bytes \<Rightarrow> bool" where
  "prop_ok strs so p \<longleftrightarrow> read_string strs (so (fst p)) = Inr (fst p) \<and> so (fst p) < 2 ^ 32 \<and> length (snd p) < 2 ^ 32"

fun tree_ok :: "bytes \<Rightarrow> (str \<Rightarrow> nat) \<Rightarrow> dtree \<Rightarrow> bool" where
  "tree_ok strs so (DNode n ps cs) =
     (CHR 0x00 \<notin> set n \<and> list_all (prop_ok strs so) ps \<and> list_all (tree_ok strs so) cs)"

lemma align4_add: "a mod 4 = 0 \<Longrightarrow> align4 (a + n) = a + align4 n"
proof -
  assume "a mod 4 = 0"
  then obtain k where "a = 4 * k" by auto
  moreover have "(4 * k + n + 3) div 4 = k + (n + 3) div 4" by presburger
  ultimately show ?thesis by (simp add: align4_def)
qed

lemma length_pad4: "length (pad4 b) = align4 (length b)"
  using align4_ge [of "length b"] by (simp add: pad4_def)

lemma align4_mod: "align4 n mod 4 = 0"
  by (simp add: align4_def)

lemma read_u32_at: "length a = off \<Longrightarrow> x < 2 ^ 32 \<Longrightarrow> read_u32_be (a @ bytes_be 4 x @ c) off = Inr x"
  using unpack_be_at [of a off x 4 c] by (simp add: read_u32_be_def)

lemma find_zero_at:
  assumes "length a = off" and "\<forall>b \<in> set m. b \<noteq> 0"
  shows "find_zero (a @ m @ 0 # c) off = Inr (off + length m)"
proof -
  have "takeWhile (\<lambda>b. b \<noteq> 0) (m @ 0 # c) = m" by (rule takeWhile_append_stop) (use assms(2) in auto)
  then show ?thesis using assms(1) by (simp add: find_zero_def Let_def)
qed

lemma encode_nonzero:
  assumes "CHR 0x00 \<notin> set n"
  shows "\<forall>b \<in> set (encode n). b \<noteq> 0"
proof -
  have "(of_nat (of_char c) :: 8 word) \<noteq> 0" if "c \<noteq> CHR 0x00" for c
  proof
    assume "(of_nat (of_char c) :: 8 word) = 0"
    then have "(of_char c :: nat) mod 256 = 0" by (simp add: word_of_nat_eq_0_iff dvd_eq_mod_eq_0)
    then have "(of_char c :: nat) = 0" by simp
    then have "(of_char c :: nat) = of_char CHR 0x00" by simp
    then show False using that by (simp only: of_char_eq_iff)
  qed
  moreover have "c \<noteq> CHR 0x00" if "c \<in> set n" for c using assms that by metis
  ultimately show ?thesis unfolding encode_def by fastforce
qed

subsection \<open>The loop over an encoded tree\<close>

lemma token_step:
  assumes "length a = off" and "tok < 2 ^ 32"
  shows "read_u32_be (a @ bytes_be 4 tok @ c) off = Inr tok"
  using read_u32_at [OF assms] by simp

lemma begin_step:
  assumes "length a = off" and "off mod 4 = 0" and "CHR 0x00 \<notin> set n"
  shows "fdt_loop (a @ bytes_be 4 1 @ pad4 (encode n @ [0]) @ c) strs off stack props devs
     = fdt_loop (a @ bytes_be 4 1 @ pad4 (encode n @ [0]) @ c) strs (off + 4 + length (pad4 (encode n @ [0])))
         (stack @ [node_label n]) [] devs"
proof -
  define sd where "sd = a @ bytes_be 4 1 @ pad4 (encode n @ [0]) @ c"
  obtain z where z: "pad4 (encode n @ [0]) = encode n @ 0 # z" by (simp add: pad4_def)
  have sd: "sd = (a @ bytes_be 4 1) @ encode n @ 0 # (z @ c)" by (simp add: sd_def z)
  have f: "find_zero sd (off + 4) = Inr (off + 4 + length (encode n))"
    using find_zero_at [of "a @ bytes_be 4 1" "off + 4" "encode n" "z @ c"] assms(1) encode_nonzero [OF assms(3)]
    unfolding sd by simp
  have s: "slice (off + 4) (length (encode n)) sd = encode n"
    using slice_at [of "a @ bytes_be 4 1" "off + 4" "encode n" "length (encode n)" "0 # z @ c"] assms(1) by (simp add: sd)
  have "(off + 4) mod 4 = 0" using assms(2) by presburger
  then have al: "align4 (off + 4 + length (encode n) + 1) = off + 4 + length (pad4 (encode n @ [0]))"
    using align4_add [of "off + 4" "length (encode n) + 1"] by (simp add: length_pad4 add.assoc)
  have r: "read_u32_be sd off = Inr 1"
    using token_step [OF assms(1), of 1 "pad4 (encode n @ [0]) @ c"] by (simp add: sd_def)
  have l: "\<not> length sd < off + 4" using assms(1) by (simp add: sd_def)
  show ?thesis
    unfolding sd_def [symmetric]
    by (subst fdt_loop.simps)
      (simp only: r f s al l Let_def decode_encode node_label_def sum.case if_True if_False diff_add_inverse refl)
qed

lemma end_step:
  assumes "length a = off"
  shows "fdt_loop (a @ bytes_be 4 2 @ c) strs off stack props devs
     = fdt_loop (a @ bytes_be 4 2 @ c) strs (off + 4) (butlast stack) [] (devs @ close_node stack props)"
proof -
  define sd where "sd = a @ bytes_be 4 2 @ c"
  have r: "read_u32_be sd off = Inr 2" "\<not> length sd < off + 4"
    using token_step [OF assms, of 2 c] assms by (simp_all add: sd_def)
  show ?thesis unfolding sd_def [symmetric] by (subst fdt_loop.simps) (simp add: r)
qed

lemma prop_step:
  assumes "length a = off" and "off mod 4 = 0" and "prop_ok strs so p"
  shows "fdt_loop (a @ enc_prop so p @ c) strs off stack props devs
     = fdt_loop (a @ enc_prop so p @ c) strs (off + length (enc_prop so p)) stack (dset (fst p) (snd p) props) devs"
proof -
  let ?l = "length (snd p)" and ?o = "so (fst p)"
  define sd where "sd = a @ enc_prop so p @ c"
  have ok: "read_string strs ?o = Inr (fst p)" "?o < 2 ^ 32" "?l < 2 ^ 32"
    using assms(3) by (simp_all add: prop_ok_def)
  obtain z where z: "pad4 (snd p) = snd p @ z" by (simp add: pad4_def)
  have sd: "sd = a @ bytes_be 4 3 @ bytes_be 4 ?l @ bytes_be 4 ?o @ snd p @ z @ c"
    by (simp add: sd_def enc_prop_def z)
  have 1: "read_u32_be sd off = Inr 3"
    unfolding sd by (rule read_u32_at) (simp_all add: assms(1))
  have 2: "read_u32_be sd (off + 4) = Inr ?l"
    using read_u32_at [of "a @ bytes_be 4 3" "off + 4" ?l "bytes_be 4 ?o @ snd p @ z @ c"] assms(1) ok(3) by (simp add: sd)
  have 3: "read_u32_be sd (off + 8) = Inr ?o"
    using read_u32_at [of "a @ bytes_be 4 3 @ bytes_be 4 ?l" "off + 8" ?o "snd p @ z @ c"] assms(1) ok(2) by (simp add: sd)
  have 4: "slice (off + 12) ?l sd = snd p"
    using slice_at [of "a @ bytes_be 4 3 @ bytes_be 4 ?l @ bytes_be 4 ?o" "off + 12" "snd p" ?l "z @ c"] assms(1) by (simp add: sd)
  have "(off + 12) mod 4 = 0" using assms(2) by presburger
  then have 5: "align4 (off + 12 + ?l) = off + length (enc_prop so p)"
    using align4_add [of "off + 12" ?l] by (simp add: enc_prop_def length_pad4)
  have 6: "\<not> length sd < off + 4" "\<not> length sd < off + 12" using assms(1) by (simp_all add: sd)
  show ?thesis
    unfolding sd_def [symmetric]
    by (subst fdt_loop.simps) (simp add: 1 2 3 4 5 6 ok(1))
qed

lemma enc_prop_mod: "length (enc_prop so p) mod 4 = 0"
proof -
  have "length (enc_prop so p) = 12 + align4 (length (snd p))" by (simp add: enc_prop_def length_pad4)
  then show ?thesis using align4_mod [of "length (snd p)"] by presburger
qed

lemma props_loop:
  assumes "length a mod 4 = 0" and "list_all (prop_ok strs so) ps"
  shows "fdt_loop (a @ concat (map (enc_prop so) ps) @ c) strs (length a) stack props devs
     = fdt_loop (a @ concat (map (enc_prop so) ps) @ c) strs (length a + length (concat (map (enc_prop so) ps))) stack
         (fold (\<lambda>(k, v). dset k v) ps props) devs"
  using assms
proof (induction ps arbitrary: a props)
  case (Cons p ps)
  let ?a = "a @ enc_prop so p"
  have "length ?a mod 4 = 0" using Cons.prems(1) enc_prop_mod [of so p] by (simp add: mod_add_eq [symmetric])
  then show ?case
    using prop_step [OF refl Cons.prems(1), of strs so p "concat (map (enc_prop so) ps) @ c" stack props devs]
      Cons.IH [of ?a "dset (fst p) (snd p) props"] Cons.prems(2)
    by (simp add: case_prod_beta add.assoc)
qed simp

lemma enc_node_mod: "length (enc_node so t) mod 4 = 0"
proof (induction t)
  case (DNode n ps cs)
  have sum: "(\<forall>x \<in> set xs. length x mod 4 = 0) \<Longrightarrow> length (concat xs) mod 4 = 0" for xs :: "bytes list"
    by (induction xs) (auto simp: mod_add_eq [symmetric])
  have a: "length (concat (map (enc_prop so) ps)) mod 4 = 0" by (rule sum) (auto simp: enc_prop_mod)
  have b: "length (concat (map (enc_node so) cs)) mod 4 = 0" by (rule sum) (auto simp: DNode)
  have l: "length (enc_node so (DNode n ps cs)) = 8 + length (pad4 (encode n @ [0]))
      + length (concat (map (enc_prop so) ps)) + length (concat (map (enc_node so) cs))"
    by (simp del: length_concat)
  show ?case unfolding l using a b align4_mod [of "length (encode n @ [0])"] unfolding length_pad4 by presburger
qed

lemma node_loop:
  "tree_ok strs so t \<Longrightarrow> length a mod 4 = 0 \<Longrightarrow>
     fdt_loop (a @ enc_node so t @ c) strs (length a) stack props devs
     = fdt_loop (a @ enc_node so t @ c) strs (length a + length (enc_node so t)) stack [] (devs @ reported stack t)"
proof (induction t arbitrary: a c stack props devs)
  case (DNode n ps cs)
  let ?hd = "bytes_be 4 1 @ pad4 (encode n @ [0])"
  let ?ps = "concat (map (enc_prop so) ps)"
  let ?stack = "stack @ [node_label n]"
  have kids: "fdt_loop (b @ concat (map (enc_node so) ks) @ d) strs (length b) ?stack props devs
      = fdt_loop (b @ concat (map (enc_node so) ks) @ d) strs (length b + length (concat (map (enc_node so) ks))) ?stack
          (if ks = [] then props else []) (devs @ concat (map (reported ?stack) ks))"
    if "length b mod 4 = 0" "set ks \<subseteq> set cs" for b d ks props devs
    using that
  proof (induction ks arbitrary: b props devs)
    case (Cons k ks)
    let ?b = "b @ enc_node so k"
    have "tree_ok strs so k" using DNode.prems(1) Cons.prems(2) by (auto simp: list_all_iff)
    then have 1: "fdt_loop (b @ enc_node so k @ concat (map (enc_node so) ks) @ d) strs (length b) ?stack props devs
        = fdt_loop (b @ enc_node so k @ concat (map (enc_node so) ks) @ d) strs (length b + length (enc_node so k)) ?stack []
            (devs @ reported ?stack k)"
      using DNode.IH [of k b "concat (map (enc_node so) ks) @ d" ?stack props devs] Cons.prems by simp
    have "length ?b mod 4 = 0" using Cons.prems(1) enc_node_mod [of so k] by (simp add: mod_add_eq [symmetric])
    then have "fdt_loop (?b @ concat (map (enc_node so) ks) @ d) strs (length ?b) ?stack [] (devs @ reported ?stack k)
        = fdt_loop (?b @ concat (map (enc_node so) ks) @ d) strs (length ?b + length (concat (map (enc_node so) ks))) ?stack []
            ((devs @ reported ?stack k) @ concat (map (reported ?stack) ks))"
      using Cons.IH [of ?b "[]" "devs @ reported ?stack k"] Cons.prems(2) by (simp del: length_concat)
    with 1 show ?case by (simp add: add.assoc del: length_concat)
  qed simp
  define ks where "ks = concat (map (enc_node so) cs)"
  define sd where "sd = a @ enc_node so (DNode n ps cs) @ c"
  let ?props = "fold (\<lambda>(k, v). dset k v) ps []"
  let ?a1 = "a @ ?hd" and ?a2 = "a @ ?hd @ ?ps" and ?a3 = "a @ ?hd @ ?ps @ ks"
  have sd: "sd = a @ bytes_be 4 1 @ pad4 (encode n @ [0]) @ (?ps @ ks @ bytes_be 4 2 @ c)"
    "sd = ?a1 @ ?ps @ (ks @ bytes_be 4 2 @ c)" "sd = ?a2 @ ks @ (bytes_be 4 2 @ c)" "sd = ?a3 @ bytes_be 4 2 @ c"
    by (simp_all add: sd_def ks_def)
  have m1: "length ?a1 mod 4 = 0"
    using DNode.prems(2) align4_mod [of "length (encode n @ [0])"] by (simp add: length_pad4) presburger
  have "length ?ps mod 4 = 0"
    using enc_prop_mod by (induction ps) (auto simp: mod_add_eq [symmetric])
  then have m2: "length ?a2 mod 4 = 0" using m1 by (simp del: length_concat) presburger
  have "fdt_loop sd strs (length a) stack props devs = fdt_loop sd strs (length ?a1) ?stack [] devs"
    using begin_step [OF refl DNode.prems(2), of n "?ps @ ks @ bytes_be 4 2 @ c" strs stack props devs] DNode.prems(1)
    unfolding sd(1) by (simp add: add.assoc)
  also have "\<dots> = fdt_loop sd strs (length ?a2) ?stack ?props devs"
    using props_loop [OF m1, of strs so ps "ks @ bytes_be 4 2 @ c" ?stack "[]" devs] DNode.prems(1)
    unfolding sd(2) by (simp add: add.assoc del: length_concat)
  also have "\<dots> = fdt_loop sd strs (length ?a3) ?stack (if cs = [] then ?props else []) (devs @ concat (map (reported ?stack) cs))"
    using kids [OF m2, of cs "bytes_be 4 2 @ c" ?props devs] unfolding sd(3) ks_def by (simp add: add.assoc del: length_concat)
  also have "\<dots> = fdt_loop sd strs (length ?a3 + 4) stack [] (devs @ reported stack (DNode n ps cs))"
    using end_step [of ?a3 "length ?a3" c strs ?stack] unfolding sd(4)
    by (auto simp: close_node_def simp del: length_append)
  also have "length ?a3 + 4 = length a + length (enc_node so (DNode n ps cs))" by (simp add: ks_def)
  finally show ?case unfolding sd_def .
qed

subsection \<open>A whole blob\<close>

text \<open>Header, structure block and strings block; the header fields the reader skips are arbitrary.\<close>

definition fdt_blob :: "bytes \<Rightarrow> bytes \<Rightarrow> (str \<Rightarrow> nat) \<Rightarrow> bytes \<Rightarrow> dtree \<Rightarrow> bytes" where
  "fdt_blob tsize other so strs t =
     bytes_be 4 FDT_MAGIC @ tsize @ bytes_be 4 40 @ bytes_be 4 (44 + length (enc_node so t)) @ other
     @ enc_node so t @ bytes_be 4 9 @ strs"

lemma loop_end:
  assumes "length a = off"
  shows "fdt_loop (a @ bytes_be 4 9 @ c) strs off stack props devs = Inr devs"
proof -
  define sd where "sd = a @ bytes_be 4 9 @ c"
  have r: "read_u32_be sd off = Inr 9" "\<not> length sd < off + 4"
    using token_step [OF assms, of 9 c] assms by (simp_all add: sd_def)
  show ?thesis unfolding sd_def [symmetric] by (subst fdt_loop.simps) (simp add: r)
qed

lemma parse_fdt_blob:
  assumes "tree_ok strs so t" and "length tsize = 4" and "length other = 24" and "44 + length (enc_node so t) < 2 ^ 32"
  shows "parse_fdt (fdt_blob tsize other so strs t) = Inr (Some (reported [] t))"
proof -
  let ?n = "enc_node so t"
  define d where "d = fdt_blob tsize other so strs t"
  have d: "d = [] @ bytes_be 4 FDT_MAGIC @ (tsize @ bytes_be 4 40 @ bytes_be 4 (44 + length ?n) @ other @ ?n @ bytes_be 4 9 @ strs)"
    "d = (bytes_be 4 FDT_MAGIC @ tsize) @ bytes_be 4 40 @ (bytes_be 4 (44 + length ?n) @ other @ ?n @ bytes_be 4 9 @ strs)"
    "d = (bytes_be 4 FDT_MAGIC @ tsize @ bytes_be 4 40) @ bytes_be 4 (44 + length ?n) @ (other @ ?n @ bytes_be 4 9 @ strs)"
    "d = (bytes_be 4 FDT_MAGIC @ tsize @ bytes_be 4 40 @ bytes_be 4 (44 + length ?n) @ other) @ ?n @ bytes_be 4 9 @ strs"
    "d = (bytes_be 4 FDT_MAGIC @ tsize @ bytes_be 4 40 @ bytes_be 4 (44 + length ?n) @ other @ ?n @ bytes_be 4 9) @ strs"
    by (simp_all add: d_def fdt_blob_def)
  have 1: "read_u32_be d 0 = Inr FDT_MAGIC"
    unfolding d(1) by (rule read_u32_at) (simp_all add: FDT_MAGIC_def)
  have 2: "read_u32_be d 8 = Inr 40"
    unfolding d(2) by (rule read_u32_at) (simp_all add: assms)
  have 3: "read_u32_be d 12 = Inr (44 + length ?n)"
    unfolding d(3) by (rule read_u32_at) (use assms in simp_all)
  have 4: "drop 40 d = [] @ ?n @ bytes_be 4 9 @ strs"
    unfolding d(4) using assms(2,3) by simp
  have 5: "drop (44 + length ?n) d = strs"
    unfolding d(5) using assms(2,3) by simp
  have 6: "fdt_loop (?n @ bytes_be 4 9 @ strs) strs 0 [] [] [] = Inr (reported [] t)"
    using node_loop [OF assms(1), of "[]" "bytes_be 4 9 @ strs" "[]" "[]" "[]"] loop_end [OF refl, of ?n strs strs "[]" "[]"]
    by simp
  have "\<not> length d < 8" by (simp add: d_def fdt_blob_def)
  then show ?thesis
    unfolding d_def [symmetric] parse_fdt_def 1 2 3 by (simp add: 4 5 6)
qed

subsection \<open>Properties\<close>


definition sample_strings :: bytes where
  "sample_strings = encode ''compatible'' @ [0]"

definition bus_tree :: dtree where
  "bus_tree = DNode [] [] [DNode ''soc'' [(''compatible'', encode ''simple-bus'' @ [0])]
     [DNode ''uart'' [(''compatible'', encode ''ns16550a'' @ [0])] []]]"


text \<open>A blob with the magic number but cut off inside its header raises an exception instead of being rejected.\<close>

theorem fdt_short_header:
  assumes "length d < 12" and "8 \<le> length d" and "read_u32_be d 0 = Inr FDT_MAGIC"
  shows "parse_fdt d = Inl StructErr"
  using assms by (simp add: parse_fdt_def) (simp add: read_u32_be_def unpack_be_def)

theorem fdt_short_header_witness: "parse_fdt (bytes_be 4 FDT_MAGIC @ [0, 0, 0, 8]) = Inl StructErr"
  by (rule fdt_short_header) (simp_all, code_simp)

end
