(* ===== verification/Acpi.thy ===== *)
theory Acpi
  imports Bytes
begin

text \<open>
  \<^verbatim>\<open>kconfig_builder/hardware/acpi.py\<close>: finding the ACPI tables in physical memory.
  The memory device is a parameter: what mapping a number of bytes at an aligned offset gives,
  or nothing when the mapping fails.
\<close>

type_synonym mem = "nat \<Rightarrow> nat \<Rightarrow> bytes option"

definition RSDP_SIG :: bytes where
  "RSDP_SIG = encode ''RSD PTR ''"

definition BIOS_START :: nat where
  "BIOS_START = 0xE0000"

definition BIOS_END :: nat where
  "BIOS_END = 0x100000"

definition PAGE_SIZE :: nat where
  "PAGE_SIZE = 4096"

definition TABLE_TO_CONFIG :: "(str, str list) dict" where
  "TABLE_TO_CONFIG =
     [(''APIC'', [''X86_LOCAL_APIC'', ''X86_IO_APIC'', ''ACPI'']),
      (''HPET'', [''HPET'', ''HPET_TIMER'']),
      (''MCFG'', [''PCI_MMCONFIG'', ''PCIEPORTBUS'']),
      (''FACP'', [''ACPI'']), (''SSDT'', [''ACPI'']), (''DSDT'', [''ACPI'']),
      (''SRAT'', [''ACPI_NUMA'', ''NUMA'']),
      (''DMAR'', [''INTEL_IOMMU'', ''IOMMU_SUPPORT'']),
      (''IVRS'', [''AMD_IOMMU'', ''IOMMU_SUPPORT'']),
      (''BGRT'', [''ACPI_BGRT'']), (''FPDT'', [''ACPI'']), (''WAET'', [''ACPI'']),
      (''TPM2'', [''TCG_TPM'', ''TCG_CRB'']), (''TCPA'', [''TCG_TPM'']),
      (''LPIT'', [''ACPI_LPIT'']), (''MCHI'', [''ACPI'']),
      (''NHLT'', [''SND_SOC_INTEL_SKYLAKE'']), (''WSMT'', [''ACPI''])]"

record acpi_info =
  has_acpi :: bool
  table_sigs :: "str list"
  has_mcfg :: bool
  mcfg_base :: nat

definition no_acpi :: acpi_info where
  "no_acpi = \<lparr>has_acpi = False, table_sigs = [], has_mcfg = False, mcfg_base = 0\<rparr>"

definition implied_configs :: "acpi_info \<Rightarrow> str list" where
  "implied_configs i =
     sort (remdups ((if has_acpi i then [''ACPI''] else [])
       @ concat (map (\<lambda>s. dget_default TABLE_TO_CONFIG s []) (table_sigs i))))"

definition checksum :: "bytes \<Rightarrow> nat" where
  "checksum d = sum_list (map unat d) mod 256"

definition mmap_phys :: "mem \<Rightarrow> nat \<Rightarrow> nat \<Rightarrow> bytes option" where
  "mmap_phys m phys len =
     (let page_offset = phys mod PAGE_SIZE; aligned = phys - page_offset; map_len = len + page_offset
      in map_option (slice page_offset len) (m aligned map_len))"

record rsdp =
  rs_revision :: nat
  rs_rsdt :: nat
  rs_xsdt :: nat

text \<open>All the reads of \<^verbatim>\<open>_parse_rsdp\<close> are inside the length it checks first.\<close>

definition parse_rsdp :: "bytes \<Rightarrow> rsdp option" where
  "parse_rsdp d =
     (if length d < 20 \<or> slice 0 8 d \<noteq> RSDP_SIG then None
      else if checksum (slice 0 20 d) \<noteq> 0 then None
      else let revision = unat (d ! 15) in
        Some \<lparr>rs_revision = revision, rs_rsdt = nat_le (slice 16 4 d),
          rs_xsdt = (if 2 \<le> revision \<and> 36 \<le> length d then nat_le (slice 24 8 d) else 0)\<rparr>)"

definition strip_zero :: "str \<Rightarrow> str" where
  "strip_zero s = strip_chars [CHR 0x00] s"

definition read_table_header :: "mem \<Rightarrow> nat \<Rightarrow> (str \<times> nat) option" where
  "read_table_header m phys =
     (case mmap_phys m phys 8 of
        None \<Rightarrow> None
      | Some hdr \<Rightarrow>
          if hdr = [] \<or> length hdr < 8 then None
          else Some (strip_zero (decode (slice 0 4 hdr)), nat_le (slice 4 4 hdr)))"

text \<open>The entry loop, for entries of a width; addresses that are zero are left out.\<close>

function table_entries :: "nat \<Rightarrow> bytes \<Rightarrow> nat \<Rightarrow> nat list" where
  "table_entries n d off =
     (if n = 0 \<or> length d < off + n then []
      else let addr = nat_le (slice off n d)
           in (if addr = 0 then [] else [addr]) @ table_entries n d (off + n))"
  by pat_completeness auto
termination
  by (relation "measure (\<lambda>(n, d, off). length d - off)") auto

declare table_entries.simps [simp del]

definition parse_table :: "nat \<Rightarrow> mem \<Rightarrow> nat \<Rightarrow> nat list" where
  "parse_table n m phys =
     (case read_table_header m phys of
        None \<Rightarrow> []
      | Some (sig, len) \<Rightarrow>
          (case mmap_phys m phys (min len 4096) of
             None \<Rightarrow> []
           | Some d \<Rightarrow> if d = [] \<or> length d < 36 then [] else table_entries n d 36))"

definition parse_rsdt :: "mem \<Rightarrow> nat \<Rightarrow> nat list" where
  "parse_rsdt m phys = parse_table 4 m phys"

definition parse_xsdt :: "mem \<Rightarrow> nat \<Rightarrow> nat list" where
  "parse_xsdt m phys = parse_table 8 m phys"

definition parse_mcfg :: "mem \<Rightarrow> nat \<Rightarrow> exn + (nat \<times> bool)" where
  "parse_mcfg m phys =
     (case read_table_header m phys of
        None \<Rightarrow> Inr (0, False)
      | Some (sig, len) \<Rightarrow>
          (case mmap_phys m phys (min len 256) of
             None \<Rightarrow> Inr (0, False)
           | Some d \<Rightarrow>
               if d = [] \<or> length d < 44 then Inr (0, False)
               else map_sum id (\<lambda>base. (base, True)) (unpack_le 8 d 44)))"

subsection \<open>The scan\<close>

text \<open>The search for the signature at 16-byte steps; the code compares with the length less eight.\<close>

function find_rsdp :: "bytes \<Rightarrow> nat \<Rightarrow> nat option" where
  "find_rsdp d pos =
     (if length d - 8 \<le> pos then None
      else if slice pos 8 d = RSDP_SIG then Some pos
      else find_rsdp d (pos + 16))"
  by pat_completeness auto
termination
  by (relation "measure (\<lambda>(d, pos). length d - pos)") auto

declare find_rsdp.simps [simp del]

definition scan_table :: "mem \<Rightarrow> nat \<Rightarrow> acpi_info \<Rightarrow> exn + acpi_info" where
  "scan_table m phys info =
     (case read_table_header m phys of
        None \<Rightarrow> Inr info
      | Some (sig, len) \<Rightarrow>
          let info1 = (if sig \<in> set (table_sigs info) then info else info\<lparr>table_sigs := table_sigs info @ [sig]\<rparr>)
          in if sig = ''MCFG'' then
               (case parse_mcfg m phys of
                  Inl x \<Rightarrow> Inl x
                | Inr (base, found) \<Rightarrow>
                    Inr (if found then info1\<lparr>has_mcfg := True, mcfg_base := base\<rparr> else info1))
             else Inr info1)"

fun scan_tables :: "mem \<Rightarrow> nat list \<Rightarrow> acpi_info \<Rightarrow> exn + acpi_info" where
  "scan_tables m [] info = Inr info"
| "scan_tables m (a # as) info = (case scan_table m a info of Inl x \<Rightarrow> Inl x | Inr info' \<Rightarrow> scan_tables m as info')"

definition scan_acpi :: "mem option \<Rightarrow> exn + (acpi_info \<times> str option)" where
  "scan_acpi dev =
     (case dev of
        None \<Rightarrow> Inr (no_acpi, Some ''Cannot open /dev/mem'')
      | Some m \<Rightarrow>
          (case mmap_phys m BIOS_START (BIOS_END - BIOS_START) of
             None \<Rightarrow> Inr (no_acpi, Some ''Cannot mmap BIOS area from /dev/mem'')
           | Some bios \<Rightarrow>
               if bios = [] then Inr (no_acpi, Some ''Cannot mmap BIOS area from /dev/mem'')
               else (case find_rsdp bios 0 of
                  None \<Rightarrow> Inr (no_acpi, None)
                | Some off \<Rightarrow>
                    (case parse_rsdp (slice off 36 bios) of
                       None \<Rightarrow> Inr (no_acpi, Some ''RSDP checksum failed'')
                     | Some r \<Rightarrow>
                         map_sum id (\<lambda>i. (i, None))
                           (scan_tables m (if rs_xsdt r \<noteq> 0 then parse_xsdt m (rs_xsdt r) else parse_rsdt m (rs_rsdt r))
                             (no_acpi\<lparr>has_acpi := True\<rparr>))))))"

subsection \<open>Reading a table\<close>

lemma table_entries_at:
  assumes "0 < n" and "\<forall>x \<in> set xs. x < 256 ^ n"
  shows "table_entries n (pre @ concat (map (bytes_le n) xs)) (length pre) = filter (\<lambda>x. x \<noteq> 0) xs"
  using assms(2)
proof (induction xs arbitrary: pre)
  case Nil
  show ?case by (subst table_entries.simps) (use assms(1) in simp)
next
  case (Cons x xs)
  let ?d = "pre @ bytes_le n x @ concat (map (bytes_le n) xs)"
  have "nat_le (slice (length pre) n ?d) = x"
    using slice_at [of pre "length pre" "bytes_le n x" n] nat_le_bytes_le Cons.prems by simp
  moreover have "table_entries n ?d (length pre + n) = filter (\<lambda>x. x \<noteq> 0) xs"
    using Cons.IH [of "pre @ bytes_le n x"] Cons.prems by simp
  ultimately have "table_entries n ?d (length pre) = filter (\<lambda>x. x \<noteq> 0) (x # xs)"
    using assms(1) by (subst table_entries.simps) (simp add: Let_def)
  then show ?case by simp
qed

text \<open>Physical memory that can be mapped everywhere.\<close>

definition phys_mem :: "(nat \<Rightarrow> 8 word) \<Rightarrow> mem" where
  "phys_mem f off len = Some (map f [off..<off + len])"

definition bytes_from :: "(nat \<Rightarrow> 8 word) \<Rightarrow> nat \<Rightarrow> nat \<Rightarrow> bytes" where
  "bytes_from f a n = map f [a..<a + n]"

lemma mmap_phys_mem: "mmap_phys (phys_mem f) a n = Some (bytes_from f a n)"
proof -
  have "drop (a mod 4096) (map f [a - a mod 4096..<a - a mod 4096 + (n + a mod 4096)]) = map f [a..<a + n]"
    by (simp add: drop_map)
  then show ?thesis
    by (simp add: mmap_phys_def phys_mem_def slice_def bytes_from_def PAGE_SIZE_def Let_def)
qed

text \<open>A table as it lies in memory: signature, length, the rest of the header, and its body.\<close>

definition table_bytes :: "str \<Rightarrow> bytes \<Rightarrow> bytes \<Rightarrow> bytes" where
  "table_bytes sig hdr body = encode sig @ bytes_le 4 (36 + length body) @ hdr @ body"

definition has_table :: "(nat \<Rightarrow> 8 word) \<Rightarrow> nat \<Rightarrow> str \<Rightarrow> bytes \<Rightarrow> bytes \<Rightarrow> bool" where
  "has_table f a sig hdr body \<longleftrightarrow> length sig = 4 \<and> length hdr = 28
     \<and> bytes_from f a (36 + length body) = table_bytes sig hdr body \<and> 36 + length body < 2 ^ 32"

lemma bytes_from_take: "n \<le> k \<Longrightarrow> bytes_from f a n = take n (bytes_from f a k)"
  by (simp add: bytes_from_def take_map)

lemma length_bytes_from [simp]: "length (bytes_from f a n) = n"
  by (simp add: bytes_from_def)

lemma length_encode [simp]: "length (encode s) = length s"
  by (simp add: encode_def)

lemma has_table_header:
  assumes "has_table f a sig hdr body"
  shows "read_table_header (phys_mem f) a = Some (strip_zero sig, 36 + length body)"
proof -
  let ?len = "36 + length body"
  have l: "length sig = 4" "length hdr = 28" "?len < 2 ^ 32" using assms by (simp_all add: has_table_def)
  have "bytes_from f a 8 = take 8 (table_bytes sig hdr body)"
    using bytes_from_take [of 8 ?len f a] assms by (simp add: has_table_def)
  also have "\<dots> = encode sig @ bytes_le 4 ?len @ []" using l by (simp add: table_bytes_def)
  finally have b: "bytes_from f a 8 = encode sig @ bytes_le 4 ?len @ []" .
  have "slice 0 4 (bytes_from f a 8) = encode sig" unfolding b using l by (simp add: slice_def)
  moreover have "nat_le (slice 4 4 (bytes_from f a 8)) = ?len"
    unfolding b using slice_at [of "encode sig" 4 "bytes_le 4 ?len" 4 "[]"] l nat_le_bytes_le [of ?len 4] by simp
  ultimately show ?thesis
    by (simp add: read_table_header_def mmap_phys_mem decode_encode b [symmetric])
      (metis length_bytes_from list.size(3) zero_neq_numeral)
qed

lemma parse_table_entries:
  assumes "has_table f a sig hdr (concat (map (bytes_le n) xs))" and "0 < n"
    and "\<forall>x \<in> set xs. x < 256 ^ n" and "36 + length (concat (map (bytes_le n) xs)) \<le> 4096"
  shows "parse_table n (phys_mem f) a = filter (\<lambda>x. x \<noteq> 0) xs"
proof -
  let ?body = "concat (map (bytes_le n) xs)"
  define pre where "pre = encode sig @ bytes_le 4 (36 + length ?body) @ hdr"
  have "table_bytes sig hdr ?body = pre @ ?body" by (simp add: table_bytes_def pre_def)
  moreover have "length pre = 36" using assms(1) by (simp add: has_table_def pre_def)
  ultimately have "table_entries n (table_bytes sig hdr ?body) 36 = filter (\<lambda>x. x \<noteq> 0) xs"
    using table_entries_at [OF assms(2,3), of pre] by simp
  moreover have "bytes_from f a (36 + length ?body) = table_bytes sig hdr ?body" using assms(1) by (simp add: has_table_def)
  moreover have "table_bytes sig hdr ?body \<noteq> []" using assms(1) by (auto simp: table_bytes_def has_table_def encode_def)
  moreover have "\<not> length (table_bytes sig hdr ?body) < 36" using assms(1) by (simp add: table_bytes_def has_table_def)
  ultimately show ?thesis
    using assms(4) by (simp add: parse_table_def has_table_header [OF assms(1)] mmap_phys_mem min_absorb1 del: length_concat)
qed

text \<open>The signatures a scan records are those of the tables, each once, in the order they are met.\<close>

lemma scan_table_sigs:
  assumes "scan_table m a info = Inr info1"
  shows "has_acpi info1 = has_acpi info \<and> table_sigs info1 = (case read_table_header m a of
      None \<Rightarrow> table_sigs info
    | Some (sig, len) \<Rightarrow> if sig \<in> set (table_sigs info) then table_sigs info else table_sigs info @ [sig])"
proof (cases "read_table_header m a")
  case None
  with assms show ?thesis by (simp add: scan_table_def)
next
  case (Some h)
  obtain sig len where h: "h = (sig, len)" by (cases h)
  define i1 where "i1 = (if sig \<in> set (table_sigs info) then info else info\<lparr>table_sigs := table_sigs info @ [sig]\<rparr>)"
  have i1: "has_acpi i1 = has_acpi info"
    "table_sigs i1 = (if sig \<in> set (table_sigs info) then table_sigs info else table_sigs info @ [sig])"
    by (simp_all add: i1_def)
  have "scan_table m a info = (if sig = ''MCFG'' then map_sum id (\<lambda>(base, found).
      if found then i1\<lparr>has_mcfg := True, mcfg_base := base\<rparr> else i1) (parse_mcfg m a) else Inr i1)"
    unfolding scan_table_def Some h option.case prod.case Let_def i1_def [symmetric]
    by (cases "parse_mcfg m a") (auto split: prod.splits)
  then have "has_acpi info1 = has_acpi i1 \<and> table_sigs info1 = table_sigs i1"
    using assms by (cases "parse_mcfg m a") (auto split: if_splits prod.splits)
  with i1 Some h show ?thesis by simp
qed

lemma scan_tables_sigs:
  "scan_tables m as info = Inr info' \<Longrightarrow> distinct (table_sigs info) \<Longrightarrow>
     distinct (table_sigs info') \<and> has_acpi info' = has_acpi info
     \<and> set (table_sigs info') = set (table_sigs info) \<union> {sig. \<exists>a \<in> set as. \<exists>len. read_table_header m a = Some (sig, len)}"
proof (induction m as info rule: scan_tables.induct)
  case (2 m a as info)
  obtain info1 where 1: "scan_table m a info = Inr info1" "scan_tables m as info1 = Inr info'"
    using "2.prems"(1) by (cases "scan_table m a info") simp_all
  have d: "distinct (table_sigs info1)" "has_acpi info1 = has_acpi info"
    "set (table_sigs info1) = set (table_sigs info) \<union> {sig. \<exists>len. read_table_header m a = Some (sig, len)}"
    using scan_table_sigs [OF 1(1)] "2.prems"(2) by (cases "read_table_header m a"; force)+
  have "distinct (table_sigs info') \<and> has_acpi info' = has_acpi info1
     \<and> set (table_sigs info') = set (table_sigs info1) \<union> {sig. \<exists>a \<in> set as. \<exists>len. read_table_header m a = Some (sig, len)}"
    by (rule "2.IH" [OF 1 d(1)])
  moreover have "{sig. \<exists>b \<in> set (a # as). \<exists>len. read_table_header m b = Some (sig, len)}
      = {sig. \<exists>len. read_table_header m a = Some (sig, len)}
        \<union> {sig. \<exists>b \<in> set as. \<exists>len. read_table_header m b = Some (sig, len)}" by auto
  ultimately show ?case using d(2,3) by (simp only: Un_assoc simp_thms)
qed simp

subsection \<open>Properties\<close>

text \<open>
  C35. For a table of the extended root kind in physical memory, at any address and of at most
  a page, the addresses read are exactly its entries other than zero, in order.
\<close>

theorem xsdt_entries:
  assumes "has_table f a sig hdr (concat (map (bytes_le 8) xs))"
    and "\<forall>x \<in> set xs. x < 256 ^ 8" and "36 + 8 * length xs \<le> 4096"
  shows "parse_xsdt (phys_mem f) a = filter (\<lambda>x. x \<noteq> 0) xs"
proof -
  have "length (concat (map (bytes_le 8) xs)) = 8 * length xs" by (induction xs) simp_all
  then show ?thesis
    unfolding parse_xsdt_def using assms by (intro parse_table_entries) simp_all
qed

definition place :: "nat \<Rightarrow> bytes \<Rightarrow> nat \<Rightarrow> 8 word" where
  "place a bs i = (if a \<le> i \<and> i < a + length bs then bs ! (i - a) else 0)"

lemma bytes_from_place: "bytes_from (place a bs) a (length bs) = bs"
proof (rule nth_equalityI)
  show "bytes_from (place a bs) a (length bs) ! i = bs ! i" if "i < length (bytes_from (place a bs) a (length bs))" for i
    using that by (simp add: bytes_from_def place_def)
qed simp

theorem xsdt_entries_witness:
  "parse_xsdt (phys_mem (place 0x7FE0 (table_bytes ''XSDT'' (replicate 28 0) (concat (map (bytes_le 8) [0x8000, 0, 0x9000]))))) 0x7FE0
     = [0x8000, 0x9000]"
proof -
  let ?xs = "[0x8000, 0, 0x9000] :: nat list"
  let ?t = "table_bytes ''XSDT'' (replicate 28 0) (concat (map (bytes_le 8) ?xs))"
  have len: "length (concat (map (bytes_le 8) ?xs)) = 24" by simp
  then have lt: "length ?t = 60" by (simp only: table_bytes_def length_append length_bytes length_encode length_replicate) simp
  have "parse_xsdt (phys_mem (place 0x7FE0 ?t)) 0x7FE0 = filter (\<lambda>x. x \<noteq> 0) ?xs"
  proof (rule xsdt_entries)
    show "has_table (place 0x7FE0 ?t) 0x7FE0 ''XSDT'' (replicate 28 0) (concat (map (bytes_le 8) ?xs))"
      unfolding has_table_def len using bytes_from_place [of "0x7FE0" ?t] unfolding lt by simp
  qed simp_all
  then show ?thesis by simp
qed

text \<open>
  A scan that returns has recorded each signature of the tables it could read once, and
  nothing else.
\<close>

theorem scan_records_signatures:
  assumes "scan_tables m as (no_acpi\<lparr>has_acpi := True\<rparr>) = Inr info"
  shows "has_acpi info \<and> distinct (table_sigs info)
     \<and> set (table_sigs info) = {sig. \<exists>a \<in> set as. \<exists>len. read_table_header m a = Some (sig, len)}"
  using scan_tables_sigs [OF assms] by (simp add: no_acpi_def)

definition two_tables :: mem where
  "two_tables a n = Some (take n (encode (if a = 0 then ''FACP'' else ''APIC'') @ bytes_le 4 36 @ replicate n 0))"

theorem scan_records_signatures_witness:
  "\<exists>info. scan_tables two_tables [0, 4096, 0] (no_acpi\<lparr>has_acpi := True\<rparr>) = Inr info \<and> distinct (table_sigs info)"
proof -
  have "\<not> isl (scan_tables two_tables [0, 4096, 0] (no_acpi\<lparr>has_acpi := True\<rparr>))" by code_simp
  then obtain info where "scan_tables two_tables [0, 4096, 0] (no_acpi\<lparr>has_acpi := True\<rparr>) = Inr info"
    by (cases "scan_tables two_tables [0, 4096, 0] (no_acpi\<lparr>has_acpi := True\<rparr>)") auto
  with scan_records_signatures [OF this] show ?thesis by blast
qed

text \<open>
  The length check of the MCFG reader is short by eight bytes: a table of 44 to 51 bytes
  passes it and the read of the base address raises, which the scan does not catch.
\<close>

theorem short_mcfg_raises:
  assumes "has_table f a ''MCFG'' hdr body" and "8 \<le> length body" and "length body < 16"
  shows "scan_table (phys_mem f) a info = Inl StructErr"
proof -
  let ?t = "table_bytes ''MCFG'' hdr body"
  have t: "length ?t = 36 + length body" "bytes_from f a (36 + length body) = ?t"
    using assms(1) by (simp_all add: has_table_def table_bytes_def)
  have s: "strip_zero ''MCFG'' = ''MCFG''" by code_simp
  have "?t \<noteq> []" using t(1) by auto
  then have "parse_mcfg (phys_mem f) a = Inl StructErr"
    using t assms(2,3) by (simp add: parse_mcfg_def has_table_header [OF assms(1)] mmap_phys_mem unpack_le_def)
  then show ?thesis by (simp add: scan_table_def has_table_header [OF assms(1)] s)
qed

theorem short_mcfg_raises_witness:
  "scan_table (phys_mem (place 0x1000 (table_bytes ''MCFG'' (replicate 28 0) (replicate 8 0)))) 0x1000 no_acpi = Inl StructErr"
proof (rule short_mcfg_raises)
  have "length (table_bytes ''MCFG'' (replicate 28 0) (replicate 8 0)) = 44" by (simp add: table_bytes_def)
  then show "has_table (place 0x1000 (table_bytes ''MCFG'' (replicate 28 0) (replicate 8 0))) 0x1000 ''MCFG'' (replicate 28 0) (replicate 8 0)"
    using bytes_from_place [of "0x1000" "table_bytes ''MCFG'' (replicate 28 0) (replicate 8 0)"] by (simp add: has_table_def)
qed simp_all

end
