(* ===== verification/KernelSteps.thy ===== *)
theory KernelSteps
  imports StepBase Extract MakefileDb KconfigText GeneratorText Fdt Acpi
begin

text \<open>
  \<^verbatim>\<open>s01_hardware.py\<close> and \<^verbatim>\<open>s08_kernel.py\<close>: the detected hardware goes into the
  configuration of the installer as plain dictionaries, and comes back as devices when the kernel is configured.

  The machine is a parameter: its ports, memory, buses and device tree files; the listing of a directory
  as the operating system gives it; the canonical form of a path; and the depth at which Python's recursion ends.
\<close>

record machine =
  m_port :: "config_port option"
  m_usb :: "usb_dir list option"
  m_mem :: "mem option"
  m_dt :: dt_files
  m_tree :: "fsys \<Rightarrow> path \<Rightarrow> ktree"
  m_resolve :: "path \<Rightarrow> path"
  m_depth :: nat

subsection \<open>Saving the hardware\<close>

definition pci_json :: "pci_device \<Rightarrow> json" where
  "pci_json d = JObj
     [(''slot'', JStr (pci_slot d)), (''vendor'', JInt (pci_vendor d)), (''device'', JInt (pci_devid d)),
      (''cls'', JInt (pci_cls d)), (''alias'', JStr (pci_dev_alias d))]"

definition usb_json :: "usb_device \<Rightarrow> json" where
  "usb_json d = JObj
     [(''vendor'', JInt (usb_vendor d)), (''product'', JInt (usb_product d)),
      (''dev_class'', JInt (usb_dev_class d)), (''alias'', JStr (usb_dev_alias d))]"

definition acpi_json :: "acpi_info \<Rightarrow> json" where
  "acpi_json i = JObj
     [(''has_acpi'', JBool (has_acpi i)), (''tables'', JList (map JStr (table_sigs i))), (''has_mcfg'', JBool (has_mcfg i))]"

definition dt_json :: "dt_device \<Rightarrow> json" where
  "dt_json d = JObj [(''path'', JStr (node_path d)), (''compatible'', JList (map JStr (compatible d)))]"

definition hardware_json :: "pci_device list \<Rightarrow> usb_device list \<Rightarrow> acpi_info \<Rightarrow> dt_device list \<Rightarrow> json" where
  "hardware_json ps us i ds = JObj
     [(''pci'', JList (map pci_json ps)), (''usb'', JList (map usb_json us)),
      (''acpi'', acpi_json i), (''dt'', JList (map dt_json ds))]"

definition dtb_hint :: "json \<Rightarrow> exn + str option" where
  "dtb_hint v = (if truthy v then map_sum id Some (as_text v) else Inr None)"

definition hardware_step :: "machine \<Rightarrow> step" where
  "hardware_step m =
     \<lparr>st_name = ''hardware_detect'', st_exec = (\<lambda>e.
        bindM (liftR (scan_pci (m_port m))) (\<lambda>(ps, _).
        bindM (ret (scan_usb (m_usb m))) (\<lambda>(us, _).
        bindM (liftR (scan_acpi (m_mem m))) (\<lambda>(i, _).
        bindM (cfg ''dtb_path'' JNull) (\<lambda>dtb.
        bindM (liftR (bindR (dtb_hint dtb) (scan_dt (m_dt m)))) (\<lambda>(ds, _).
          thenM (set_config e ''hardware'' (hardware_json ps us i ds))
            (if ps = [] \<and> us = [] \<and> ds = [] \<and> \<not> has_acpi i then fail_step ''No devices detected'' else ret ())))))))\<rparr>"

lemma json_ok_hardware: "json_ok (hardware_json ps us i ds)"
  by (auto simp: hardware_json_def pci_json_def usb_json_def acpi_json_def dt_json_def)

interpretation hardware: step_contract e "hardware_step m" for e m
proof
  show "preserves (quiet (ends_stage (st_name (hardware_step m)))) (st_exec (hardware_step m) e)"
    unfolding hardware_step_def step.simps by (intro body_rules json_ok_hardware)
qed

subsection \<open>Rebuilding the devices\<close>

text \<open>The numbers must be numbers when the alias is formatted; the slot is not looked at.\<close>

definition rebuild_pci :: "json \<Rightarrow> exn + pci_device" where
  "rebuild_pci d =
     bindR (jindex d ''slot'') (\<lambda>slot.
     bindR (bindR (jindex d ''vendor'') as_number) (\<lambda>v.
     bindR (bindR (jindex d ''device'') as_number) (\<lambda>dv.
     bindR (bindR (jget d ''subvendor'' (JInt 0xFFFF)) as_number) (\<lambda>sv.
     bindR (bindR (jget d ''subdevice'' (JInt 0xFFFF)) as_number) (\<lambda>sd.
     bindR (bindR (jindex d ''cls'') as_number) (\<lambda>c.
       Inr \<lparr>pci_slot = fmt slot, pci_vendor = v, pci_devid = dv, pci_subvendor = sv, pci_subdevice = sd,
         pci_cls = c, pci_header_type = 0\<rparr>))))))"

definition rebuild_usb :: "json \<Rightarrow> exn + usb_device" where
  "rebuild_usb d =
     (let field = (\<lambda>k. bindR (jget d k (JInt 0)) as_number) in
     bindR (bindR (jindex d ''vendor'') as_number) (\<lambda>v.
     bindR (bindR (jindex d ''product'') as_number) (\<lambda>p.
     bindR (field ''bcd_device'') (\<lambda>b.
     bindR (bindR (jindex d ''dev_class'') as_number) (\<lambda>dc.
     bindR (field ''dev_subclass'') (\<lambda>dsc.
     bindR (field ''dev_protocol'') (\<lambda>dp.
     bindR (field ''iface_class'') (\<lambda>ic.
     bindR (field ''iface_subclass'') (\<lambda>isc.
     bindR (field ''iface_protocol'') (\<lambda>ip.
       Inr \<lparr>usb_bus = 0, usb_address = 0, usb_vendor = v, usb_product = p, usb_bcd_device = b, usb_dev_class = dc,
         usb_dev_subclass = dsc, usb_dev_protocol = dp, usb_iface_class = ic, usb_iface_subclass = isc,
         usb_iface_protocol = ip\<rparr>))))))))))"

fun mapR :: "('a \<Rightarrow> exn + 'b) \<Rightarrow> 'a list \<Rightarrow> exn + 'b list" where
  "mapR f [] = Inr []"
| "mapR f (x # xs) = bindR (f x) (\<lambda>y. bindR (mapR f xs) (\<lambda>ys. Inr (y # ys)))"

definition rebuild_devices :: "json \<Rightarrow> exn + (pci_device list \<times> usb_device list)" where
  "rebuild_devices hw =
     bindR (bindR (bindR (jget hw ''pci'' (JList [])) jitems) (mapR rebuild_pci)) (\<lambda>ps.
     bindR (bindR (bindR (jget hw ''usb'' (JList [])) jitems) (mapR rebuild_usb)) (\<lambda>us. Inr (ps, us)))"

subsection \<open>Matching devices to symbols\<close>

definition device_aliases :: "pci_device list \<times> usb_device list \<Rightarrow> str list" where
  "device_aliases = (\<lambda>(ps, us). map pci_dev_alias ps @ map usb_dev_alias us)"

definition matched_symbols :: "source_index \<Rightarrow> makefile_db \<Rightarrow> str list \<Rightarrow> str list" where
  "matched_symbols idx db aliases =
     concat (map (\<lambda>a. concat (map (\<lambda>en. get_configs db (module en)) (index_match idx a))) aliases)"

text \<open>\<^verbatim>\<open>s in x\<close> for a string.\<close>

definition jcontains :: "str \<Rightarrow> json \<Rightarrow> exn + bool" where
  "jcontains s x =
     (case x of
        JList vs \<Rightarrow> Inr (JStr s \<in> set vs)
      | JObj d \<Rightarrow> Inr (s \<in> fst ` set d)
      | JStr t \<Rightarrow> Inr (contains s t)
      | _ \<Rightarrow> Inl (TypeErr ''not iterable''))"

definition acpi_symbols :: "json \<Rightarrow> exn + str list" where
  "acpi_symbols acpi =
     bindR (jget acpi ''has_acpi'' JNull) (\<lambda>h.
       if \<not> truthy h then Inr []
       else
         bindR (jget acpi ''tables'' (JList [])) (\<lambda>tables.
         bindR (jcontains ''HPET'' tables) (\<lambda>hpet.
         bindR (jcontains ''APIC'' tables) (\<lambda>apic.
         bindR (jcontains ''MCFG'' tables) (\<lambda>mcfg.
           Inr ([''ACPI''] @ (if hpet then [''HPET_TIMER''] else [])
             @ (if apic then [''X86_LOCAL_APIC'', ''X86_IO_APIC''] else [])
             @ (if mcfg then [''PCI_MMCONFIG''] else [])))))))"

definition boot_path_of :: "installer_state \<Rightarrow> exn + boot_path" where
  "boot_path_of s =
     bindR (jget (get_config s ''partitions'' (JObj [])) ''root'' (JStr [])) (\<lambda>root.
     (let disk = get_config s ''disk'' (JStr []); flag = (\<lambda>k. truthy (get_config s k (JBool False))) in
      bindR (as_text (get_config s ''root_fs'' (JStr ''ext4''))) (\<lambda>rfs.
      bindR (if truthy disk then as_text disk else Inr []) (\<lambda>under.
      bindR (if under = [] then as_text root else Inr (fmt root)) (\<lambda>dev.
        Inr \<lparr>root_device = dev, bp_root_fs = rfs, underlying_device = under, has_lvm = flag ''has_lvm'',
          has_luks = flag ''has_luks'', has_raid = flag ''has_raid'', luks_cipher = ''aes-xts-plain64'',
          extra_static = []\<rparr>)))))"

text \<open>From the index, the makefiles, the saved hardware and the Kconfig entries to the symbols asked for.\<close>

definition wanted_symbols :: "source_index \<Rightarrow> makefile_db \<Rightarrow> kconfig_db \<Rightarrow> json \<Rightarrow> exn + (str list \<times> bool)" where
  "wanted_symbols idx db kdb hw =
     bindR (rebuild_devices hw) (\<lambda>devs.
     bindR (jget hw ''acpi'' (JObj [])) (\<lambda>acpi.
     bindR (acpi_symbols acpi) (\<lambda>extra.
     bindR (jget acpi ''has_acpi'' (JBool False)) (\<lambda>h.
       Inr (resolve_dependencies kdb (matched_symbols idx db (device_aliases devs) @ extra), truthy h)))))"

definition kernel_generator :: "str list \<Rightarrow> bool \<Rightarrow> str \<Rightarrow> boot_path \<Rightarrow> exn + generator" where
  "kernel_generator symbols acpi v b =
     map_sum id fst (apply_boot_path (gen_add_many (new_generator acpi) symbols v ''hardware'') b)"

definition load_kdb :: "machine \<Rightarrow> path \<Rightarrow> world \<Rightarrow> exn + kconfig_db" where
  "load_kdb m src w =
     (case load_kconfig (m_depth m) \<lparr>k_src = src, k_file = fs w, k_resolve = m_resolve m\<rparr> of
        None \<Rightarrow> Inl RecursionErr
      | Some kdb \<Rightarrow> Inr kdb)"

definition cd_inv :: "str list \<Rightarrow> path \<Rightarrow> invocation" where
  "cd_inv cmd dir = (plain_cmd cmd)\<lparr>cwd := Some dir\<rparr>"

definition kernel_dir :: "str option \<Rightarrow> (sys, path) act" where
  "kernel_dir given =
     bindM (if given \<noteq> None \<and> given \<noteq> Some [] then ret (JStr (the given)) else cfg ''kernel_src'' (JStr []))
       (\<lambda>k. liftR (map_sum id mk_path (as_text k)))"

definition configure_kernel :: "machine \<Rightarrow> env \<Rightarrow> path option \<Rightarrow> str \<Rightarrow> path \<Rightarrow> (sys, unit) act" where
  "configure_kernel m e cache v src =
     bindM (getM (\<lambda>(s, w). m_tree m (fs w) src)) (\<lambda>tree.
     bindM (on_world (build_source_index e tree cache)) (\<lambda>idx.
     bindM (liftR (build_db tree empty_db)) (\<lambda>db.
     bindM (cfg ''hardware'' (JObj [])) (\<lambda>hw.
     bindM (getM (\<lambda>(s, w). load_kdb m src w)) (\<lambda>loaded.
     bindM (liftR (bindR loaded (\<lambda>kdb. wanted_symbols idx db kdb hw))) (\<lambda>(symbols, acpi).
     bindM (getM (\<lambda>(s, w). bindR (boot_path_of s) (kernel_generator symbols acpi v))) (\<lambda>made.
     bindM (liftR made) (\<lambda>gen.
       seqM
        [on_world (save_config e (path_div src [''.config'']) [(''generator'', ''anaconda-gentoo'')] gen),
         on_world (thenM (check_inv e (cd_inv [''make'', ''olddefconfig''] src)) (ret ())),
         set_config e ''kernel_src'' (JStr (str_path src)),
         set_config e ''kernel_config_symbols'' (JInt (int (length symbols)))]))))))))"

definition kernel_config_step :: "machine \<Rightarrow> str option \<Rightarrow> str option \<Rightarrow> str \<Rightarrow> step" where
  "kernel_config_step m src cache_dir v =
     \<lparr>st_name = ''kernel_config'', st_exec = (\<lambda>e.
        bindM (kernel_dir src) (\<lambda>dir.
        bindM (is_dirM dir) (\<lambda>ok.
          if \<not> ok then fail_step (''Kernel source not found at '' @ str_path dir)
          else configure_kernel m e
            (if cache_dir \<noteq> None \<and> cache_dir \<noteq> Some [] then Some (path_div (mk_path (the cache_dir)) [''source_index.json'']) else None)
            v dir)))\<rparr>"

lemma pres_save_config: "(\<And>t. P (Wrote p t)) \<Longrightarrow> preserves (adds_events P) (save_config e p meta g)"
proof -
  assume "\<And>t. P (Wrote p t)"
  then have "adds_events P (w\<lparr>ticks := Suc (ticks w)\<rparr>) (snd (save_config e p meta g w))" for w
    unfolding save_config_def by (rule write_text_adds)
  then show ?thesis by (simp add: preserves_def adds_events_def)
qed

lemma pres_build_index:
  "(\<And>p t. cache = Some p \<Longrightarrow> P (Wrote p t)) \<Longrightarrow> preserves (adds_events P) (build_source_index e src cache)"
  unfolding build_source_index_def by (cases cache) (auto intro!: event_rules)

interpretation kernel_config: step_contract e "kernel_config_step m src cache_dir v" for e m src cache_dir v
proof
  show "preserves (quiet (ends_stage (st_name (kernel_config_step m src cache_dir v)))) (st_exec (kernel_config_step m src cache_dir v) e)"
    unfolding kernel_config_step_def configure_kernel_def kernel_dir_def step.simps
    by (intro body_rules pres_save_config pres_build_index) (auto simp: file_simps split: if_splits)
qed

subsection \<open>Compiling and installing\<close>

definition kernel_compile_step :: step where
  "kernel_compile_step =
     \<lparr>st_name = ''kernel_compile'', st_exec = (\<lambda>e.
        bindM (kernel_dir None) (\<lambda>dir.
        bindM (is_dirM dir) (\<lambda>ok.
          if \<not> ok then fail_step ''Kernel source path not set - run kernel_config step first''
          else bindM (on_world (run_inv e (cd_inv [''make'', ''-j'' @ str_of_nat (cpus e)] dir))) (\<lambda>(rc, out).
            if rc \<noteq> 0 then fail_step (''Kernel compilation failed (exit '' @ str_of_int rc @ '')'') else ret ()))))\<rparr>"

definition kernel_install_step :: step where
  "kernel_install_step =
     \<lparr>st_name = ''kernel_install'', st_exec = (\<lambda>e.
        bindM (kernel_dir None) (\<lambda>dir.
        bindM target_root (\<lambda>mp.
        thenM (on_world (check_inv e (cd_inv [''make'', ''INSTALL_MOD_PATH='' @ str_path mp, ''modules_install''] dir)))
       (bindM (cfg ''boot_dir'' (JStr (str_path (path_div mp [''boot''])))) (\<lambda>b.
        bindM (liftR (map_sum id mk_path (as_text b))) (\<lambda>boot_dir.
          seqM
           [on_world (mkdir_parents e boot_dir),
            on_world (thenM (check_inv e (cd_inv [''make'', ''INSTALL_PATH='' @ str_path boot_dir, ''install''] dir)) (ret ()))]))))))\<rparr>"

interpretation kernel_compile: step_contract e kernel_compile_step for e
proof
  show "preserves (quiet (ends_stage (st_name kernel_compile_step))) (st_exec kernel_compile_step e)"
    unfolding kernel_compile_step_def kernel_dir_def step.simps by (intro body_rules) simp
qed

interpretation kernel_install: step_contract e kernel_install_step for e
proof
  show "preserves (quiet (ends_stage (st_name kernel_install_step))) (st_exec kernel_install_step e)"
    unfolding kernel_install_step_def kernel_dir_def step.simps by (intro body_rules) simp_all
qed

end
