(* ===== verification/FinishSteps.thy ===== *)
theory FinishSteps
  imports StepBase
begin

text \<open>
  The last steps: \<^verbatim>\<open>s09_bootloader.py\<close> (file system table and boot loader) and
  \<^verbatim>\<open>s10_finalize.py\<close> (host name, root password, network, the agent that continues after the first
  boot, unmounting). The dash in the first comment of the file system table is an ASCII one here.
\<close>

subsection \<open>The file system table\<close>

definition is_called_process :: "exn \<Rightarrow> bool" where
  "is_called_process x = (case x of CalledProcess _ \<Rightarrow> True | _ \<Rightarrow> False)"

definition uuid_of :: "env \<Rightarrow> str \<Rightarrow> (world, str) act" where
  "uuid_of e dev =
     catchM (bindM (run_check e [''blkid'', ''-s'', ''UUID'', ''-o'', ''value'', dev]) (\<lambda>out. ret (strip out)))
       is_called_process (\<lambda>_. ret dev)"

definition fstab_line :: "str \<Rightarrow> str \<Rightarrow> str \<Rightarrow> str \<Rightarrow> str \<Rightarrow> str" where
  "fstab_line uuid dir fstype options pass = ''UUID='' @ join ''  '' [uuid, dir, fstype, options, pass]"

definition fstab_text :: "str \<Rightarrow> str \<Rightarrow> str \<Rightarrow> bool \<Rightarrow> str option \<Rightarrow> str" where
  "fstab_text root_uuid root_fs boot_uuid uefi swap_uuid = unlines
     ([''# /etc/fstab - generated by anaconda-gentoo'',
       ''# <device>  <mountpoint>  <fstype>  <options>  <dump>  <pass>'',
       fstab_line root_uuid ''/'' root_fs ''defaults,noatime'' ''0 1'',
       (if uefi then fstab_line boot_uuid ''/boot/efi'' ''vfat'' ''defaults'' ''0 2''
        else fstab_line boot_uuid ''/boot'' ''ext2'' ''defaults'' ''0 2'')]
      @ (case swap_uuid of Some u \<Rightarrow> [fstab_line u ''none'' ''swap'' ''sw'' ''0 0''] | None \<Rightarrow> [])
      @ [''tmpfs  /tmp  tmpfs  nosuid,nodev  0 0''])"

definition device_uuid :: "env \<Rightarrow> json \<Rightarrow> (sys, str) act" where
  "device_uuid e v = bindM (liftR (as_text v)) (\<lambda>d. on_world (uuid_of e d))"

definition fstab_step :: step where
  "fstab_step =
     \<lparr>st_name = ''fstab'', st_exec = (\<lambda>e.
        bindM (cfg ''partitions'' (JObj [])) (\<lambda>parts.
        bindM target_root (\<lambda>mp.
        bindM (cfg ''root_fs'' (JStr ''ext4'')) (\<lambda>root_fs.
        bindM (liftR (jget parts ''uefi'' (JBool False))) (\<lambda>uefi.
        bindM (bindM (liftR (jindex parts ''root'')) (device_uuid e)) (\<lambda>root_uuid.
        bindM (bindM (liftR (jindex parts ''boot'')) (device_uuid e)) (\<lambda>boot_uuid.
        bindM (liftR (jget parts ''swap'' JNull)) (\<lambda>swap.
        bindM (if truthy swap then bindM (device_uuid e swap) (\<lambda>u. ret (Some u)) else ret None) (\<lambda>swap_uuid.
          on_world (write_text e (path_div mp [''etc'', ''fstab''])
            (fstab_text root_uuid (fmt root_fs) boot_uuid (truthy uefi) swap_uuid)))))))))))\<rparr>"

interpretation fstab: step_contract e fstab_step for e
proof
  show "preserves (quiet (ends_stage (st_name fstab_step))) (st_exec fstab_step e)"
    unfolding fstab_step_def device_uuid_def uuid_of_def step.simps by (intro body_rules) (simp_all add: file_simps)
qed

subsection \<open>The boot loader\<close>

definition GRUB_CFG_HEADER :: str where
  "GRUB_CFG_HEADER = unlines
     [''# Generated by anaconda-gentoo'', ''GRUB_DEFAULT=0'', ''GRUB_TIMEOUT=5'',
      ''GRUB_DISTRIBUTOR='' @ [CHR 0x22] @ ''Gentoo'' @ [CHR 0x22],
      ''GRUB_CMDLINE_LINUX_DEFAULT='' @ [CHR 0x22] @ ''quiet'' @ [CHR 0x22],
      ''GRUB_CMDLINE_LINUX='' @ [CHR 0x22, CHR 0x22]]"

definition install_grub :: "env \<Rightarrow> path \<Rightarrow> json \<Rightarrow> bool \<Rightarrow> json \<Rightarrow> (world, unit) act" where
  "install_grub e mp disk uefi platform =
     bindM (getM (\<lambda>w. exists_at w (path_div mp [''usr'', ''sbin'', ''grub-install'']))) (\<lambda>there. seqM
      [whenM (\<not> there) (chroot_run e mp [''emerge'', ''--quiet'', ''--useflag=grub_platforms_'' @ fmt platform, ''sys-boot/grub''] [] True),
       (if uefi then chroot_run e mp [''grub-install'', ''--target=x86_64-efi'', ''--efi-directory=/boot/efi'', ''--removable''] [] True
        else bindM (liftR (as_text disk)) (\<lambda>d. chroot_run e mp [''grub-install'', d] [] True)),
       chroot_run e mp [''grub-mkconfig'', ''-o'', ''/boot/grub/grub.cfg''] [] True])"

definition bootloader_step :: step where
  "bootloader_step =
     \<lparr>st_name = ''bootloader'', st_exec = (\<lambda>e.
        bindM (cfg ''partitions'' (JObj [])) (\<lambda>parts.
        bindM target_root (\<lambda>mp.
        bindM (cfg ''disk'' (JStr [])) (\<lambda>disk.
        bindM (liftR (jget parts ''uefi'' (JBool False))) (\<lambda>uefi.
        bindM (cfg ''make_conf'' (JObj [])) (\<lambda>conf.
        bindM (liftR (jget conf ''grub_platform'' (JStr ''pc''))) (\<lambda>platform.
          if \<not> truthy disk then fail_step ''Disk not set in state''
          else seqM
           [on_world (mkdir_parents e (path_div mp [''etc'', ''default''])),
            on_world (write_text e (path_div mp [''etc'', ''default'', ''grub'']) GRUB_CFG_HEADER),
            on_world (chroot_context e mp (install_grub e mp disk (truthy uefi) platform))])))))))\<rparr>"

interpretation bootloader: step_contract e bootloader_step for e
proof
  show "preserves (quiet (ends_stage (st_name bootloader_step))) (st_exec bootloader_step e)"
    unfolding bootloader_step_def install_grub_def step.simps by (intro body_rules) (simp_all add: file_simps)
qed

subsection \<open>Host name, password, network\<close>

definition set_hostname :: "env \<Rightarrow> path \<Rightarrow> str \<Rightarrow> (sys, unit) act" where
  "set_hostname e mp name =
     (let hosts = path_div mp [''etc'', ''hosts'']
      in thenM (on_world (write_text e (path_div mp [''etc'', ''hostname'']) (name @ [CHR 0x0A])))
        (bindM (existsM hosts) (\<lambda>there.
         bindM (on_world (if there then read_text hosts else ret [])) (\<lambda>old.
           seqM
            [whenM (\<not> contains name old) (on_world (append_text e hosts
               (join [CHR 0x09] [''127.0.1.1'', name @ ''.localdomain'', name] @ [CHR 0x0A]))),
             set_config e ''hostname'' (JStr name)]))))"

definition hostname_step :: "str \<Rightarrow> step" where
  "hostname_step name0 =
     \<lparr>st_name = ''hostname'', st_exec = (\<lambda>e.
        bindM target_root (\<lambda>mp.
        bindM (cfg ''hostname'' (JStr name0)) (\<lambda>name.
        bindM (liftR (as_text name)) (set_hostname e mp))))\<rparr>"

definition root_password_step :: "str option \<Rightarrow> step" where
  "root_password_step given =
     \<lparr>st_name = ''root_password'', st_exec = (\<lambda>e.
        bindM target_root (\<lambda>mp.
        bindM (if given \<noteq> None \<and> given \<noteq> Some [] then ret (JStr (the given)) else cfg ''root_password_hash'' JNull) (\<lambda>pw.
          whenM (truthy pw) (on_world (chroot_context e mp
            (bindM (liftR (as_text pw)) (\<lambda>h. chroot_run e mp [''usermod'', ''-p'', h, ''root''] [] True)))))))\<rparr>"

definition net_text :: "str \<Rightarrow> (str \<times> str) option \<Rightarrow> str" where
  "net_text iface static =
     (let assign = (\<lambda>k v. k @ ''_'' @ iface @ ''='' @ [CHR 0x22] @ v @ [CHR 0x22])
      in case static of
           None \<Rightarrow> unlines [assign ''config'' ''dhcp'']
         | Some (ip, gw) \<Rightarrow> unlines [assign ''config'' ip, assign ''routes'' (''default via '' @ gw)])"

definition network_step :: "str \<Rightarrow> bool \<Rightarrow> step" where
  "network_step iface0 dhcp0 =
     \<lparr>st_name = ''network'', st_exec = (\<lambda>e.
        bindM target_root (\<lambda>mp.
        bindM (cfg ''network_iface'' (JStr iface0)) (\<lambda>iface.
        bindM (cfg ''network_dhcp'' (JBool dhcp0)) (\<lambda>dhcp.
        bindM (if truthy dhcp then ret None
               else bindM (cfg ''network_ip'' (JStr ''192.168.1.100/24'')) (\<lambda>ip.
                    bindM (cfg ''network_gateway'' (JStr ''192.168.1.1'')) (\<lambda>gw. ret (Some (fmt ip, fmt gw))))) (\<lambda>static.
        let initd = path_div mp [''etc'', ''init.d'']; link = path_join initd (mk_path (''net.'' @ fmt iface))
        in thenM (on_world (write_text e (path_div mp [''etc'', ''conf.d'', ''net'']) (net_text (fmt iface) static)))
          (bindM (existsM (path_div initd [''net.lo''])) (\<lambda>template.
           bindM (existsM link) (\<lambda>linked. seqM
             [whenM (template \<and> \<not> linked) (on_world (symlink_to e link ''net.lo'')),
              on_world (chroot_context e mp
                (chroot_run e mp [''rc-update'', ''add'', ''net.'' @ fmt iface, ''default''] [] False))]))))))))\<rparr>"

interpretation hostname: step_contract e "hostname_step name0" for e name0
proof
  show "preserves (quiet (ends_stage (st_name (hostname_step name0)))) (st_exec (hostname_step name0) e)"
    unfolding hostname_step_def set_hostname_def step.simps Let_def by (intro body_rules) (simp_all add: file_simps)
qed

interpretation root_password: step_contract e "root_password_step given" for e given
proof
  show "preserves (quiet (ends_stage (st_name (root_password_step given)))) (st_exec (root_password_step given) e)"
    unfolding root_password_step_def step.simps by (intro body_rules) simp_all
qed

interpretation network: step_contract e "network_step iface0 dhcp0" for e iface0 dhcp0
proof
  show "preserves (quiet (ends_stage (st_name (network_step iface0 dhcp0)))) (st_exec (network_step iface0 dhcp0) e)"
    unfolding network_step_def step.simps Let_def by (intro body_rules) (simp_all add: file_simps)
qed

subsection \<open>The continuation agent\<close>

definition SYSTEMD_SERVICE :: str where
  "SYSTEMD_SERVICE = unlines
     [''[Unit]'', ''Description=Gentoo Installer Stage 3 Continuation'', ''After=network-online.target'',
      ''Wants=network-online.target'', ''ConditionPathExists=/var/lib/anaconda-gentoo/state.json'', [],
      ''[Service]'', ''Type=oneshot'', ''ExecStart=/usr/local/bin/anaconda-gentoo --continue'',
      ''RemainAfterExit=yes'', ''StandardOutput=journal+console'', [],
      ''[Install]'', ''WantedBy=multi-user.target'']"

definition OPENRC_SCRIPT :: str where
  "OPENRC_SCRIPT =
     (let quoted = (\<lambda>s. [CHR 0x22] @ s @ [CHR 0x22]); indent = (\<lambda>s. ''    '' @ s)
      in unlines
     [''#!/sbin/openrc-run'', ''description='' @ quoted ''Gentoo Installer Stage 3 Continuation'',
      ''depend() { need net; }'', ''start() {'',
      indent (''ebegin '' @ quoted ''Running anaconda-gentoo stage 3''),
      indent ''/usr/local/bin/anaconda-gentoo --continue >> /var/log/anaconda-gentoo.log 2>&1'',
      indent ''eend $?'', indent ''rc-update del anaconda-gentoo-continue default'', ''}''])"

definition LAUNCHER :: str where
  "LAUNCHER = unlines [''#!/bin/bash'',
     ''exec python3 /usr/local/lib/anaconda-gentoo/main.py '' @ [CHR 0x22] @ ''$@'' @ [CHR 0x22]]"

definition ignored_name :: "str \<Rightarrow> bool" where
  "ignored_name n \<longleftrightarrow> n = ''__pycache__'' \<or> ends_with ''.pyc'' n \<or> n = ''.git''"

text \<open>Enabling the agent under the init system found in the target.\<close>

definition enable_agent :: "env \<Rightarrow> path \<Rightarrow> bool \<Rightarrow> (sys, unit) act" where
  "enable_agent e mp systemd =
     (if systemd then
        (let dir = path_div mp [''etc'', ''systemd'', ''system'']
         in seqM
          [on_world (mkdir_parents e dir),
           on_world (write_text e (path_div dir [''anaconda-gentoo-continue.service'']) SYSTEMD_SERVICE),
           on_world (chroot_context e mp (chroot_run e mp [''systemctl'', ''enable'', ''anaconda-gentoo-continue''] [] False))])
      else
        (let script = path_div mp [''etc'', ''init.d'', ''anaconda-gentoo-continue'']
         in seqM
          [on_world (write_text e script OPENRC_SCRIPT),
           on_world (chmod script 0x1ED),
           on_world (chroot_context e mp (chroot_run e mp [''rc-update'', ''add'', ''anaconda-gentoo-continue'', ''default''] [] False))]))"

definition agent_step :: "path \<Rightarrow> step" where
  "agent_step src_root =
     \<lparr>st_name = ''continuation_agent'', st_exec = (\<lambda>e.
        bindM target_root (\<lambda>mp.
        let bin = path_div mp [''usr'', ''local'', ''bin'']; exe = path_div bin [''anaconda-gentoo''];
            lib = path_div mp [''usr'', ''local'', ''lib'', ''anaconda-gentoo'']
        in seqM
         [on_world (mkdir_parents e bin),
          on_world (write_text e exe LAUNCHER),
          on_world (chmod exe 0x1ED),
          bindM (existsM lib) (\<lambda>old. whenM old (on_world (rm_tree e lib))),
          on_world (copy_tree e ignored_name src_root lib),
          on_world (mkdir_parents e (path_div mp [''var'', ''lib'', ''anaconda-gentoo''])),
          bindM (existsM (path_div mp [''lib'', ''systemd''])) (\<lambda>a.
          bindM (existsM (path_div mp [''usr'', ''lib'', ''systemd''])) (\<lambda>b.
            thenM (enable_agent e mp (a \<or> b))
              (set_config e ''init_system'' (JStr (if a \<or> b then ''systemd'' else ''openrc''))))),
          upd_state (\<lambda>s. s\<lparr>phase := ''stage1_complete''\<rparr>),
          save e None]))\<rparr>"

definition unmount_step :: step where
  "unmount_step =
     \<lparr>st_name = ''unmount'', st_exec = (\<lambda>e. bindM target_root (\<lambda>mp. on_world (umount_all e mp)))\<rparr>"

interpretation agent: step_contract e "agent_step src_root" for e src_root
proof
  show "preserves (quiet (ends_stage (st_name (agent_step src_root)))) (st_exec (agent_step src_root) e)"
    unfolding agent_step_def enable_agent_def step.simps Let_def
    by (intro body_rules) (simp_all add: file_simps ends_stage_def)
qed

interpretation unmount: step_contract e unmount_step for e
proof
  show "preserves (quiet (ends_stage (st_name unmount_step))) (st_exec unmount_step e)"
    unfolding unmount_step_def step.simps by (intro body_rules) simp
qed

end
