(* ===== verification/Agent.thy ===== *)
theory Agent
  imports StepBase
begin

text \<open>
  \<^verbatim>\<open>stage3_agent/agent.py\<close>: what runs after the first boot into the new system, and the summary
  and questions of \<^verbatim>\<open>installer/tui.py\<close>, whose console input is an argument.
\<close>

definition emerge :: "env \<Rightarrow> str list \<Rightarrow> (sys, int) act" where
  "emerge e args = bindM (on_world (run_cmd e (''emerge'' # args))) (\<lambda>(rc, out). ret rc)"

text \<open>\<^verbatim>\<open>if not state.is_done(name): state.mark_started(name); body; state.mark_done(name)\<close>\<close>

definition once :: "env \<Rightarrow> str \<Rightarrow> (sys, unit) act \<Rightarrow> (sys, unit) act" where
  "once e name body = bindM (getM (\<lambda>(s, w). is_done s name)) (\<lambda>d.
     if d then ret () else seqM [mark_started e name, body, mark_done e name])"

definition sync_body :: "env \<Rightarrow> (sys, unit) act" where
  "sync_body e = bindM (emerge e [''--sync'', ''--quiet'']) (\<lambda>rc. ret ())"

definition world_body :: "env \<Rightarrow> (sys, unit) act" where
  "world_body e =
     bindM (emerge e [''--update'', ''--deep'', ''--newuse'', ''--quiet-build'', ''@world'']) (\<lambda>rc.
     bindM (if rc \<noteq> 0 then emerge e [''--resume'', ''--skipfirst''] else ret rc) (\<lambda>rc.
       if rc \<noteq> 0 then
         thenM (mark_failed e ''world_update'' (''emerge @world failed (exit '' @ str_of_int rc @ '')''))
           (raise (SystemExit 1))
       else ret ()))"

definition cleanup_body :: "env \<Rightarrow> (sys, unit) act" where
  "cleanup_body e = bindM (emerge e [''--depclean'', ''--quiet'']) (\<lambda>rc. ret ())"

definition disable_body :: "env \<Rightarrow> (sys, unit) act" where
  "disable_body e = bindM (cfg ''init_system'' (JStr ''openrc'')) (\<lambda>init.
     on_world (run_quiet e
       (if init = JStr ''systemd'' then [''systemctl'', ''disable'', ''--now'', ''anaconda-gentoo-continue'']
        else [''rc-update'', ''del'', ''anaconda-gentoo-continue'', ''default''])))"

definition stage3_bodies :: "env \<Rightarrow> (str \<times> (sys, unit) act) list" where
  "stage3_bodies e =
     [(''portage_update'', sync_body e), (''world_update'', world_body e),
      (''cleanup'', cleanup_body e), (''disable_agent'', disable_body e)]"

definition run_stage3 :: "env \<Rightarrow> (sys, unit) act" where
  "run_stage3 e =
     thenM (on_world (mkdir_parents e (mk_path ''/var/log'')))
    (thenM (mapM (\<lambda>(n, b). once e n b) (stage3_bodies e))
       (seqM [upd_state (\<lambda>s. s\<lparr>phase := ''complete''\<rparr>), save e None]))"

subsection \<open>Summary and questions\<close>

datatype step_status = DoneStep | RunningStep | FailedStep | PendingStep

definition step_status :: "installer_state \<Rightarrow> str \<Rightarrow> step_status" where
  "step_status s n =
     (if n \<in> set (completed s) then DoneStep
      else if current s = Some n then RunningStep
      else if failed s = Some n then FailedStep
      else PendingStep)"

definition summary :: "installer_state \<Rightarrow> (str \<times> step_status) list \<times> nat \<times> nat" where
  "summary s = (map (\<lambda>n. (replace_char CHR ''_'' CHR '' '' n, step_status s n)) STAGE1_STEPS, progress s)"

definition ask :: "str \<Rightarrow> str \<Rightarrow> str" where
  "ask preset typed = (if strip typed = [] then preset else strip typed)"

definition confirm :: "bool \<Rightarrow> str \<Rightarrow> bool" where
  "confirm preset typed =
     (let a = lower (strip typed) in if a = [] then preset else starts_with ''y'' a)"

subsection \<open>What a run of the agent does to the progress\<close>

text \<open>A body keeps the completed steps and the phase; it may mark a step as failed.\<close>

definition tame :: "sys \<Rightarrow> sys \<Rightarrow> bool" where
  "tame sw sw' \<longleftrightarrow> completed (fst sw') = completed (fst sw) \<and> phase (fst sw') = phase (fst sw)
     \<and> (good_state (fst sw) \<longrightarrow> good_state (fst sw')
           \<and> adds_events (records (completed (fst sw)) {phase (fst sw)}) (snd sw) (snd sw'))"

interpretation tame: frame tame
  by unfold_locales (auto simp: tame_def adds_events_refl intro: adds_events_trans)

lemma tame_quiet: "preserves (quiet False) m \<Longrightarrow> preserves tame m"
  by (simp add: preserves_def quiet_def tame_def phases_def)

lemma tame_world: "preserves (adds_events plain_event) m \<Longrightarrow> preserves tame (on_world m)"
  by (rule tame_quiet, rule on_world_plain)

lemma tame_cfg: "preserves tame (cfg k v)"
  by (rule tame_quiet, rule pres_cfg)

lemma tame_mark_failed: "preserves tame (mark_failed e n reason)"
proof -
  have "tame (s, w) (snd (mark_failed e n reason (s, w)))" for s w
  proof -
    let ?s1 = "logged e (''FAIL  '' @ n @ '': '' @ reason) (s\<lparr>failed := Some n, current := None\<rparr>) w"
    have "good_state ?s1" if "good_state s" using that good_state_cong [of ?s1 s] by simp
    then show ?thesis
      using saved_adds [of ?s1 "{phase s}" "tick w" e] by (simp add: tame_def mark_failed_eq adds_events_def)
  qed
  then show ?thesis by (auto simp: preserves_def)
qed

lemmas tame_rules = tame_cfg tame_world tame_mark_failed pres_splits tame.pres_intros event_rules

lemma tame_emerge: "preserves tame (emerge e args)"
  unfolding emerge_def by (intro tame_rules) simp

lemma tame_bodies: "(n, body) \<in> set (stage3_bodies e) \<Longrightarrow> preserves tame body"
  unfolding stage3_bodies_def sync_body_def world_body_def cleanup_body_def disable_body_def
  by (auto intro!: tame_rules tame_emerge)

lemma once_outcome:
  assumes body: "preserves tame body" and run: "once e n body (s, w) = (r, (s', w'))"
  shows "phase s' = phase s \<and> completed s' = (if r = Inr () then mark_one (completed s) n else completed s)
    \<and> (good_state s \<longrightarrow> good_state s'
        \<and> adds_events (\<lambda>x. records (completed s) {phase s} x \<or> records (completed s') {phase s} x) w w')"
proof (cases "n \<in> set (completed s)")
  case True
  with run show ?thesis
    by (simp add: once_def getM_def bindM_def is_done_def ret_def mark_one_in adds_events_refl)
next
  case False
  obtain s1 w1 where m1: "mark_started e n (s, w) = (Inr (), (s1, w1))"
    "completed s1 = completed s" "phase s1 = phase s"
    "good_state s \<longrightarrow> good_state s1 \<and> (\<forall>P. phase s \<in> P \<longrightarrow> adds_events (records (completed s) P) w w1)"
    by (rule mark_started_out)
  obtain r2 s2 w2 where b: "body (s1, w1) = (r2, (s2, w2))" by (metis prod.exhaust)
  have t: "tame (s1, w1) (s2, w2)" using body b by (metis preserves_def snd_conv)
  obtain s3 w3 where m3: "mark_done e n (s2, w2) = (Inr (), (s3, w3))"
    "completed s3 = mark_one (completed s2) n" "phase s3 = phase s2"
    "good_state s2 \<longrightarrow> good_state s3 \<and> (\<forall>P. phase s2 \<in> P \<longrightarrow> adds_events (records (completed s3) P) w2 w3)"
    by (rule mark_done_out)
  have run': "(r, (s', w')) = (case r2 of Inl x \<Rightarrow> (Inl x, (s2, w2)) | Inr _ \<Rightarrow> (Inr (), (s3, w3)))"
    using run False by (cases r2) (auto simp: once_def getM_def bindM_def is_done_def thenM_apply m1 b m3)
  have w2: "good_state s2 \<and> adds_events (records (completed s) {phase s}) w w2" if "good_state s"
    using m1 t that by (auto simp: tame_def intro: adds_events_trans)
  show ?thesis
  proof (cases r2)
    case (Inl x)
    with run' w2 t m1(2,3) show ?thesis by (auto simp: tame_def intro: adds_events_left)
  next
    case (Inr u)
    have "adds_events (\<lambda>x. records (completed s) {phase s} x \<or> records (completed s3) {phase s} x) w w3"
      if "good_state s"
      by (rule adds_events_join [of _ _ w2]) (use w2 [OF that] m3(4) t m1(3) in \<open>simp_all add: tame_def\<close>)
    with run' w2 t m1(2,3) m3(2-4) Inr show ?thesis by (simp add: tame_def)
  qed
qed

text \<open>Every state file the agent writes records the progress after some number of its steps.\<close>

definition agent_records :: "str list \<Rightarrow> str set \<Rightarrow> str list \<Rightarrow> event \<Rightarrow> bool" where
  "agent_records c P ns x \<longleftrightarrow> (\<exists>k \<le> length ns. records (done_after c (take k ns)) P x)"

lemma agent_records_Cons: "agent_records (mark_one c n) P ns x \<Longrightarrow> agent_records c P (n # ns) x"
  unfolding agent_records_def by (metis Suc_le_mono done_after_simps(2) length_Cons take_Suc_Cons)

lemma agent_records_head:
  "records c P x \<Longrightarrow> agent_records c P ns x" "records (mark_one c n) P x \<Longrightarrow> agent_records c P (n # ns) x"
  unfolding agent_records_def
  by (intro exI [of _ 0], simp) (intro exI [of _ "Suc 0"], simp)

lemma bodies_outcome:
  assumes "\<forall>(n, b) \<in> set nbs. preserves tame b" and "mapM (\<lambda>(n, b). once e n b) nbs (s, w) = (r, (s', w'))"
  shows "phase s' = phase s
    \<and> (\<exists>k \<le> length nbs. completed s' = done_after (completed s) (take k (map fst nbs)) \<and> (r = Inr () \<longrightarrow> k = length nbs))
    \<and> (good_state s \<longrightarrow> good_state s' \<and> adds_events (agent_records (completed s) {phase s} (map fst nbs)) w w')"
  using assms
proof (induction nbs arbitrary: s w)
  case Nil
  then show ?case by (simp add: ret_def adds_events_refl)
next
  case (Cons nb nbs)
  obtain n b where nb: "nb = (n, b)" by force
  obtain r1 s1 w1 where x: "once e n b (s, w) = (r1, (s1, w1))" by (metis prod.exhaust)
  have out: "phase s1 = phase s" "completed s1 = (if r1 = Inr () then mark_one (completed s) n else completed s)"
    "good_state s \<longrightarrow> good_state s1
      \<and> adds_events (\<lambda>x. records (completed s) {phase s} x \<or> records (completed s1) {phase s} x) w w1"
    using once_outcome [OF _ x] Cons.prems(1) unfolding nb by auto
  have ev1: "good_state s \<Longrightarrow> adds_events (agent_records (completed s) {phase s} (n # map fst nbs)) w w1"
    by (rule adds_events_mono, use out in blast) (auto simp: out(2) intro: agent_records_head split: if_splits)
  show ?case
  proof (cases "r1 = Inr ()")
    case True
    then have "mapM (\<lambda>(n, b). once e n b) nbs (s1, w1) = (r, (s', w'))"
      using Cons.prems(2) by (simp add: nb thenM_apply x)
    then have ih: "phase s' = phase s1"
      "\<exists>k \<le> length nbs. completed s' = done_after (completed s1) (take k (map fst nbs)) \<and> (r = Inr () \<longrightarrow> k = length nbs)"
      "good_state s1 \<longrightarrow> good_state s' \<and> adds_events (agent_records (completed s1) {phase s1} (map fst nbs)) w1 w'"
      using Cons.IH Cons.prems(1) by simp_all
    obtain k where k: "k \<le> length nbs" "completed s' = done_after (completed s1) (take k (map fst nbs))"
      "r = Inr () \<longrightarrow> k = length nbs" using ih(2) by blast
    have "adds_events (agent_records (completed s) {phase s} (n # map fst nbs)) w1 w'" if "good_state s"
      by (rule adds_events_mono, use ih(3) out(1,3) that in blast) (simp add: out(1,2) True agent_records_Cons)
    then show ?thesis
      using k ih(1,3) out True ev1 by (auto simp: nb intro!: exI [of _ "Suc k"] intro: adds_events_trans)
  next
    case False
    then have "(r, (s', w')) = (r1, (s1, w1))"
      using Cons.prems(2) by (simp add: nb thenM_apply x split: sum.splits)
    with out False ev1 show ?thesis by (auto simp: nb intro!: exI [of _ 0])
  qed
qed

lemma stage3_names: "map fst (stage3_bodies e) = STAGE3_STEPS"
  by (simp add: stage3_bodies_def STAGE3_STEPS_def)

text \<open>The record of a whole run: the agent's steps in its phase, or all of them in the last phase.\<close>

definition finish_records :: "str list \<Rightarrow> str \<Rightarrow> event \<Rightarrow> bool" where
  "finish_records c ph x \<longleftrightarrow> agent_records c {ph} STAGE3_STEPS x \<or> records (done_after c STAGE3_STEPS) {''complete''} x"

lemma run_stage3_outcome:
  assumes "run_stage3 e (s, w) = (r, (s', w'))"
  shows "(if r = Inr () then phase s' = ''complete'' else phase s' = phase s)
    \<and> (\<exists>k \<le> length STAGE3_STEPS. completed s' = done_after (completed s) (take k STAGE3_STEPS)
          \<and> (r = Inr () \<longrightarrow> k = length STAGE3_STEPS))
    \<and> (good_state s \<longrightarrow> good_state s'
        \<and> adds_events (finish_records (completed s) (phase s)) w w')"
proof -
  let ?R = "finish_records (completed s) (phase s)"
  let ?bodies = "mapM (\<lambda>(n, b). once e n b) (stage3_bodies e)"
  obtain r1 w1 where m: "mkdir_parents e (mk_path ''/var/log'') w = (r1, w1)" by (metis prod.exhaust)
  have d: "on_world (mkdir_parents e (mk_path ''/var/log'')) (s, w) = (r1, (s, w1))"
    by (simp add: on_world_def m)
  have ev1: "adds_events ?R w w1" using mkdir_parents_adds [of ?R w e] m by (metis snd_conv)
  obtain r2 s2 w2 where b: "?bodies (s, w1) = (r2, (s2, w2))" by (metis prod.exhaust)
  have bd: "\<forall>(n, b) \<in> set (stage3_bodies e). preserves tame b" using tame_bodies by blast
  have len: "length (stage3_bodies e) = length STAGE3_STEPS" by (simp add: stage3_bodies_def STAGE3_STEPS_def)
  have out: "phase s2 = phase s"
    "\<exists>k \<le> length STAGE3_STEPS. completed s2 = done_after (completed s) (take k STAGE3_STEPS) \<and> (r2 = Inr () \<longrightarrow> k = length STAGE3_STEPS)"
    "good_state s \<longrightarrow> good_state s2 \<and> adds_events (agent_records (completed s) {phase s} STAGE3_STEPS) w1 w2"
    using bodies_outcome [OF bd b] unfolding stage3_names len by blast+
  have ev2: "adds_events ?R w1 w2" if "good_state s"
    by (rule adds_events_mono, use out that in blast) (auto simp: finish_records_def)
  let ?s3 = "s2\<lparr>phase := ''complete''\<rparr>"
  have ev3: "adds_events ?R w2 (snd (snd (save e None (?s3, w2))))" if "good_state s" "r2 = Inr ()"
  proof (rule adds_events_mono)
    show "adds_events (records (completed ?s3) {''complete''}) w2 (snd (snd (save e None (?s3, w2))))"
      by (rule save_records) (use out(3) that in \<open>simp_all add: good_state_def\<close>)
    have "completed ?s3 = done_after (completed s) STAGE3_STEPS" using out(2) that by auto
    then show "?R x" if "records (completed ?s3) {''complete''} x" for x
      using that by (simp add: finish_records_def)
  qed
  consider (dir) x where "r1 = Inl x" | (body) x where "r1 = Inr ()" "r2 = Inl x" | (all) "r1 = Inr ()" "r2 = Inr ()"
    by (cases r1; cases r2) auto
  then show ?thesis
  proof cases
    case dir
    then have "r = Inl x" "s' = s" "w' = w1" using assms d by (simp_all add: run_stage3_def thenM_apply)
    then show ?thesis using ev1 by (auto intro!: exI [of _ 0])
  next
    case body
    then have "r = Inl x" "s' = s2" "w' = w2" using assms d b by (simp_all add: run_stage3_def thenM_apply)
    then show ?thesis using ev1 ev2 out body by (auto intro: adds_events_trans)
  next
    case all
    then have "r = Inr ()" "s' = ?s3" "w' = snd (snd (save e None (?s3, w2)))"
      using assms d b save_eq [of e None ?s3 w2] by (simp_all add: run_stage3_def thenM_apply upd_state_eq)
    moreover have "adds_events ?R w (snd (snd (save e None (?s3, w2))))" if "good_state s"
      using adds_events_trans [OF adds_events_trans [OF ev1 ev2 [OF that]] ev3 [OF that all(2)]] .
    ultimately show ?thesis using out all by (auto simp: good_state_def)
  qed
qed

subsection \<open>The agent finishes, or marks the failure\<close>

definition update_cmd :: "str list" where
  "update_cmd = [''emerge'', ''--update'', ''--deep'', ''--newuse'', ''--quiet-build'', ''@world'']"

definition resume_cmd :: "str list" where
  "resume_cmd = [''emerge'', ''--resume'', ''--skipfirst'']"

definition always_exits :: "env \<Rightarrow> bool" where
  "always_exits e \<longleftrightarrow> (\<forall>c f. \<exists>rc out f'. ext_cmd e c f = (Exit rc out, f'))"

definition exits_with :: "env \<Rightarrow> str list \<Rightarrow> (int \<Rightarrow> bool) \<Rightarrow> bool" where
  "exits_with e c P \<longleftrightarrow> (\<forall>f. \<exists>rc out f'. ext_cmd e (plain_cmd c) f = (Exit rc out, f') \<and> P rc)"

lemma emerge_exits:
  assumes "exits_with e (''emerge'' # args) P"
  obtains rc w' where "emerge e args sw = (Inr rc, (fst sw, w'))" and "P rc"
proof -
  obtain rc out f' where "ext_cmd e (plain_cmd (''emerge'' # args)) (fs (snd sw)) = (Exit rc out, f')" "P rc"
    using assms unfolding exits_with_def by blast
  then show ?thesis
    by (intro that [of rc "snd sw\<lparr>events := events (snd sw) @ [Cmd (plain_cmd (''emerge'' # args))], fs := f'\<rparr>"])
      (cases sw, simp_all add: emerge_def on_world_def run_cmd_def run_inv_def bindM_def ret_def)
qed

lemma exits_any: "always_exits e \<Longrightarrow> exits_with e c (\<lambda>_. True)"
  by (auto simp: always_exits_def exits_with_def)

definition returns :: "(sys, unit) act \<Rightarrow> bool" where
  "returns m \<longleftrightarrow> (\<forall>sw. fst (m sw) = Inr ())"

lemma returnsE:
  assumes "returns m" obtains sw' where "m sw = (Inr (), sw')"
  using assms by (metis returns_def prod.collapse)

lemma once_returns:
  assumes "returns body" shows "returns (once e n body)"
proof -
  have "fst (once e n body (s, w)) = Inr ()" for s w
  proof -
    obtain s1 w1 where m1: "mark_started e n (s, w) = (Inr (), (s1, w1))" by (rule mark_started_out)
    obtain sw2 where b: "body (s1, w1) = (Inr (), sw2)" by (rule returnsE [OF assms])
    obtain s3 w3 where "mark_done e n (fst sw2, snd sw2) = (Inr (), (s3, w3))" by (rule mark_done_out)
    with m1 b show ?thesis by (simp add: once_def getM_def bindM_def thenM_apply ret_def)
  qed
  then show ?thesis by (auto simp: returns_def)
qed

lemma mapM_returns: "\<forall>x \<in> set xs. returns (f x) \<Longrightarrow> returns (mapM f xs)"
proof (induction xs)
  case (Cons x xs)
  have ih: "returns (mapM f xs)" and x: "returns (f x)" using Cons by simp_all
  have "fst (thenM (f x) (mapM f xs) sw) = Inr ()" for sw
    by (rule returnsE [OF x, of sw]) (use ih in \<open>simp add: thenM_apply returns_def del: split_paired_All\<close>)
  then show ?case by (simp add: returns_def)
qed (simp add: returns_def ret_def)

lemma emerge_body_returns:
  assumes "exits_with e (''emerge'' # args) P" shows "returns (bindM (emerge e args) (\<lambda>rc. ret ()))"
proof -
  have "fst (bindM (emerge e args) (\<lambda>rc. ret ()) sw) = Inr ()" for sw
    by (rule emerge_exits [OF assms, of sw]) (simp add: bindM_def ret_def)
  then show ?thesis by (simp add: returns_def)
qed

lemma bodies_return:
  assumes ex: "always_exits e" and up: "exits_with e update_cmd (\<lambda>rc. rc = 0)" and "(n, body) \<in> set (stage3_bodies e)"
  shows "returns body"
proof -
  have "returns (sync_body e)" "returns (cleanup_body e)"
    unfolding sync_body_def cleanup_body_def by (rule emerge_body_returns [OF exits_any [OF ex]])+
  moreover have "fst (world_body e sw) = Inr ()" for sw
    by (rule emerge_exits [OF up [unfolded update_cmd_def], of sw]) (simp add: world_body_def bindM_def ret_def)
  moreover have q: "fst (on_world (run_quiet e c) sw) = Inr ()" for c sw
  proof -
    obtain rc out f' where "ext_cmd e (plain_cmd c) (fs (snd sw)) = (Exit rc out, f')"
      using ex unfolding always_exits_def by blast
    then show ?thesis
      by (cases sw) (simp add: on_world_def run_quiet_def run_cmd_def run_inv_def thenM_apply ret_def)
  qed
  have "fst (disable_body e sw) = Inr ()" for sw
    by (cases sw) (simp add: disable_body_def cfg_def getM_def bindM_def q)
  ultimately show ?thesis using assms(3) by (auto simp: stage3_bodies_def returns_def)
qed

lemma log_dir_there:
  assumes "is_dir_at w (mk_path ''/var/log'')" and "is_dir_at w (mk_path ''/var'')" and "is_dir_at w (mk_path ''/'')"
  shows "on_world (mkdir_parents e (mk_path ''/var/log'')) (s, w) = (Inr (), (s, w))"
proof -
  have "ancestors (mk_path ''/var/log'') = [mk_path ''/'', mk_path ''/var'', mk_path ''/var/log'']" by code_simp
  then show ?thesis using assms by (simp add: mkdir_parents_def is_dir_at_def make_dirs_noop on_world_def)
qed

text \<open>
  When every command exits and the update of the world set succeeds, the agent finishes: from
  any state it returns, every step of the third stage is recorded, and the phase is complete.
\<close>

theorem stage3_completes:
  assumes "always_exits e" and "exits_with e update_cmd (\<lambda>rc. rc = 0)" and "is_dir_at w (mk_path ''/var/log'')"
    and "is_dir_at w (mk_path ''/var'')" and "is_dir_at w (mk_path ''/'')"
  shows "\<exists>s' w'. run_stage3 e (s, w) = (Inr (), (s', w')) \<and> phase s' = ''complete''
     \<and> completed s' = done_after (completed s) STAGE3_STEPS"
proof -
  note d = log_dir_there [OF assms(3-5)]
  have "returns (mapM (\<lambda>(n, b). once e n b) (stage3_bodies e))"
    using bodies_return [OF assms(1,2)] once_returns by (intro mapM_returns) auto
  then obtain sw2 where "mapM (\<lambda>(n, b). once e n b) (stage3_bodies e) (s, w) = (Inr (), sw2)" by (rule returnsE)
  then have "fst (run_stage3 e (s, w)) = Inr ()"
    using d by (cases sw2) (simp add: run_stage3_def thenM_apply upd_state_eq save_no_exception)
  then obtain s' w' where r: "run_stage3 e (s, w) = (Inr (), (s', w'))" by (metis prod.collapse)
  then show ?thesis using run_stage3_outcome [OF r] by auto
qed

definition booted :: world where
  "booted = empty_world\<lparr>fs := (\<lambda>p. if p \<in> {mk_path ''/'', mk_path ''/var'', mk_path ''/var/log''} then Some FDir else None)\<rparr>"

theorem stage3_completes_witness:
  "\<exists>s' w'. run_stage3 calm_env (fresh_state, booted) = (Inr (), (s', w')) \<and> phase s' = ''complete''
     \<and> completed s' = done_after (completed fresh_state) STAGE3_STEPS"
  by (rule stage3_completes)
    (simp_all add: always_exits_def exits_with_def calm_env_def booted_def empty_world_def is_dir_at_def)


definition no_updates :: env where
  "no_updates = calm_env\<lparr>ext_cmd := (\<lambda>c f. (Exit 1 [], f))\<rparr>"


end
