(* ===== verification/Installer.thy ===== *)
theory Installer
  imports DiskSteps SystemSteps KernelSteps FinishSteps Agent
begin

text \<open>
  \<^verbatim>\<open>main.py\<close>: the options of the command line, the list of the steps of the first stage, and the
  three commands. Option parsing follows \<^verbatim>\<open>argparse\<close> (exact names, unique prefixes, \<^verbatim>\<open>--name=value\<close>,
  choices); the separator \<^verbatim>\<open>--\<close> is not treated. A state file whose fields have other types than the
  program writes is outside the model (\<open>None\<close>).
\<close>

subsection \<open>Options\<close>

record install_args =
  a_kernel_src :: "str option"
  a_disk :: "str option"
  a_root_fs :: str
  a_boot_size :: str
  a_swap_size :: str
  a_stage3_url :: "str option"
  a_hostname :: str
  a_timezone :: str
  a_locale :: str
  a_march :: str
  a_use :: "str list"
  a_iface :: str
  a_static_ip :: bool
  a_driver_value :: str
  a_cache_dir :: "str option"
  a_mountpoint :: str
  a_dtb :: "str option"

definition default_args :: install_args where
  "default_args = \<lparr>a_kernel_src = None, a_disk = None, a_root_fs = ''ext4'', a_boot_size = ''512MiB'',
     a_swap_size = ''8GiB'', a_stage3_url = None, a_hostname = ''gentoo'', a_timezone = ''UTC'',
     a_locale = ''en_US.UTF-8 UTF-8'', a_march = ''native'', a_use = [], a_iface = ''eth0'', a_static_ip = False,
     a_driver_value = ''m'', a_cache_dir = None, a_mountpoint = ''/mnt/gentoo'', a_dtb = None\<rparr>"

text \<open>What an option takes: one value (among choices, when there are any), any number of values, none; or help.\<close>

datatype option_kind =
    TakesOne "str list" "str \<Rightarrow> install_args \<Rightarrow> install_args"
  | TakesMany "str list \<Rightarrow> install_args \<Rightarrow> install_args"
  | Switch "install_args \<Rightarrow> install_args"
  | ShowHelp

definition install_options :: "(str \<times> option_kind) list" where
  "install_options =
     [(''-h'', ShowHelp), (''--help'', ShowHelp),
      (''--kernel-src'', TakesOne [] (\<lambda>v a. a\<lparr>a_kernel_src := Some v\<rparr>)),
      (''-k'', TakesOne [] (\<lambda>v a. a\<lparr>a_kernel_src := Some v\<rparr>)),
      (''--disk'', TakesOne [] (\<lambda>v a. a\<lparr>a_disk := Some v\<rparr>)),
      (''--root-fs'', TakesOne [''ext4'', ''btrfs'', ''xfs'', ''f2fs''] (\<lambda>v a. a\<lparr>a_root_fs := v\<rparr>)),
      (''--boot-size'', TakesOne [] (\<lambda>v a. a\<lparr>a_boot_size := v\<rparr>)),
      (''--swap-size'', TakesOne [] (\<lambda>v a. a\<lparr>a_swap_size := v\<rparr>)),
      (''--stage3-url'', TakesOne [] (\<lambda>v a. a\<lparr>a_stage3_url := Some v\<rparr>)),
      (''--hostname'', TakesOne [] (\<lambda>v a. a\<lparr>a_hostname := v\<rparr>)),
      (''--timezone'', TakesOne [] (\<lambda>v a. a\<lparr>a_timezone := v\<rparr>)),
      (''--locale'', TakesOne [] (\<lambda>v a. a\<lparr>a_locale := v\<rparr>)),
      (''--march'', TakesOne [] (\<lambda>v a. a\<lparr>a_march := v\<rparr>)),
      (''--use'', TakesMany (\<lambda>vs a. a\<lparr>a_use := vs\<rparr>)),
      (''--network-iface'', TakesOne [] (\<lambda>v a. a\<lparr>a_iface := v\<rparr>)),
      (''--static-ip'', Switch (\<lambda>a. a\<lparr>a_static_ip := True\<rparr>)),
      (''--driver-value'', TakesOne [''y'', ''m''] (\<lambda>v a. a\<lparr>a_driver_value := v\<rparr>)),
      (''--cache-dir'', TakesOne [] (\<lambda>v a. a\<lparr>a_cache_dir := Some v\<rparr>)),
      (''--mountpoint'', TakesOne [] (\<lambda>v a. a\<lparr>a_mountpoint := v\<rparr>)),
      (''--dtb'', TakesOne [] (\<lambda>v a. a\<lparr>a_dtb := Some v\<rparr>))]"

definition help_options :: "(str \<times> option_kind) list" where
  "help_options = [(''-h'', ShowHelp), (''--help'', ShowHelp)]"

text \<open>
  How a word is read: a value, an option with perhaps an attached value, an unknown option, or an
  ambiguous abbreviation.
\<close>

datatype word_class = is_WValue: WValue | WOption option_kind "str option" | WUnknown | is_WAmbiguous: WAmbiguous

definition cut_equals :: "str \<Rightarrow> str \<times> str option" where
  "cut_equals t =
     (let n = takeWhile (\<lambda>c. c \<noteq> CHR ''='') t in (n, if n = t then None else Some (drop (Suc (length n)) t)))"

definition abbreviated :: "(str \<times> option_kind) list \<Rightarrow> str \<Rightarrow> (option_kind \<times> str option) list" where
  "abbreviated opts t =
     (if starts_with ''--'' t then
        (case cut_equals t of (n, v) \<Rightarrow> map (\<lambda>(_, k). (k, v)) (filter (\<lambda>(m, _). starts_with n m) opts))
      else map (\<lambda>(m, k). (k, Some (drop 2 t))) (filter (\<lambda>(m, _). m = take 2 t) opts)
         @ map (\<lambda>(m, k). (k, None)) (filter (\<lambda>(m, _). starts_with t m) opts))"

definition negative_number :: "str \<Rightarrow> bool" where
  "negative_number t =
     (let r = drop 1 t; i = takeWhile is_digit r; f = drop (Suc (length i)) r
      in starts_with ''-'' t
       \<and> (r \<noteq> [] \<and> i = r \<or> length i < length r \<and> r ! length i = CHR ''.'' \<and> f \<noteq> [] \<and> list_all is_digit f))"

definition word_class :: "(str \<times> option_kind) list \<Rightarrow> str \<Rightarrow> word_class" where
  "word_class opts t =
     (if \<not> starts_with ''-'' t \<or> t = [] \<or> t = ''-'' then WValue
      else case map_of opts t of
        Some k \<Rightarrow> WOption k None
      | None \<Rightarrow>
          (case (map_of opts (fst (cut_equals t)), snd (cut_equals t)) of
             (Some k, Some v) \<Rightarrow> WOption k (Some v)
           | _ \<Rightarrow>
               (case abbreviated opts t of
                  [(k, v)] \<Rightarrow> WOption k v
                | _ # _ # _ \<Rightarrow> WAmbiguous
                | [] \<Rightarrow> if negative_number t \<or> CHR '' '' \<in> set t then WValue else WUnknown)))"


definition usage_error :: "exn + 'a" where
  "usage_error = Inl (SystemExit 2)"

definition check_choice :: "str list \<Rightarrow> str \<Rightarrow> exn + str" where
  "check_choice choices v = (if choices = [] \<or> v \<in> set choices then Inr v else usage_error)"

text \<open>Words that are no option value are collected and make the command fail once all others have been read.\<close>

function parse_words :: "str list \<Rightarrow> install_args \<Rightarrow> exn + install_args" where
  "parse_words [] a = Inr a"
| "parse_words (t # ts) a =
     (let is_value = (\<lambda>x. is_WValue (word_class install_options x))
      in case word_class install_options t of
           WValue \<Rightarrow> bindR (parse_words ts a) (\<lambda>_. usage_error)
         | WUnknown \<Rightarrow> bindR (parse_words ts a) (\<lambda>_. usage_error)
         | WAmbiguous \<Rightarrow> usage_error
         | WOption k v \<Rightarrow>
             (case (k, v) of
                (ShowHelp, None) \<Rightarrow> Inl (SystemExit 0)
              | (ShowHelp, Some _) \<Rightarrow> usage_error
              | (Switch f, None) \<Rightarrow> parse_words ts (f a)
              | (Switch f, Some _) \<Rightarrow> usage_error
              | (TakesOne cs f, Some x) \<Rightarrow> bindR (check_choice cs x) (\<lambda>x. parse_words ts (f x a))
              | (TakesOne cs f, None) \<Rightarrow>
                  (if ts \<noteq> [] \<and> is_value (hd ts)
                   then bindR (check_choice cs (hd ts)) (\<lambda>x. parse_words (tl ts) (f x a)) else usage_error)
              | (TakesMany f, Some x) \<Rightarrow> parse_words ts (f [x] a)
              | (TakesMany f, None) \<Rightarrow> parse_words (dropWhile is_value ts) (f (takeWhile is_value ts) a)))"
  by pat_completeness auto
termination
  by (relation "measure (\<lambda>(ts, a). length ts)") (auto simp: le_imp_less_Suc length_dropWhile_le)

definition parse_install :: "str list \<Rightarrow> exn + install_args" where
  "parse_install ts =
     (if \<exists>t \<in> set ts. is_WAmbiguous (word_class install_options t) then usage_error else parse_words ts default_args)"

text \<open>\<^verbatim>\<open>continue\<close> and \<^verbatim>\<open>status\<close> have no options of their own but help.\<close>

fun parse_plain :: "str list \<Rightarrow> exn + unit" where
  "parse_plain [] = Inr ()"
| "parse_plain (t # ts) =
     (case word_class help_options t of
        WOption _ None \<Rightarrow> Inl (SystemExit 0)
      | WOption _ (Some _) \<Rightarrow> usage_error
      | _ \<Rightarrow> bindR (parse_plain ts) (\<lambda>_. usage_error))"

datatype command = Install install_args | Continue | Status

text \<open>The command word comes first; an unknown option before it is an error. No word at all installs with the defaults.\<close>

fun parse_command :: "str list \<Rightarrow> exn + command" where
  "parse_command [] = usage_error"
| "parse_command (t # ts) =
     (case word_class help_options t of
        WValue \<Rightarrow>
          if t = ''install'' then map_sum id Install (parse_install ts)
          else if t = ''continue'' then map_sum id (\<lambda>_. Continue) (parse_plain ts)
          else if t = ''status'' then map_sum id (\<lambda>_. Status) (parse_plain ts)
          else usage_error
      | WOption _ None \<Rightarrow> Inl (SystemExit 0)
      | WOption _ (Some _) \<Rightarrow> usage_error
      | _ \<Rightarrow> bindR (parse_command ts) (\<lambda>_. usage_error))"

definition parse_args :: "str list \<Rightarrow> exn + command" where
  "parse_args given = (if given = [] then parse_command [''install''] else parse_command given)"

subsection \<open>The steps of the first stage\<close>

text \<open>The machine, the directories of block devices, and where the program itself is installed.\<close>

record host =
  h_machine :: machine
  h_blocks :: block_dirs
  h_source :: path

definition build_stage1_steps :: "host \<Rightarrow> install_args \<Rightarrow> step list" where
  "build_stage1_steps h a =
     [hardware_step (h_machine h),
      partition_step (h_blocks h) (a_disk a) (a_boot_size a) (a_swap_size a) None,
      format_step (a_root_fs a),
      mount_step,
      stage3_step (a_stage3_url a),
      extract_step,
      make_conf_step (a_march a) (a_use a),
      chroot_init_step,
      portage_sync_step,
      timezone_step (a_timezone a),
      locale_step (a_locale a),
      kernel_config_step (h_machine h) (a_kernel_src a) (a_cache_dir a) (a_driver_value a),
      kernel_compile_step,
      kernel_install_step,
      fstab_step,
      hostname_step (a_hostname a),
      root_password_step None,
      network_step (a_iface a) (\<not> a_static_ip a),
      bootloader_step,
      agent_step (h_source h),
      unmount_step]"

subsection \<open>The commands\<close>

definition set_mountpoint :: "install_args \<Rightarrow> installer_state \<Rightarrow> installer_state" where
  "set_mountpoint a s = (if a_mountpoint a \<noteq> [] then s\<lparr>mountpoint := a_mountpoint a\<rparr> else s)"

definition install_from :: "env \<Rightarrow> host \<Rightarrow> install_args \<Rightarrow> (sys, bool) act" where
  "install_from e h a = (\<lambda>(s, w). run_all_steps e (build_stage1_steps h a) (set_mountpoint a s, w))"

definition continue_from :: "env \<Rightarrow> (sys, unit) act" where
  "continue_from e = (\<lambda>(s, w).
     if phase s \<notin> {''stage1_complete'', ''stage3''} then (Inl (SystemExit 1), (s, w))
     else seqM [upd_state (\<lambda>s. s\<lparr>phase := ''stage3''\<rparr>), save e None, run_stage3 e] (s, w))"

definition on_loaded :: "(sys, 'a) act \<Rightarrow> world \<Rightarrow> ((exn + 'a) \<times> sys) option" where
  "on_loaded m w = (case load None w of Typed s \<Rightarrow> Some (m (s, w)) | Untyped _ \<Rightarrow> None)"

definition run_command :: "env \<Rightarrow> host \<Rightarrow> command \<Rightarrow> (sys, unit) act" where
  "run_command e h c =
     (case c of
        Install a \<Rightarrow> thenM (install_from e h a) (ret ())
      | Continue \<Rightarrow> continue_from e
      | Status \<Rightarrow> ret ())"

definition main :: "env \<Rightarrow> host \<Rightarrow> str list \<Rightarrow> world \<Rightarrow> ((exn + unit) \<times> world) option" where
  "main e h given w =
     (case parse_args given of
        Inl x \<Rightarrow> Some (Inl x, w)
      | Inr c \<Rightarrow> map_option (\<lambda>(r, (s, w')). (r, w')) (on_loaded (run_command e h c) w))"

end
