(* ===== verification/Sessions.thy ===== *)
theory Sessions
  imports Installer
begin

text \<open>
  What the commands do to the progress record: the outcome of an installation run on the real list
  of steps, what survives a crash, and the states an installation can be in after any sequence of runs and crashes.
\<close>

definition stage1_names :: "str list" where
  "stage1_names =
     [''hardware_detect'', ''disk_select'', ''format'', ''mount'', ''stage3_download'', ''stage3_extract'', ''makeconf'',
      ''chroot_init'', ''portage_sync'', ''timezone'', ''locale'', ''kernel_config'', ''kernel_compile'', ''kernel_install'',
      ''fstab'', ''hostname'', ''root_password'', ''network'', ''bootloader'', ''continuation_agent'', ''unmount'']"

lemmas step_defs = hardware_step_def partition_step_def format_step_def mount_step_def stage3_step_def extract_step_def
  make_conf_step_def chroot_init_step_def portage_sync_step_def timezone_step_def locale_step_def kernel_config_step_def
  kernel_compile_step_def kernel_install_step_def fstab_step_def hostname_step_def root_password_step_def
  network_step_def bootloader_step_def agent_step_def unmount_step_def

lemma stage1_step_names: "map st_name (build_stage1_steps h a) = stage1_names"
  by (simp add: build_stage1_steps_def stage1_names_def step_defs)

lemma stage1_contract: "all_contract e (build_stage1_steps h a)"
  by (simp add: build_stage1_steps_def hardware.step_contract_axioms partition.step_contract_axioms
      format.step_contract_axioms mount.step_contract_axioms stage3.step_contract_axioms
      stage3_extract.step_contract_axioms make_conf.step_contract_axioms chroot_init.step_contract_axioms
      portage_sync.step_contract_axioms timezone.step_contract_axioms locale_gen.step_contract_axioms
      kernel_config.step_contract_axioms kernel_compile.step_contract_axioms kernel_install.step_contract_axioms
      fstab.step_contract_axioms hostname.step_contract_axioms root_password.step_contract_axioms
      network.step_contract_axioms bootloader.step_contract_axioms agent.step_contract_axioms unmount.step_contract_axioms)

lemma set_mountpoint_fields [simp]:
  "completed (set_mountpoint a s) = completed s" "phase (set_mountpoint a s) = phase s"
  "config (set_mountpoint a s) = config s" "good_state (set_mountpoint a s) = good_state s"
  by (simp_all add: set_mountpoint_def good_state_def)

lemma distinct_stage1: "distinct stage1_names"
  by (simp add: stage1_names_def)

lemma length_stage1: "length stage1_names = 21"
  by (simp add: stage1_names_def)

text \<open>
  C12. An installation run completes the steps in order and skips those already completed: either
  all are completed, or the run stops at some step, all before it are completed, and that step stays the
  current one, not marked as failed.
\<close>

theorem install_outcome:
  assumes "install_from e h a (s, w) = (r, (s', w'))"
  shows "if r = Inr True
    then completed s' = completed s @ filter (\<lambda>n. n \<notin> set (completed s)) stage1_names
    else \<exists>k < 21. completed s' = completed s @ filter (\<lambda>n. n \<notin> set (completed s)) (take k stage1_names)
      \<and> current s' = Some (stage1_names ! k) \<and> stage1_names ! k \<notin> set (completed s') \<and> failed s' = None"
proof -
  have "run_outcome stage1_names (set_mountpoint a s) r s'"
    using run_all_outcome [OF stage1_contract] assms by (simp add: install_from_def stage1_step_names)
  moreover have "done_after (completed s) (take k stage1_names)
      = completed s @ filter (\<lambda>n. n \<notin> set (completed s)) (take k stage1_names)" for k
    by (simp add: done_after_filter distinct_stage1)
  moreover have "done_after (completed s) stage1_names
      = completed s @ filter (\<lambda>n. n \<notin> set (completed s)) stage1_names"
    by (simp add: done_after_filter distinct_stage1)
  ultimately show ?thesis by (auto simp: run_outcome_def length_stage1)
qed

definition bare_host :: host where
  "bare_host = \<lparr>h_machine = \<lparr>m_port = None, m_usb = None, m_mem = None,
       m_dt = \<lparr>dtf_dir = (\<lambda>_. None), dtf_read = (\<lambda>_. None)\<rparr>, m_tree = (\<lambda>_ _. KDir True []),
       m_resolve = (\<lambda>p. p), m_depth = 10\<rparr>,
     h_blocks = \<lparr>sys_block = Some [], dev_names = Some []\<rparr>, h_source = mk_path ''/opt/installer''\<rparr>"

lemma bare_run: "fst (install_from calm_env bare_host default_args (fresh_state, empty_world)) = Inr False"
  by code_simp

theorem install_outcome_witness:
  "\<exists>s' w'. install_from calm_env bare_host default_args (fresh_state, empty_world) = (Inr False, (s', w'))
     \<and> (\<exists>k < 21. completed s' = take k stage1_names \<and> current s' = Some (stage1_names ! k))"
proof -
  obtain s' w' where r: "install_from calm_env bare_host default_args (fresh_state, empty_world) = (Inr False, (s', w'))"
    using bare_run by (metis prod.collapse)
  show ?thesis using install_outcome [OF r] r by (auto simp: fresh_state_def)
qed

subsection \<open>What survives a crash\<close>

text \<open>The texts of the state files written between two worlds.\<close>

fun state_file_text :: "event \<Rightarrow> str option" where
  "state_file_text (Wrote p t) = (if is_state_file p then Some t else None)"
| "state_file_text _ = None"

definition saved_texts :: "world \<Rightarrow> world \<Rightarrow> str list" where
  "saved_texts w w' = List.map_filter state_file_text (drop (length (events w)) (events w'))"

fun_cases state_file_textE: "state_file_text ev = Some t"

lemma saved_textsD:
  assumes "adds_events P w w'" and "t \<in> set (saved_texts w w')"
  obtains p where "P (Wrote p t)" and "is_state_file p"
proof -
  obtain ev where ev: "ev \<in> set (drop (length (events w)) (events w'))" "state_file_text ev = Some t"
    using assms(2) by (auto simp: saved_texts_def List.map_filter_def)
  then have "P ev" using assms(1) by (auto simp: adds_events_def)
  with ev(2) show ?thesis by (elim state_file_textE) (auto intro: that split: if_splits)
qed

lemma recordsD:
  assumes "records c P (Wrote p t)" and "is_state_file p"
  obtains s where "load_text t = Inr (Typed s)" "t = state_text s" "completed s = c" "phase s \<in> P" "good_state s"
  using assms load_text_state_text by (auto simp: records_def)

text \<open>
  C11. Whenever an installation run is cut off, the state file last written can be loaded, and the
  state it gives has exactly a first part of the missing steps completed, in order: never a later step without an earlier one.
\<close>

theorem crash_keeps_prefix:
  assumes "good_state s" and "install_from e h a (s, w) = (r, (s', w'))"
    and "t \<in> set (saved_texts w w')"
  shows "\<exists>s'' k. k \<le> 21 \<and> load_text t = Inr (Typed s'') \<and> good_state s''
     \<and> completed s'' = completed s @ filter (\<lambda>n. n \<notin> set (completed s)) (take k stage1_names)"
proof -
  have "adds_events (records_prefix (completed s) (phase s) stage1_names) w w'"
    using run_all_records [OF stage1_contract [of e h a], of "set_mountpoint a s" w r s' w'] assms(1,2)
    by (simp add: install_from_def stage1_step_names)
  then obtain p where p: "records_prefix (completed s) (phase s) stage1_names (Wrote p t)" "is_state_file p"
    by (rule saved_textsD [OF _ assms(3)])
  then obtain k where k: "k \<le> 21"
    "records (done_after (completed s) (take k stage1_names)) (phase_after (phase s) stage1_names k) (Wrote p t)"
    by (auto simp: records_prefix_def length_stage1)
  obtain s'' where "load_text t = Inr (Typed s'')" "completed s'' = done_after (completed s) (take k stage1_names)" "good_state s''"
    by (rule recordsD [OF k(2) p(2)]) blast
  then show ?thesis using k(1) distinct_stage1 by (auto simp: done_after_filter)
qed

theorem crash_keeps_prefix_witness:
  "\<exists>t s'' k. t \<in> set (saved_texts empty_world
       (snd (snd (install_from calm_env bare_host default_args (fresh_state, empty_world)))))
     \<and> k \<le> 21 \<and> load_text t = Inr (Typed s'') \<and> completed s'' = take k stage1_names"
proof -
  let ?run = "install_from calm_env bare_host default_args (fresh_state, empty_world)"
  have "saved_texts empty_world (snd (snd ?run)) \<noteq> []" by code_simp
  then obtain t where t: "t \<in> set (saved_texts empty_world (snd (snd ?run)))" by (meson list.set_sel(1))
  have "good_state fresh_state" by (simp add: good_state_def fresh_state_def)
  from crash_keeps_prefix [OF this _ t, of calm_env bare_host default_args "fst ?run" "fst (snd ?run)"] t show ?thesis
    by (auto simp: fresh_state_def)
qed

subsection \<open>Every state an installation can be in\<close>

text \<open>
  A session is a run of a command, which leads to the state it ends with or, when it is cut off, to one
  loaded from a state file it had written; a state is reachable when sessions lead to it from the fresh one. The environment, the machine's
  state and the options may differ from run to run. External commands are taken not to write the state file.
\<close>

inductive session :: "installer_state \<Rightarrow> installer_state \<Rightarrow> bool" where
  installed: "install_from e h a (s, w) = (r, (s', w')) \<Longrightarrow> session s s'"
| install_cut: "install_from e h a (s, w) = (r, (s', w')) \<Longrightarrow> t \<in> set (saved_texts w w')
    \<Longrightarrow> load_text t = Inr (Typed s'') \<Longrightarrow> session s s''"
| continued: "continue_from e (s, w) = (r, (s', w')) \<Longrightarrow> session s s'"
| continue_cut: "continue_from e (s, w) = (r, (s', w')) \<Longrightarrow> t \<in> set (saved_texts w w')
    \<Longrightarrow> load_text t = Inr (Typed s'') \<Longrightarrow> session s s''"

inductive reachable :: "installer_state \<Rightarrow> bool" where
  reach_fresh: "reachable fresh_state"
| reach_session: "reachable s \<Longrightarrow> session s s' \<Longrightarrow> reachable s'"

lemma reach_install: "reachable s \<Longrightarrow> install_from e h a (s, w) = (r, (s', w')) \<Longrightarrow> reachable s'"
  by (rule reach_session, assumption) (rule installed)

text \<open>The steps of a list that are completed are a first part of it.\<close>

definition in_order :: "str list \<Rightarrow> str list \<Rightarrow> bool" where
  "in_order ns c \<longleftrightarrow> (\<exists>k. set ns \<inter> set c = set (take k ns))"

definition progress_ok :: "installer_state \<Rightarrow> bool" where
  "progress_ok s \<longleftrightarrow> good_state s \<and> distinct (completed s)
     \<and> set (completed s) \<subseteq> set stage1_names \<union> set STAGE3_STEPS
     \<and> in_order stage1_names (completed s) \<and> in_order STAGE3_STEPS (completed s)
     \<and> phase s \<in> {''stage1'', ''stage1_complete'', ''stage3'', ''complete''}
     \<and> (phase s \<noteq> ''stage1'' \<or> set STAGE3_STEPS \<inter> set (completed s) \<noteq> {}
          \<longrightarrow> set (take 19 stage1_names) \<subseteq> set (completed s))"

lemma stages_disjoint: "set stage1_names \<inter> set STAGE3_STEPS = {}"
  by (simp add: stage1_names_def STAGE3_STEPS_def)

lemma in_order_same: "in_order ns c \<Longrightarrow> in_order ns (done_after c (take k ns))"
proof -
  assume "in_order ns c"
  then obtain j where j: "set ns \<inter> set c = set (take j ns)" by (auto simp: in_order_def)
  have "set ns \<inter> set (done_after c (take k ns)) = set (take j ns) \<union> set (take k ns)"
    unfolding set_done_after Int_Un_distrib j using set_take_subset [of k ns] by blast
  also have "\<dots> = set (take (max j k) ns)"
  proof (cases "j \<le> k")
    case True
    then show ?thesis using set_take_subset_set_take [OF True, of ns] by (simp add: max_def Un_absorb1)
  next
    case False
    then show ?thesis using set_take_subset_set_take [of k j ns] by (simp add: max_def Un_absorb2)
  qed
  finally show ?thesis by (auto simp: in_order_def)
qed

lemma in_order_other:
  assumes "in_order ns c" and "set ns \<inter> set ms = {}"
  shows "in_order ns (done_after c (take k ms))"
proof -
  have "set ns \<inter> set (done_after c (take k ms)) = set ns \<inter> set c"
    using assms(2) set_take_subset [of k ms] unfolding set_done_after by blast
  with assms(1) show ?thesis by (simp add: in_order_def)
qed

lemma agent_position: "n \<in> set (take (Suc k) stage1_names) \<Longrightarrow> ends_stage n \<Longrightarrow> 19 \<le> k"
proof (rule ccontr)
  assume n: "n \<in> set (take (Suc k) stage1_names)" "ends_stage n" and "\<not> 19 \<le> k"
  then have "set (take (Suc k) stage1_names) \<subseteq> set (take 19 stage1_names)"
    by (intro set_take_subset_set_take) simp
  moreover have "''continuation_agent'' \<notin> set (take 19 stage1_names)" by code_simp
  ultimately show False using n by (auto simp: ends_stage_def)
qed

lemma progress_stage1:
  assumes ok: "progress_ok s" and c: "completed s' = done_after (completed s) (take k stage1_names)"
    and ph: "phase s' \<in> phase_after (phase s) stage1_names k" and g: "good_state s'"
  shows "progress_ok s'"
proof -
  have sub: "set (completed s) \<subseteq> set (completed s')" and all: "set (completed s') \<subseteq> set stage1_names \<union> set STAGE3_STEPS"
    using ok set_take_subset [of k stage1_names] by (auto simp: c set_done_after progress_ok_def)
  have "phase s' = phase s \<or> phase s' = ''stage1_complete'' \<and> 19 \<le> k"
    using ph agent_position [of _ k] by (auto simp: phase_after_def phases_def split: if_splits)
  moreover have "set (take 19 stage1_names) \<subseteq> set (completed s')" if "19 \<le> k"
    using set_take_subset_set_take [OF that, of stage1_names] by (auto simp: c set_done_after)
  moreover have "set STAGE3_STEPS \<inter> set (completed s') = set STAGE3_STEPS \<inter> set (completed s)"
    using stages_disjoint set_take_subset [of k stage1_names] unfolding c set_done_after by blast
  moreover have "distinct (completed s')" using ok by (simp add: c distinct_done_after progress_ok_def)
  moreover have "in_order stage1_names (completed s')" "in_order STAGE3_STEPS (completed s')"
    using ok in_order_same in_order_other [of STAGE3_STEPS _ stage1_names] stages_disjoint
    by (simp_all add: c progress_ok_def Int_commute)
  ultimately show ?thesis using ok g sub all unfolding progress_ok_def by auto
qed

lemma progress_stage3:
  assumes ok: "progress_ok s" and late: "phase s \<noteq> ''stage1''"
    and c: "completed s' = done_after (completed s) (take k STAGE3_STEPS)"
    and ph: "phase s' \<in> {phase s, ''stage3'', ''complete''}" and g: "good_state s'"
  shows "progress_ok s'"
proof -
  have "set (completed s) \<subseteq> set (completed s')" "set (completed s') \<subseteq> set stage1_names \<union> set STAGE3_STEPS"
    using ok set_take_subset [of k STAGE3_STEPS] by (auto simp: c set_done_after progress_ok_def)
  moreover have "distinct (completed s')" using ok by (simp add: c distinct_done_after progress_ok_def)
  moreover have "in_order stage1_names (completed s')" "in_order STAGE3_STEPS (completed s')"
    using ok in_order_same in_order_other [of stage1_names _ STAGE3_STEPS] stages_disjoint
    by (simp_all add: c progress_ok_def)
  ultimately show ?thesis using ok late g ph unfolding progress_ok_def by auto
qed

text \<open>What a run of each command leaves, and what it has saved when it is cut off.\<close>

definition stage1_progress :: "installer_state \<Rightarrow> installer_state \<Rightarrow> bool" where
  "stage1_progress s s' \<longleftrightarrow> good_state s' \<and> (\<exists>k. completed s' = done_after (completed s) (take k stage1_names)
     \<and> phase s' \<in> phase_after (phase s) stage1_names k)"

definition stage3_progress :: "installer_state \<Rightarrow> installer_state \<Rightarrow> bool" where
  "stage3_progress s s' \<longleftrightarrow> good_state s' \<and> phase s \<in> {''stage1_complete'', ''stage3''}
     \<and> (\<exists>k \<le> length STAGE3_STEPS. completed s' = done_after (completed s) (take k STAGE3_STEPS)
          \<and> (phase s' = ''stage3'' \<or> phase s' = ''complete'' \<and> k = length STAGE3_STEPS))"

lemma install_progress:
  assumes good: "good_state s" and run: "install_from e h a (s, w) = (r, (s', w'))"
  shows "stage1_progress s s'" and "t \<in> set (saved_texts w w') \<Longrightarrow> load_text t = Inr (Typed s'') \<Longrightarrow> stage1_progress s s''"
proof -
  have good': "good_state (set_mountpoint a s)" using good by simp
  note run' = run [unfolded install_from_def prod.case]
  note out = run_all_outcome [OF stage1_contract run', unfolded stage1_step_names]
  note rec = run_all_records [OF stage1_contract good' run', unfolded stage1_step_names]
  obtain k where "completed s' = done_after (completed (set_mountpoint a s)) (take k stage1_names)"
    "phase s' \<in> phase_after (phase (set_mountpoint a s)) stage1_names k"
    using out by (cases "r = Inr True") (auto simp: run_outcome_def intro: that [of "length stage1_names"])
  then show "stage1_progress s s'" using rec by (auto simp: stage1_progress_def)
  show "stage1_progress s s''" if t: "t \<in> set (saved_texts w w')" and l: "load_text t = Inr (Typed s'')"
  proof -
    obtain p where p: "records_prefix (completed (set_mountpoint a s)) (phase (set_mountpoint a s)) stage1_names (Wrote p t)"
      "is_state_file p" by (rule saved_textsD [OF conjunct2 [OF rec] t])
    then obtain k where
      "records (done_after (completed s) (take k stage1_names)) (phase_after (phase s) stage1_names k) (Wrote p t)"
      by (auto simp: records_prefix_def)
    with p(2) obtain s3 where "load_text t = Inr (Typed s3)" "completed s3 = done_after (completed s) (take k stage1_names)"
      "phase s3 \<in> phase_after (phase s) stage1_names k" "good_state s3"
      using recordsD by metis
    then show ?thesis using l by (auto simp: stage1_progress_def)
  qed
qed

lemma continue_progress:
  assumes good: "good_state s" and run: "continue_from e (s, w) = (r, (s', w'))"
  shows "s' = s \<and> saved_texts w w' = [] \<or> stage3_progress s s'"
    and "t \<in> set (saved_texts w w') \<Longrightarrow> load_text t = Inr (Typed s'') \<Longrightarrow> stage3_progress s s''"
proof -
  have "(s' = s \<and> saved_texts w w' = [] \<or> stage3_progress s s')
    \<and> (t \<in> set (saved_texts w w') \<longrightarrow> load_text t = Inr (Typed s'') \<longrightarrow> stage3_progress s s'')"
  proof (cases "phase s \<in> {''stage1_complete'', ''stage3''}")
    case False
    with run show ?thesis by (simp add: continue_from_def saved_texts_def List.map_filter_def)
  next
    case True
    define s1 where "s1 = s\<lparr>phase := ''stage3''\<rparr>"
    define w1 where "w1 = snd (snd (save e None (s1, w)))"
    have good1: "good_state s1" using good by (simp add: s1_def good_state_def)
    have run3: "run_stage3 e (s1, w1) = (r, (s', w'))"
    proof -
      have "save e None (s1, w) = (Inr (), (s1, w1))" unfolding w1_def by (rule save_eq)
      with run True show ?thesis by (auto simp: continue_from_def thenM_apply upd_state_eq s1_def)
    qed
    note out = run_stage3_outcome [OF run3]
    let ?R = "finish_records (completed s) ''stage3''"
    have s1: "completed s1 = completed s" "phase s1 = ''stage3''" by (simp_all add: s1_def)
    have "adds_events (records (completed s) {''stage3''}) w w1"
      unfolding w1_def s1(1) [symmetric] by (rule save_records) (use good1 s1 in simp_all)
    then have "adds_events ?R w w1"
      by (rule adds_events_mono) (simp add: finish_records_def agent_records_head)
    moreover have "adds_events ?R w1 w'" using out good1 by (simp add: s1)
    ultimately have ev: "adds_events ?R w w'" by (rule adds_events_trans)
    have "stage3_progress s s'"
      using out good1 True unfolding stage3_progress_def s1 by (cases "r = Inr ()") auto
    moreover have "stage3_progress s s''" if t: "t \<in> set (saved_texts w w')" and l: "load_text t = Inr (Typed s'')"
    proof -
      obtain p where p: "?R (Wrote p t)" "is_state_file p" by (rule saved_textsD [OF ev t])
      then obtain k P where k: "records (done_after (completed s) (take k STAGE3_STEPS)) P (Wrote p t)" "k \<le> length STAGE3_STEPS"
        "P = {''stage3''} \<or> P = {''complete''} \<and> k = length STAGE3_STEPS"
        by (auto simp: finish_records_def agent_records_def intro: that [of "length STAGE3_STEPS" "{''complete''}"])
      obtain s3 where "load_text t = Inr (Typed s3)" "completed s3 = done_after (completed s) (take k STAGE3_STEPS)"
        "phase s3 \<in> P" "good_state s3"
        by (rule recordsD [OF k(1) p(2)])
      then show ?thesis using l k(2,3) True by (auto simp: stage3_progress_def)
    qed
    ultimately show ?thesis by blast
  qed
  then show "s' = s \<and> saved_texts w w' = [] \<or> stage3_progress s s'"
    and "t \<in> set (saved_texts w w') \<Longrightarrow> load_text t = Inr (Typed s'') \<Longrightarrow> stage3_progress s s''" by blast+
qed

lemma progress_kept:
  "progress_ok s \<Longrightarrow> stage1_progress s s' \<Longrightarrow> progress_ok s'"
  "progress_ok s \<Longrightarrow> stage3_progress s s' \<Longrightarrow> progress_ok s'"
proof -
  show "progress_ok s'" if "progress_ok s" "stage1_progress s s'"
    using that progress_stage1 by (auto simp: stage1_progress_def)
  show "progress_ok s'" if ok: "progress_ok s" and p: "stage3_progress s s'"
  proof -
    obtain k where k: "completed s' = done_after (completed s) (take k STAGE3_STEPS)" "phase s' \<in> {phase s, ''stage3'', ''complete''}"
      using p by (auto simp: stage3_progress_def)
    have "phase s \<noteq> ''stage1''" "good_state s'" using p by (auto simp: stage3_progress_def)
    then show ?thesis using progress_stage3 [OF ok _ k] by blast
  qed
qed

lemma session_progress:
  assumes "session s s'" and "good_state s"
  shows "s' = s \<or> stage1_progress s s' \<or> stage3_progress s s'"
  using assms(1)
proof cases
  case (installed e h a w r w')
  then show ?thesis using install_progress(1) [OF assms(2)] by blast
next
  case (install_cut e h a w r s' w' t)
  then show ?thesis using install_progress(2) [OF assms(2)] by blast
next
  case (continued e w r w')
  then show ?thesis using continue_progress(1) [OF assms(2)] by blast
next
  case (continue_cut e w r s' w' t)
  then show ?thesis using continue_progress(2) [OF assms(2)] by blast
qed

lemma reachable_progress_ok: "reachable s \<Longrightarrow> progress_ok s"
proof (induction rule: reachable.induct)
  case reach_fresh
  show ?case
    by (auto simp: progress_ok_def fresh_state_def good_state_def in_order_def intro: exI [of _ 0])
next
  case (reach_session s s')
  then have "good_state s" by (simp add: progress_ok_def)
  with reach_session show ?case using session_progress progress_kept by blast
qed

text \<open>
  C2. In every reachable state, whatever the sequence of runs, failures and crashes: no step is recorded
  twice, the completed steps of each stage are a first part of it, and the second stage has begun
  (by its phase or by a completed step) only when all steps before the continuation agent are completed.
\<close>

theorem reachable_progress:
  assumes "reachable s"
  shows "progress_ok s"
  using assms by (rule reachable_progress_ok)

theorem reachable_progress_witness:
  "\<exists>s. reachable s \<and> current s = Some ''hardware_detect'' \<and> progress_ok s"
proof -
  obtain s' w' where r: "install_from calm_env bare_host default_args (fresh_state, empty_world) = (Inr False, (s', w'))"
    using bare_run by (metis prod.collapse)
  have "current (fst (snd (install_from calm_env bare_host default_args (fresh_state, empty_world)))) = Some ''hardware_detect''"
    by code_simp
  then have "current s' = Some ''hardware_detect''" by (simp add: r)
  moreover have "reachable s'" by (rule reach_install [OF reach_fresh r])
  ultimately show ?thesis using reachable_progress by blast
qed

end
