(* ===== verification/Doings.thy ===== *)
theory Doings
  imports StepBase
begin

text \<open>
  What a body does to the world, whatever the state: each event it adds satisfies a predicate. Saving the
  record writes files only, so these rules need no condition on the configuration.
\<close>

definition does :: "(event \<Rightarrow> bool) \<Rightarrow> sys \<Rightarrow> sys \<Rightarrow> bool" where
  "does P sw sw' \<longleftrightarrow> adds_events P (snd sw) (snd sw')"

interpretation does: frame "does P" for P
  by unfold_locales (auto simp: does_def adds_events_refl intro: adds_events_trans)

lemma does_on_world: "preserves (adds_events P) m \<Longrightarrow> preserves (does P) (on_world m)"
  by (auto simp: preserves_def does_def on_world_def split: prod.splits) (metis snd_conv)

lemma does_cfg: "preserves (does P) (cfg k v)"
  unfolding cfg_def by (rule does.pres_getM)

lemma does_target_root: "preserves (does P) target_root"
  unfolding target_root_def by (rule does.pres_getM)

lemma does_existsM: "preserves (does P) (existsM p)" "preserves (does P) (is_dirM p)"
  unfolding existsM_def is_dirM_def by (rule does.pres_getM)+

lemma does_fail_step: "preserves (does P) (fail_step msg)"
  unfolding fail_step_def by (rule does.pres_raise)

lemma does_save: "(\<And>p t. P (Wrote p t)) \<Longrightarrow> preserves (does P) (save e None)"
  using adds_events_trans [OF try_write_adds try_write_adds]
  by (auto simp: preserves_def does_def save_world)

lemma does_set_config:
  assumes "\<And>p t. P (Wrote p t)"
  shows "preserves (does P) (set_config e k v)"
proof -
  have "preserves (does P) (upd_state f)" for f
    by (simp add: preserves_def does_def upd_state_def adds_events_refl split: prod.split)
  then show ?thesis
    unfolding set_config_def by (intro does.pres_seq does_save assms)
qed

lemmas does_rules = does_cfg does_target_root does_existsM does_fail_step does_save does_set_config does_on_world
  pres_splits does.pres_intros world_rules

lemma doesD: "preserves (does P) m \<Longrightarrow> m (s, w) = (r, (s', w')) \<Longrightarrow> adds_events P w w'"
  by (metis does_def preserves_def snd_conv)

text \<open>In particular an event once added stays.\<close>

lemma does_grows: "preserves (does (\<lambda>_. True)) m \<Longrightarrow> m (s, w) = (r, (s', w')) \<Longrightarrow> x \<in> set (events w) \<Longrightarrow> x \<in> set (events w')"
  by (drule (1) doesD) (auto simp: adds_events_def)

end
