(* ===== verification/Pipeline.thy ===== *)
theory Pipeline
  imports KernelSteps Matching Doings
begin

text \<open>
  From the hardware that was detected to the kernel configuration that is written: what the saved
  hardware keeps of the devices, and that a driver found for a device ends up in the configuration.
\<close>

subsection \<open>What the saved hardware keeps\<close>

text \<open>The identifiers of the subsystem and the class codes other than a USB device's own are not saved.\<close>

definition saved_pci :: "pci_device \<Rightarrow> pci_device" where
  "saved_pci d = d\<lparr>pci_subvendor := 0xFFFF, pci_subdevice := 0xFFFF, pci_header_type := 0\<rparr>"

definition saved_usb :: "usb_device \<Rightarrow> usb_device" where
  "saved_usb d = \<lparr>usb_bus = 0, usb_address = 0, usb_vendor = usb_vendor d, usb_product = usb_product d, usb_bcd_device = 0,
     usb_dev_class = usb_dev_class d, usb_dev_subclass = 0, usb_dev_protocol = 0, usb_iface_class = 0,
     usb_iface_subclass = 0, usb_iface_protocol = 0\<rparr>"

lemmas field_simps = jindex_def dget_default_def

lemma rebuild_pci_json: "rebuild_pci (pci_json d) = Inr (saved_pci d)"
  by (simp add: rebuild_pci_def pci_json_def saved_pci_def field_simps bindR_def)

lemma rebuild_usb_json: "rebuild_usb (usb_json d) = Inr (saved_usb d)"
  by (simp add: rebuild_usb_def usb_json_def saved_usb_def field_simps bindR_def)

lemma mapR_map: "(\<And>x. f (g x) = Inr (h x)) \<Longrightarrow> mapR f (map g xs) = Inr (map h xs)"
  by (induction xs) (simp_all add: bindR_def)

lemma rebuild_hardware:
  "rebuild_devices (hardware_json ps us i ds) = Inr (map saved_pci ps, map saved_usb us)"
  by (simp add: rebuild_devices_def hardware_json_def field_simps bindR_def jitems_def
      mapR_map [of rebuild_pci pci_json, OF rebuild_pci_json] mapR_map [of rebuild_usb usb_json, OF rebuild_usb_json])

text \<open>
  The devices rebuilt from the saved hardware are those that were detected, in order, without
  their subsystem identifiers and, for USB, without everything but vendor, product and device class.
\<close>

theorem saved_hardware_reloads:
  "rebuild_devices (hardware_json ps us i ds) = Inr (map saved_pci ps, map saved_usb us)"
  by (rule rebuild_hardware)



subsection \<open>From a device to a symbol\<close>

definition driven_by :: "source_index \<Rightarrow> makefile_db \<Rightarrow> str \<Rightarrow> str \<Rightarrow> bool" where
  "driven_by idx db alias c \<longleftrightarrow> (\<exists>en \<in> set (index_match idx alias). c \<in> set (get_configs db (module en)))"

lemma matched_iff: "c \<in> set (matched_symbols idx db as) \<longleftrightarrow> (\<exists>a \<in> set as. driven_by idx db a c)"
  by (auto simp: matched_symbols_def driven_by_def)

lemma wanted_saved:
  assumes "wanted_symbols idx db kdb (hardware_json ps us i ds) = Inr (symbols, acpi)"
    and "a \<in> set (device_aliases (map saved_pci ps, map saved_usb us))" and "driven_by idx db a c"
    and "needed (k_entries kdb) {c} x"
  shows "x \<in> set symbols"
proof -
  obtain extra where s: "symbols = resolve_dependencies kdb
      (matched_symbols idx db (device_aliases (map saved_pci ps, map saved_usb us)) @ extra)"
    using assms(1) unfolding wanted_symbols_def rebuild_hardware by (auto simp: bindR_def split: sum.splits)
  have "c \<in> set (matched_symbols idx db (device_aliases (map saved_pci ps, map saved_usb us)))"
    using assms(2,3) matched_iff by blast
  then show ?thesis
    unfolding s resolve_dependencies_needed using needed_mono [OF assms(4)] by auto
qed

lemma kernel_generator_level:
  assumes "level_of v = Builtin \<or> level_of v = Module" and "kernel_generator symbols acpi v b = Inr g"
    and "x \<in> set symbols"
  shows "level_of v \<le> gen_level g x"
proof -
  have y: "level_of ''y'' = Builtin \<or> level_of ''y'' = Module" by simp
  have "level_of v \<le> gen_level (gen_add_many (new_generator acpi) symbols v ''hardware'') x"
    using assms(3) by (simp add: gen_add_many_level [OF assms(1)])
  with assms(2) show ?thesis
    by (auto simp: kernel_generator_def apply_boot_path_def fold_add_level [OF y] max_def
        split: sum.splits) (cases "static_configs b"; auto simp: fold_add_level [OF y] max_def)
qed

text \<open>A run of \<open>configure_kernel\<close> that succeeds, taken apart: what was read, computed and written.\<close>

lemma save_config_adds:
  assumes "save_config e p meta g w = (Inr (), w')"
  shows "\<exists>ts. events w' = events w @ [Wrote p (write_config ts meta g)]"
  using assms by (auto simp: save_config_def write_text_def split: if_splits)

lemma configure_run:
  assumes "configure_kernel m e None v src (s, w) = (Inr (), (s', w'))"
  obtains db kdb symbols acpi b g ts where
    "build_db (m_tree m (fs w) src) empty_db = Inr db" "load_kdb m src w = Inr kdb"
    "wanted_symbols (scan_tree (m_tree m (fs w) src)) db kdb (get_config s ''hardware'' (JObj [])) = Inr (symbols, acpi)"
    "boot_path_of s = Inr b" "kernel_generator symbols acpi v b = Inr g"
    "Wrote (path_div src [''.config'']) (write_config ts [(''generator'', ''anaconda-gentoo'')] g) \<in> set (events w')"
proof -
  let ?tree = "m_tree m (fs w) src"
  define rest where "rest = (\<lambda>(symbols :: str list) gen. seqM
        [on_world (save_config e (path_div src [''.config'']) [(''generator'', ''anaconda-gentoo'')] gen),
         on_world (thenM (check_inv e (cd_inv [''make'', ''olddefconfig''] src)) (ret ())),
         set_config e ''kernel_src'' (JStr (str_path src)),
         set_config e ''kernel_config_symbols'' (JInt (int (length symbols)))])"
  note fold_rest = rest_def [THEN fun_cong, THEN fun_cong, symmetric]
  obtain db kdb symbols acpi b g where r: "build_db ?tree empty_db = Inr db" "load_kdb m src w = Inr kdb"
    "wanted_symbols (scan_tree ?tree) db kdb (get_config s ''hardware'' (JObj [])) = Inr (symbols, acpi)"
    "boot_path_of s = Inr b" "kernel_generator symbols acpi v b = Inr g"
    and run: "rest symbols g (s, w) = (Inr (), (s', w'))"
    using assms unfolding configure_kernel_def fold_rest
    by (auto simp: bindM_def getM_def liftR_def on_world_def build_source_index_def
        ret_def cfg_def bindR_def split: sum.splits prod.splits)
  let ?tail = "seqM
        [on_world (thenM (check_inv e (cd_inv [''make'', ''olddefconfig''] src)) (ret ())),
         set_config e ''kernel_src'' (JStr (str_path src)),
         set_config e ''kernel_config_symbols'' (JInt (int (length symbols)))]"
  have grows: "preserves (does (\<lambda>_. True)) ?tail" by (intro does_rules) simp_all
  obtain w1 where w1: "save_config e (path_div src [''.config'']) [(''generator'', ''anaconda-gentoo'')] g w = (Inr (), w1)"
    and run1: "?tail (s, w1) = (Inr (), (s', w'))"
    using run unfolding rest_def seqM.simps(2) [of "on_world (save_config e (path_div src [''.config'']) [(''generator'', ''anaconda-gentoo'')] g)"]
    by (elim thenM_InrE) (auto simp: on_world_def split: prod.splits)
  obtain ts where "Wrote (path_div src [''.config'']) (write_config ts [(''generator'', ''anaconda-gentoo'')] g) \<in> set (events w1)"
    using save_config_adds [OF w1] by (metis in_set_conv_decomp)
  then have "Wrote (path_div src [''.config'']) (write_config ts [(''generator'', ''anaconda-gentoo'')] g) \<in> set (events w')"
    using does_grows [OF grows, of s w1 "Inr ()" s' w'] run1 by blast
  then show thesis by (rule that [OF r])
qed


text \<open>What the boot path adds is built in.\<close>

lemma kernel_generator_static:
  assumes "kernel_generator symbols acpi v b = Inr g" and "dget FS_CONFIG (lower (bp_root_fs b)) = Some c"
    and "x \<in> set (ALWAYS_STATIC @ [c] @ device_configs (if underlying_device b \<noteq> [] then underlying_device b else root_device b))"
  shows "gen_level g x = Builtin"
proof -
  have y: "level_of ''y'' = Builtin \<or> level_of ''y'' = Module" by simp
  obtain st where st: "static_configs b = Inr st" "x \<in> set st" using assms(2,3) by (auto simp: static_configs_def)
  with assms(1) show ?thesis
    by (auto simp: kernel_generator_def apply_boot_path_def fold_add_level [OF y] max_def)
qed

text \<open>
  C13. A kernel that was configured without error can reach its root: the driver symbols of the
  installation disk, the root file system and the symbols always needed are built in, not modules, in the written
  configuration, whatever the requested value for drivers is.
\<close>

theorem configured_for_boot:
  assumes "configure_kernel m e None v src (s, w) = (Inr (), (s', w'))"
    and "get_config s ''disk'' (JStr []) = JStr disk" and "disk \<noteq> []"
    and "get_config s ''root_fs'' (JStr ''ext4'') = JStr rfs" and "dget FS_CONFIG (lower rfs) = Some c"
    and "x \<in> set (ALWAYS_STATIC @ [c] @ device_configs disk)"
  shows "\<exists>g ts. Wrote (path_div src [''.config'']) (write_config ts [(''generator'', ''anaconda-gentoo'')] g) \<in> set (events w')
     \<and> gen_level g x = Builtin"
proof -
  obtain symbols acpi b g ts where 1: "boot_path_of s = Inr b" "kernel_generator symbols acpi v b = Inr g"
    "Wrote (path_div src [''.config'']) (write_config ts [(''generator'', ''anaconda-gentoo'')] g) \<in> set (events w')"
    by (rule configure_run [OF assms(1)])
  have "underlying_device b = disk" "bp_root_fs b = rfs"
    using 1(1) assms(2-4) by (auto simp: boot_path_of_def bindR_def Let_def split: sum.splits)
  then have "gen_level g x = Builtin"
    using kernel_generator_static [OF 1(2), of c x] assms(3,5,6) by simp
  with 1(3) show ?thesis by blast
qed

text \<open>Configuring succeeds when the tree can be read, the root file system is known and \<^verbatim>\<open>make\<close> succeeds.\<close>

lemma jcontains_list: "jcontains x (JList vs) = Inr (JStr x \<in> set vs)"
  by (simp add: jcontains_def)

lemma wanted_total: "\<exists>symbols. wanted_symbols idx db kdb (hardware_json ps us i ds) = Inr (symbols, has_acpi i)"
  unfolding wanted_symbols_def rebuild_hardware
  by (cases "has_acpi i") (simp_all add: bindR_def hardware_json_def acpi_json_def acpi_symbols_def field_simps jcontains_list)

lemma kernel_generator_total:
  "dget FS_CONFIG (lower (bp_root_fs b)) \<noteq> None \<Longrightarrow> \<exists>g. kernel_generator symbols acpi v b = Inr g"
  by (auto simp: kernel_generator_def apply_boot_path_def static_configs_def)

lemma configure_succeeds:
  assumes "get_config s ''hardware'' (JObj []) = hardware_json ps us i ds"
    and "build_db (m_tree m (fs w) src) empty_db = Inr db" and "load_kdb m src w = Inr kdb"
    and "boot_path_of s = Inr b" and "dget FS_CONFIG (lower (bp_root_fs b)) \<noteq> None"
    and "fs w src = Some FDir" and "fs w (path_div src [''.config'']) \<noteq> Some FDir"
    and "\<And>f p. may_write e f p" and "\<And>c f. fst (ext_cmd e c f) = Exit 0 []"
  shows "fst (configure_kernel m e None v src (s, w)) = Inr ()"
proof -
  obtain symbols where 1: "wanted_symbols (scan_tree (m_tree m (fs w) src)) db kdb (hardware_json ps us i ds) = Inr (symbols, has_acpi i)"
    using wanted_total by blast
  obtain g where 2: "kernel_generator symbols (has_acpi i) v b = Inr g" using kernel_generator_total [OF assms(5)] by blast
  have "path_parent (path_div src [''.config'']) = src" by (cases src) (simp add: path_parent_def path_div_def)
  then obtain w1 where 3: "save_config e (path_div src [''.config'']) [(''generator'', ''anaconda-gentoo'')] g w = (Inr (), w1)"
    using assms(6-8) by (auto simp: save_config_def write_text_def)
  obtain f where "ext_cmd e (cd_inv [''make'', ''olddefconfig''] src) (fs w1) = (Exit 0 [], f)"
    using assms(9) by (metis prod.collapse)
  then have 4: "\<exists>w2. check_inv e (cd_inv [''make'', ''olddefconfig''] src) w1 = (Inr [], w2)"
    by (auto simp: check_inv_def run_inv_def bindM_def ret_def)
  show ?thesis
    using assms(1-4) 1 2 3 4
    by (auto simp: configure_kernel_def bindM_def thenM_def getM_def liftR_def on_world_def build_source_index_def
        ret_def cfg_def bindR_def set_config_eq saved_def)
qed

definition nic_tree :: ktree where
  "nic_tree = KDir True [(''drivers'', KDir True
     [(''igb_main.c'', KFile (Some sample_source)), (''Makefile'', KFile (Some (unlines [''obj-$(CONFIG_IGB) += igb.o''])))])]"

definition nic_machine :: machine where
  "nic_machine = \<lparr>m_port = None, m_usb = None, m_mem = None,
     m_dt = \<lparr>dtf_dir = (\<lambda>_. None), dtf_read = (\<lambda>_. None)\<rparr>, m_tree = (\<lambda>_ _. nic_tree),
     m_resolve = (\<lambda>p. p), m_depth = 10\<rparr>"

definition nic_world :: world where
  "nic_world = empty_world\<lparr>fs := (\<lambda>p. if p = mk_path ''/'' \<or> p = mk_path ''/s'' then Some FDir
     else if p = mk_path ''/s/Kconfig'' then
       Some (FFile (unlines [''config IGB'', CHR 0x09 # ''tristate'', CHR 0x09 # ''select PTP_CLOCK'']))
     else None)\<rparr>"

definition nic_state :: installer_state where
  "nic_state = fresh_state\<lparr>config := [(''hardware'', hardware_json [sample_nic] [] no_acpi []), (''disk'', JStr ''/dev/sda'')]\<rparr>"

definition nic_boot :: boot_path where
  "nic_boot = \<lparr>root_device = [], bp_root_fs = ''ext4'', underlying_device = ''/dev/sda'', has_lvm = False,
     has_luks = False, has_raid = False, luks_cipher = ''aes-xts-plain64'', extra_static = []\<rparr>"

lemma nic_hardware: "get_config nic_state ''hardware'' (JObj []) = hardware_json [sample_nic] [] no_acpi []"
  by (simp add: get_config_def nic_state_def dget_default_def)

lemma nic_loaded: "load_kdb nic_machine (mk_path ''/s'') nic_world = Inr (projr (load_kdb nic_machine (mk_path ''/s'') nic_world))"
  "build_db nic_tree empty_db = Inr (projr (build_db nic_tree empty_db))"
  by (rule sum.collapse(2) [symmetric], code_simp)+

lemma nic_tree_of: "m_tree nic_machine f p = nic_tree"
  by (simp add: nic_machine_def)

lemma nic_configured: "fst (configure_kernel nic_machine calm_env None ''m'' (mk_path ''/s'') (nic_state, nic_world)) = Inr ()"
proof (rule configure_succeeds [OF nic_hardware _ nic_loaded(1)])
  show "build_db (m_tree nic_machine (fs nic_world) (mk_path ''/s'')) empty_db = Inr (projr (build_db nic_tree empty_db))"
    unfolding nic_tree_of by (rule nic_loaded(2))
  show "boot_path_of nic_state = Inr nic_boot" by code_simp
  show "dget FS_CONFIG (lower (bp_root_fs nic_boot)) \<noteq> None" by code_simp
  show "fs nic_world (mk_path ''/s'') = Some FDir" "fs nic_world (path_div (mk_path ''/s'') [''.config'']) \<noteq> Some FDir"
    by code_simp+
qed (simp_all add: calm_env_def)


theorem configured_for_boot_witness:
  "\<exists>s' w' g ts. configure_kernel nic_machine calm_env None ''m'' (mk_path ''/s'') (nic_state, nic_world) = (Inr (), (s', w'))
     \<and> Wrote (path_div (mk_path ''/s'') [''.config'']) (write_config ts [(''generator'', ''anaconda-gentoo'')] g) \<in> set (events w')
     \<and> gen_level g ''AHCI'' = Builtin"
proof -
  let ?run = "configure_kernel nic_machine calm_env None ''m'' (mk_path ''/s'') (nic_state, nic_world)"
  obtain s' w' where r: "?run = (Inr (), (s', w'))" using nic_configured by (metis prod.collapse)
  have "''AHCI'' \<in> set (ALWAYS_STATIC @ [''EXT4_FS''] @ device_configs ''/dev/sda'')" by code_simp
  moreover have "dget FS_CONFIG (lower ''ext4'') = Some ''EXT4_FS''" by code_simp
  ultimately show ?thesis
    using configured_for_boot [OF r, of "''/dev/sda''" "''ext4''"] r
    by (simp add: get_config_def nic_state_def dget_default_def fresh_state_def)
qed

end
