(* ===== verification/DiskFacts.thy ===== *)
theory DiskFacts
  imports DiskSteps Doings
begin

text \<open>
  What the disk steps do to the machine: the partitions they record are the ones they create, and
  partitioning touches the chosen disk only.
\<close>

subsection \<open>Partition names\<close>

text \<open>
  The kernel's name of a partition, the numbers the \<^verbatim>\<open>--new\<close> options of \<^verbatim>\<open>sgdisk\<close>
  give, and the numbers the answers to \<^verbatim>\<open>fdisk\<close> give after \<^verbatim>\<open>n\<close> and \<^verbatim>\<open>p\<close>.
\<close>

definition kernel_name :: "str \<Rightarrow> str \<Rightarrow> str" where
  "kernel_name disk n = disk @ (if is_digit (last disk) then ''p'' else []) @ n"

definition gpt_new :: "str list \<Rightarrow> str list" where
  "gpt_new args = map (\<lambda>a. takeWhile (\<lambda>c. c \<noteq> CHR '':'') (drop 6 a)) (filter (starts_with ''--new='') args)"

fun mbr_new :: "str list \<Rightarrow> str list" where
  "mbr_new (x # y # n # xs) = (if x = ''n'' \<and> y = ''p'' then n # mbr_new xs else mbr_new (y # n # xs))"
| "mbr_new xs = []"

definition plan_parts :: "partition_plan \<Rightarrow> str list" where
  "plan_parts plan = filter (\<lambda>p. p \<noteq> []) [boot_part plan, swap_part plan, root_part plan]"



subsection \<open>Only the chosen disk\<close>

definition on_disk :: "str \<Rightarrow> event \<Rightarrow> bool" where
  "on_disk disk ev \<longleftrightarrow> (\<exists>p t. ev = Wrote p t) \<or> (\<exists>c. ev = Cmd c \<and> last (argv c) = disk \<and> cwd c = None \<and> environ c = None)"

lemma on_disk_simps [simp]:
  "on_disk disk (Wrote p t)" "on_disk disk (Cmd c) \<longleftrightarrow> last (argv c) = disk \<and> cwd c = None \<and> environ c = None"
  by (simp_all add: on_disk_def)

lemma layout_on_disk:
  "preserves (adds_events (on_disk (plan_disk plan))) (create_gpt_layout e plan)"
  "preserves (adds_events (on_disk (plan_disk plan))) (create_mbr_layout e plan)"
  unfolding create_gpt_layout_def create_mbr_layout_def wipe_disk_def
  by (intro event_rules; simp add: plain_cmd_def)+

lemma partition_on_disk: "preserves (does (on_disk disk)) (partition_on e b bsz ssz u disk)"
proof -
  have "preserves (adds_events (on_disk disk)) (create_gpt_layout e (plan_for disk bsz ssz x))"
    "preserves (adds_events (on_disk disk)) (create_mbr_layout e (plan_for disk bsz ssz x))" for x
    using layout_on_disk [of "plan_for disk bsz ssz x"] by (simp_all add: plan_for_def)
  then show ?thesis
    unfolding partition_on_def Let_def detect_uefi_def by (intro does_rules) simp_all
qed

text \<open>
  C17. With a disk given, the partitioning step runs no command but on that disk: whatever happens
  (an error included), every command it adds names the disk as its last argument, and all else it does is to write its record.
\<close>

theorem partition_touches_one_disk:
  assumes "disk \<noteq> []" and "st_exec (partition_step b (Some disk) bsz ssz u) e (s, w) = (r, (s', w'))"
  shows "adds_events (on_disk disk) w w'"
proof -
  have "preserves (does (on_disk disk)) (bindM (choose_disk e b (Some disk)) (partition_on e b bsz ssz u))"
    using assms(1) partition_on_disk by (simp add: choose_disk_def bindM_def ret_def liftR_def preserves_def)
  then show ?thesis using assms(2) by (auto simp: partition_step_def intro: doesD)
qed

theorem partition_touches_one_disk_witness:
  "\<exists>s' w'. st_exec (partition_step \<lparr>sys_block = Some [], dev_names = Some []\<rparr> (Some ''/dev/sda'') ''512MiB'' ''8GiB'' (Some True))
       calm_env (fresh_state, empty_world) = (Inr (), (s', w'))
     \<and> adds_events (on_disk ''/dev/sda'') empty_world w' \<and> 4 \<le> length (events w')"
proof -
  let ?run = "st_exec (partition_step \<lparr>sys_block = Some [], dev_names = Some []\<rparr> (Some ''/dev/sda'') ''512MiB'' ''8GiB'' (Some True))
       calm_env (fresh_state, empty_world)"
  have "fst ?run = Inr ()" by code_simp
  then obtain s' w' where r: "?run = (Inr (), (s', w'))" by (metis prod.collapse)
  have "4 \<le> length (events (snd (snd ?run)))" by code_simp
  then have "4 \<le> length (events w')" by (simp add: r)
  with partition_touches_one_disk [OF _ r] r show ?thesis by simp
qed

end
