(* ===== verification/Succeeds.thy ===== *)
theory Succeeds
  imports FinishSteps
begin

text \<open>
  Total correctness: computations that return without an exception from every world in which certain
  paths are directories and certain others are not, and that lead to such a world again.
\<close>

definition succeeds :: "('s \<Rightarrow> bool) \<Rightarrow> ('s, 'a) act \<Rightarrow> bool" where
  "succeeds I m \<longleftrightarrow> (\<forall>s. I s \<longrightarrow> (\<exists>x s'. m s = (Inr x, s') \<and> I s'))"

lemma succeedsI: "(\<And>s. I s \<Longrightarrow> \<exists>x s'. m s = (Inr x, s') \<and> I s') \<Longrightarrow> succeeds I m"
  by (simp add: succeeds_def)

lemma succeedsE:
  assumes "succeeds I m" and "I s"
  obtains x s' where "m s = (Inr x, s')" "I s'"
  using assms by (auto simp: succeeds_def)

lemma succ_ret: "succeeds I (ret x)" "succeeds I (getM f)"
  by (simp_all add: succeeds_def ret_def getM_def)

lemma succ_bind:
  assumes "succeeds I m" and "\<And>x. succeeds I (f x)"
  shows "succeeds I (bindM m f)"
proof (rule succeedsI)
  fix s assume "I s"
  then obtain x s1 where m: "m s = (Inr x, s1)" "I s1" by (rule succeedsE [OF assms(1)])
  then obtain y s2 where "f x s1 = (Inr y, s2)" "I s2" using succeedsE [OF assms(2)] by metis
  with m show "\<exists>x s'. bindM m f s = (Inr x, s') \<and> I s'" by (simp add: bindM_Inr)
qed

lemma succ_then: "succeeds I m \<Longrightarrow> succeeds I n \<Longrightarrow> succeeds I (thenM m n)"
  by (simp add: thenM_def succ_bind)

lemma succ_seq: "succeeds I (seqM [])" "succeeds I m \<Longrightarrow> succeeds I (seqM ms) \<Longrightarrow> succeeds I (seqM (m # ms))"
  by (simp_all add: succ_ret succ_then)

lemma succ_mapM: "(\<And>x. x \<in> set xs \<Longrightarrow> succeeds I (f x)) \<Longrightarrow> succeeds I (mapM f xs)"
  by (induction xs) (simp_all add: succ_ret succ_then)

lemma succ_when: "(b \<Longrightarrow> succeeds I m) \<Longrightarrow> succeeds I (whenM b m)"
  by (simp add: whenM_def succ_ret)

lemma succ_if: "(b \<Longrightarrow> succeeds I m) \<Longrightarrow> (\<not> b \<Longrightarrow> succeeds I n) \<Longrightarrow> succeeds I (if b then m else n)"
  by simp

lemma succ_prod: "(\<And>a b. succeeds I (f a b)) \<Longrightarrow> succeeds I (case x of (a, b) \<Rightarrow> f a b)"
  by (cases x) simp

lemma succ_catch: "succeeds I m \<Longrightarrow> succeeds I (catchM m p h)"
  by (fastforce simp: succeeds_def catchM_def)
lemma succ_finally:
  assumes "succeeds I m" and "succeeds I n"
  shows "succeeds I (finallyM m n)"
proof (rule succeedsI)
  fix s assume "I s"
  then obtain x s1 where m: "m s = (Inr x, s1)" "I s1" by (rule succeedsE [OF assms(1)])
  then obtain y s2 where "n s1 = (Inr y, s2)" "I s2" using succeedsE [OF assms(2)] by metis
  with m show "\<exists>x s'. finallyM m n s = (Inr x, s') \<and> I s'" by (simp add: finallyM_def)
qed

lemmas succ_rules = succ_ret succ_bind succ_then succ_seq succ_mapM succ_when succ_if succ_prod succ_catch succ_finally

subsection \<open>The file system\<close>

text \<open>
  Directories, paths that are none, paths that are absent or directories, files that can be read, paths where
  something is, and files whose contents stay.
\<close>

record layout =
  dirs :: "path set"
  files :: "path set"
  free :: "path set"
  texts :: "path set"
  present :: "path set"
  fixed :: fsys

definition laid_out :: "layout \<Rightarrow> fsys \<Rightarrow> bool" where
  "laid_out L f \<longleftrightarrow> (\<forall>p \<in> dirs L. f p = Some FDir) \<and> (\<forall>p \<in> files L. f p \<noteq> Some FDir)
     \<and> (\<forall>p \<in> free L. f p = None \<or> f p = Some FDir)
     \<and> (\<forall>p \<in> texts L. \<exists>t. f p = Some (FFile t)) \<and> (\<forall>p \<in> present L. f p \<noteq> None)
     \<and> (\<forall>p n. fixed L p = Some n \<longrightarrow> f p = Some n)"

abbreviation in_layout :: "layout \<Rightarrow> world \<Rightarrow> bool" where
  "in_layout L w \<equiv> laid_out L (fs w)"

text \<open>Every external command succeeds and leaves the layout as it is.\<close>

definition gentle :: "layout \<Rightarrow> env \<Rightarrow> bool" where
  "gentle L e \<longleftrightarrow> (\<forall>c f. laid_out L f \<longrightarrow> (\<exists>out f'. ext_cmd e c f = (Exit 0 out, f') \<and> laid_out L f'))"

lemma succ_run_inv:
  assumes "gentle L e"
  shows "succeeds (in_layout L) (run_inv e c)"
proof (rule succeedsI)
  fix w :: world assume "laid_out L (fs w)"
  then obtain out f' where "ext_cmd e c (fs w) = (Exit 0 out, f')" "laid_out L f'"
    using assms unfolding gentle_def by blast
  then show "\<exists>x w'. run_inv e c w = (Inr x, w') \<and> laid_out L (fs w')" by (simp add: run_inv_def)
qed

lemma succ_check_inv:
  assumes "gentle L e"
  shows "succeeds (in_layout L) (check_inv e c)"
proof (rule succeedsI)
  fix w :: world assume "laid_out L (fs w)"
  then obtain out f' where "ext_cmd e c (fs w) = (Exit 0 out, f')" "laid_out L f'"
    using assms unfolding gentle_def by blast
  then show "\<exists>x w'. check_inv e c w = (Inr x, w') \<and> laid_out L (fs w')"
    by (simp add: check_inv_def run_inv_def bindM_def ret_def)
qed

lemma succ_commands:
  assumes "gentle L e"
  shows "succeeds (in_layout L) (run_cmd e cmd)" "succeeds (in_layout L) (run_do e cmd)"
    "succeeds (in_layout L) (run_quiet e cmd)"
  unfolding run_cmd_def run_do_def run_check_def run_quiet_def
  by (intro succ_then succ_ret succ_run_inv succ_check_inv assms)+

lemma succ_mkdir: "set (ancestors p) \<subseteq> dirs L \<Longrightarrow> succeeds (in_layout L) (mkdir_parents e p)"
  by (rule succeedsI) (force simp: mkdir_parents_def laid_out_def make_dirs_noop subset_iff)

lemma succ_is_mounted: "gentle L e \<Longrightarrow> succeeds (in_layout L) (is_mounted e p)"
  unfolding is_mounted_def by (intro succ_rules succ_commands)

lemma succ_mount_one:
  assumes "gentle L e" and "set (ancestors (sub_path mp (fst x))) \<subseteq> dirs L"
  shows "succeeds (in_layout L) (mount_one e mp x)"
proof -
  obtain rel src fstype flags where x: "x = (rel, src, fstype, flags)" by (cases x)
  have "set (ancestors (sub_path mp rel)) \<subseteq> dirs L" using assms(2) by (simp add: x)
  then show ?thesis
    unfolding mount_one_def x prod.case Let_def
    by (intro succ_rules succ_mkdir succ_commands succ_is_mounted assms(1))
qed

lemma succ_mount_pseudofs:
  assumes "gentle L e" and "\<forall>x \<in> set BIND_MOUNTS. set (ancestors (sub_path mp (fst x))) \<subseteq> dirs L"
  shows "succeeds (in_layout L) (mount_pseudofs e mp)"
  unfolding mount_pseudofs_def using assms by (intro succ_mapM succ_mount_one) auto

lemma succ_umount_pseudofs: "gentle L e \<Longrightarrow> succeeds (in_layout L) (umount_pseudofs e mp)"
  unfolding umount_pseudofs_def umount_one_def Let_def by (intro succ_rules succ_commands succ_is_mounted)

lemma succ_umount_all: "gentle L e \<Longrightarrow> succeeds (in_layout L) (umount_all e mp)"
  unfolding umount_all_def by (intro succ_rules succ_commands succ_umount_pseudofs)

lemma succ_chroot_context:
  assumes "gentle L e" and "\<forall>x \<in> set BIND_MOUNTS. set (ancestors (sub_path mp (fst x))) \<subseteq> dirs L"
    and "succeeds (in_layout L) body"
  shows "succeeds (in_layout L) (chroot_context e mp body)"
  unfolding chroot_context_def
  by (intro succ_then succ_finally succ_mount_pseudofs succ_umount_pseudofs assms)

lemma succ_chroot_run: "gentle L e \<Longrightarrow> succeeds (in_layout L) (chroot_run e mp cmd extra check)"
  unfolding chroot_run_def by (intro succ_rules succ_run_inv succ_check_inv)

text \<open>Writing a file that the layout keeps free, and making it executable.\<close>

definition may_file :: "env \<Rightarrow> layout \<Rightarrow> path \<Rightarrow> bool" where
  "may_file e L p \<longleftrightarrow> path_parent p \<in> dirs L \<and> p \<in> files L \<and> p \<notin> dirs L \<and> p \<notin> free L \<and> fixed L p = None
     \<and> (\<forall>f. may_write e f p)"

lemma succ_write: "may_file e L p \<Longrightarrow> succeeds (in_layout L) (write_text e p t)"
  by (rule succeedsI) (auto simp: write_text_def laid_out_def may_file_def)

lemma succ_write_chmod:
  "may_file e L p \<Longrightarrow> succeeds (in_layout L) (thenM (write_text e p t) (chmod p mode))"
  by (rule succeedsI) (auto simp: write_text_def chmod_def laid_out_def thenM_apply may_file_def)

text \<open>Replacing a tree below a free path that holds no part of the layout.\<close>

definition replaceable :: "env \<Rightarrow> layout \<Rightarrow> path \<Rightarrow> bool" where
  "replaceable e L p \<longleftrightarrow> p \<in> free L \<and> set (ancestors (path_parent p)) \<subseteq> dirs L \<and> pparts p \<noteq> []
     \<and> (\<forall>q \<in> dirs L \<union> files L \<union> free L \<union> texts L \<union> present L \<union> dom (fixed L). below p q \<longrightarrow> q = p)
     \<and> p \<notin> dirs L \<and> p \<notin> files L \<and> p \<notin> texts L \<and> p \<notin> present L \<and> fixed L p = None
     \<and> (\<forall>f. may_write e f p)"

lemma ancestors_step: "pparts p \<noteq> [] \<Longrightarrow> ancestors p = ancestors (path_parent p) @ [p]"
proof -
  assume "pparts p \<noteq> []"
  then have "[0..<Suc (length (pparts p))] = [0..<Suc (length (pparts p) - 1)] @ [length (pparts p)]" by simp
  moreover have "take i (pparts p) = take i (butlast (pparts p))" if "i < Suc (length (pparts p) - 1)" for i
    using that by (simp add: butlast_conv_take min_def)
  ultimately show ?thesis by (cases p) (simp add: ancestors_def path_parent_def)
qed

lemma make_dirs_append:
  "make_dirs e (ps @ qs) f = (case make_dirs e ps f of (Inl x, f') \<Rightarrow> (Inl x, f') | (Inr _, f') \<Rightarrow> make_dirs e qs f')"
  by (induction ps arbitrary: f) (auto split: option.splits node.splits)

lemma succ_copy_tree:
  assumes "replaceable e L q" and "p \<in> dirs L" and "laid_out L (fs w)" and "fs w q = None"
  shows "\<exists>w'. copy_tree e ig p q w = (Inr (), w') \<and> laid_out L (fs w')"
proof -
  have "make_dirs e (ancestors (path_parent q)) (fs w) = (Inr (), fs w)"
    using assms(1,3) by (intro make_dirs_noop) (auto simp: replaceable_def laid_out_def)
  then have m: "make_dirs e (ancestors q) (fs w) = (Inr (), (fs w)(q \<mapsto> FDir))"
    using assms(1,4) by (simp add: ancestors_step make_dirs_append replaceable_def)
  show ?thesis
    using assms by (auto simp: copy_tree_def m laid_out_def replaceable_def)
qed

lemma succ_replace_tree:
  assumes "replaceable e L q" and "p \<in> dirs L" and "laid_out L (fs w)"
  shows "\<exists>w'. (if exists_at w q then thenM (rm_tree e q) (copy_tree e ig p q) else copy_tree e ig p q) w = (Inr (), w')
     \<and> laid_out L (fs w')"
proof (cases "exists_at w q")
  case False
  then show ?thesis using succ_copy_tree [OF assms] by (simp add: exists_at_def)
next
  case True
  then have "fs w q = Some FDir" using assms(1,3) by (auto simp: exists_at_def replaceable_def laid_out_def)
  then obtain w1 where r: "rm_tree e q w = (Inr (), w1)" "fs w1 = (\<lambda>r. if below q r then None else fs w r)"
    using assms(1) by (simp add: rm_tree_def replaceable_def)
  have "below q q" by (simp add: below_def)
  then have "laid_out L (fs w1)" "fs w1 q = None"
    using assms(1,3) by (auto simp: r(2) laid_out_def replaceable_def)
  then show ?thesis using succ_copy_tree [OF assms(1,2), of w1 ig] True r(1) by (simp add: thenM_Inr)
qed

subsection \<open>The state and the layout\<close>

definition on_target :: "layout \<Rightarrow> str \<Rightarrow> sys \<Rightarrow> bool" where
  "on_target L mp sw \<longleftrightarrow> mountpoint (fst sw) = mp \<and> laid_out L (fs (snd sw))"

lemma succ_on_world: "succeeds (in_layout L) m \<Longrightarrow> succeeds (on_target L mp) (on_world m)"
proof (rule succeedsI)
  fix sw assume m: "succeeds (in_layout L) m" and i: "on_target L mp sw"
  then obtain x w' where "m (snd sw) = (Inr x, w')" "laid_out L (fs w')"
    using succeedsE [OF m, of "snd sw"] by (auto simp: on_target_def)
  with i show "\<exists>x s'. on_world m sw = (Inr x, s') \<and> on_target L mp s'"
    by (cases sw) (simp add: on_world_def on_target_def)
qed

lemma succ_reads:
  "succeeds (on_target L mp) (existsM p)" "succeeds (on_target L mp) (cfg k v)"
  unfolding existsM_def cfg_def by (rule succ_ret)+

text \<open>Saving makes no directory of a file of the layout.\<close>

definition clear_of :: "path \<Rightarrow> layout \<Rightarrow> bool" where
  "clear_of p L \<longleftrightarrow> p \<notin> free L \<and> fixed L p = None \<and> (\<forall>q \<in> files L. q \<notin> set (ancestors (path_parent p)))"

lemma laid_out_try:
  assumes "laid_out L (fs w)" and "clear_of p L"
  shows "laid_out L (fs (snd (try_write e p t w)))"
proof -
  have "fs (snd (try_write e p t w)) q \<noteq> Some FDir" if "q \<in> files L" for q
    using assms that try_write_frame [of e p t w q] by (auto simp: laid_out_def clear_of_def)
  moreover have "fs (snd (try_write e p t w)) q = None \<or> fs (snd (try_write e p t w)) q = Some FDir" if "q \<in> free L" for q
    using assms that try_write_frame [of e p t w q] by (auto simp: laid_out_def clear_of_def)
  moreover have "fs (snd (try_write e p t w)) q = Some FDir" if "q \<in> dirs L" for q
    using assms that try_write_frame [of e p t w q] by (auto simp: laid_out_def)
  moreover have "\<exists>u. fs (snd (try_write e p t w)) q = Some (FFile u)" if "q \<in> texts L" for q
    using assms that try_write_frame [of e p t w q] by (auto simp: laid_out_def)
  moreover have "fs (snd (try_write e p t w)) q \<noteq> None" if "q \<in> present L" for q
    using assms that try_write_frame [of e p t w q] by (auto simp: laid_out_def)
  moreover have "fs (snd (try_write e p t w)) q = Some n" if "fixed L q = Some n" for q n
    using assms that try_write_frame [of e p t w q] by (auto simp: laid_out_def clear_of_def)
  ultimately show ?thesis by (simp add: laid_out_def)
qed

lemma succ_save:
  assumes "clear_of live_state_path L" and "clear_of (path_join (mk_path mp) target_rel) L"
  shows "succeeds (on_target L mp) (save e None)"
proof (rule succeedsI)
  fix sw assume i: "on_target L mp sw"
  obtain s w where sw: "sw = (s, w)" by (cases sw)
  have "laid_out L (fs (snd (snd (save e None (s, w)))))"
    using i assms by (simp add: save_world sw on_target_def target_path_def laid_out_try)
  then show "\<exists>x s'. save e None sw = (Inr x, s') \<and> on_target L mp s'"
    using save_eq [of e None s w] i by (auto simp: sw on_target_def)
qed

lemma succ_upd_state: "(\<And>s. mountpoint (f s) = mountpoint s) \<Longrightarrow> succeeds (on_target L mp) (upd_state f)"
  by (rule succeedsI) (auto simp: upd_state_def on_target_def)

lemma succ_set_config:
  "clear_of live_state_path L \<Longrightarrow> clear_of (path_join (mk_path mp) target_rel) L \<Longrightarrow> succeeds (on_target L mp) (set_config e k v)"
  unfolding set_config_def by (intro succ_rules succ_save succ_upd_state) simp_all

lemma succ_append_log: "succeeds (on_target L mp) (append_log e msg)"
  by (rule succeedsI) (auto simp: append_log_def on_target_def Let_def)

lemma succ_run_step:
  assumes "succeeds (on_target L mp) (st_exec stp e)"
    and "clear_of live_state_path L" and "clear_of (path_join (mk_path mp) target_rel) L" and "on_target L mp sw"
  shows "\<exists>sw'. run_step e stp sw = (Inr True, sw') \<and> on_target L mp sw'"
proof (cases "is_done (fst sw) (st_name stp)")
  case True
  with assms(4) show ?thesis by (cases sw) (simp add: run_step_def)
next
  case False
  have "succeeds (on_target L mp) (seqM [mark_started e (st_name stp), as_step_error (st_exec stp e), mark_done e (st_name stp)])"
    unfolding mark_started_def mark_done_def as_step_error_def
    by (intro succ_rules succ_upd_state succ_append_log succ_save assms) simp_all
  then obtain x sw' where "seqM [mark_started e (st_name stp), as_step_error (st_exec stp e), mark_done e (st_name stp)] sw
      = (Inr x, sw')" "on_target L mp sw'"
    using assms(4) by (rule succeedsE)
  with False show ?thesis by (cases sw) (simp add: run_step_def step_run_def)
qed

text \<open>The last two steps.\<close>

definition handover_ready :: "env \<Rightarrow> layout \<Rightarrow> path \<Rightarrow> path \<Rightarrow> bool" where
  "handover_ready e L mp src \<longleftrightarrow> gentle L e
     \<and> (\<forall>x \<in> set BIND_MOUNTS. set (ancestors (sub_path mp (fst x))) \<subseteq> dirs L)
     \<and> (\<forall>d \<in> set [[''usr'', ''local'', ''bin''], [''var'', ''lib'', ''anaconda-gentoo''], [''etc'', ''systemd'', ''system''],
           [''etc'', ''init.d'']]. set (ancestors (path_div mp d)) \<subseteq> dirs L)
     \<and> (\<forall>p \<in> set [[''usr'', ''local'', ''bin'', ''anaconda-gentoo''], [''etc'', ''systemd'', ''system'', ''anaconda-gentoo-continue.service''],
           [''etc'', ''init.d'', ''anaconda-gentoo-continue'']]. may_file e L (path_div mp p))
     \<and> src \<in> dirs L \<and> replaceable e L (path_div mp [''usr'', ''local'', ''lib'', ''anaconda-gentoo''])
     \<and> clear_of live_state_path L \<and> clear_of (path_join mp target_rel) L"

lemma thenM_assoc: "thenM (thenM m n) k = thenM m (thenM n k)"
  by (rule ext) (simp add: thenM_apply split: prod.splits sum.splits)

lemma succ_seq2: "succeeds I (thenM m n) \<Longrightarrow> succeeds I (seqM ms) \<Longrightarrow> succeeds I (seqM (m # n # ms))"
  by (simp add: succ_then flip: thenM_assoc)

lemma on_world_then: "thenM (on_world m) (on_world n) = on_world (thenM m n)"
  by (rule ext) (auto simp: on_world_def thenM_apply split: prod.splits sum.splits)

lemma succ_write_chmod_sys:
  "may_file e L p \<Longrightarrow> succeeds (on_target L mp) (thenM (on_world (write_text e p t)) (on_world (chmod p mode)))"
  unfolding on_world_then by (rule succ_on_world [OF succ_write_chmod])

lemma succ_replace_sys:
  assumes "replaceable e L q" and "p \<in> dirs L"
  shows "succeeds (on_target L mp)
    (thenM (bindM (existsM q) (\<lambda>old. whenM old (on_world (rm_tree e q)))) (on_world (copy_tree e ig p q)))"
proof (rule succeedsI)
  fix sw assume i: "on_target L mp sw"
  obtain s w where sw: "sw = (s, w)" by (cases sw)
  obtain w' where "(if exists_at w q then thenM (rm_tree e q) (copy_tree e ig p q) else copy_tree e ig p q) w = (Inr (), w')"
    "laid_out L (fs w')"
    using succ_replace_tree [OF assms, of w ig] i by (auto simp: sw on_target_def)
  then show "\<exists>x s'. thenM (bindM (existsM q) (\<lambda>old. whenM old (on_world (rm_tree e q)))) (on_world (copy_tree e ig p q)) sw
      = (Inr x, s') \<and> on_target L mp s'"
    using i by (auto simp: sw existsM_def getM_def bindM_def thenM_def whenM_def ret_def on_world_def on_target_def
        split: if_splits prod.splits sum.splits)
qed

lemma succ_agent_step:
  assumes "handover_ready e L (mk_path mp) src"
  shows "succeeds (on_target L mp) (st_exec (agent_step src) e)"
proof -
  note h = assms [unfolded handover_ready_def, simplified]
  let ?mp = "mk_path mp"
  have target: "succeeds (on_target L mp) (f ?mp) \<Longrightarrow> succeeds (on_target L mp) (bindM target_root f)" for f
    by (auto simp: succeeds_def target_root_def getM_def bindM_def on_target_def)
  have div: "path_div (path_div p x) y = path_div p (x @ y)" for p x y by (simp add: path_div_def)
  have enable: "succeeds (on_target L mp) (enable_agent e ?mp b)" for b
    unfolding enable_agent_def Let_def
    by (intro succ_if succ_seq succ_seq2 succ_write_chmod_sys succ_on_world succ_mkdir succ_write succ_chroot_context succ_chroot_run)
      (use h in \<open>simp_all add: div\<close>)
  show ?thesis
    unfolding agent_step_def step.simps
    by (rule target, unfold Let_def div append_Cons append_Nil,
        rule succ_seq(2) [OF succ_on_world [OF succ_mkdir]], use h in simp,
        rule succ_seq2 [OF succ_write_chmod_sys], use h in simp,
        rule succ_seq2 [OF succ_replace_sys])
      (use h in \<open>auto intro!: succ_rules succ_on_world succ_mkdir succ_reads enable succ_set_config succ_upd_state succ_save\<close>)
qed

lemma succ_unmount_step: "gentle L e \<Longrightarrow> succeeds (on_target L mp) (st_exec unmount_step e)"
  unfolding unmount_step_def step.simps target_root_def by (intro succ_bind succ_ret succ_on_world succ_umount_all)

end
