(* ===== verification/Commands.thy ===== *)
theory Commands
  imports Sessions Pipeline DiskFacts Succeeds
begin

text \<open>
  Properties of the commands as wholes: what option parsing guarantees the steps, resumed and
  repeated runs, the two stages in a row, and the call the installed service makes.
\<close>

subsection \<open>Accepted options\<close>

definition args_ok :: "install_args \<Rightarrow> bool" where
  "args_ok a \<longleftrightarrow> a_root_fs a \<in> set [''ext4'', ''btrfs'', ''xfs'', ''f2fs''] \<and> a_driver_value a \<in> set [''y'', ''m'']"

text \<open>Each option keeps the choices, given a value that passed its own.\<close>

fun keeps_args :: "option_kind \<Rightarrow> bool" where
  "keeps_args (TakesOne cs f) \<longleftrightarrow> (\<forall>v a. (cs = [] \<or> v \<in> set cs) \<longrightarrow> args_ok a \<longrightarrow> args_ok (f v a))"
| "keeps_args (TakesMany f) \<longleftrightarrow> (\<forall>vs a. args_ok a \<longrightarrow> args_ok (f vs a))"
| "keeps_args (Switch f) \<longleftrightarrow> (\<forall>a. args_ok a \<longrightarrow> args_ok (f a))"
| "keeps_args ShowHelp \<longleftrightarrow> True"

lemma install_options_keep: "x \<in> set install_options \<Longrightarrow> keeps_args (snd x)"
  by (auto simp: install_options_def args_ok_def)

lemma abbreviated_option: "(k, v) \<in> set (abbreviated opts t) \<Longrightarrow> \<exists>m. (m, k) \<in> set opts"
  by (auto simp: abbreviated_def split: if_splits prod.splits)

lemma word_class_option:
  assumes "word_class opts t = WOption k v"
  shows "\<exists>m. (m, k) \<in> set opts"
  using assms abbreviated_option [of k v opts t] map_of_SomeD [of opts t k] map_of_SomeD [of opts "fst (cut_equals t)" k]
  by (auto simp: word_class_def split: if_splits option.splits list.splits)

lemma map_sum_Inr: "map_sum id f x = Inr y \<longleftrightarrow> (\<exists>z. x = Inr z \<and> y = f z)"
  by (cases x) auto

lemma check_choice_ok: "check_choice cs x = Inr y \<Longrightarrow> y = x \<and> (cs = [] \<or> x \<in> set cs)"
  by (auto simp: check_choice_def usage_error_def split: if_splits)

lemma parse_words_ok: "parse_words ts a = Inr a' \<Longrightarrow> args_ok a \<Longrightarrow> args_ok a'"
proof (induction ts a rule: parse_words.induct)
  case (2 t ts a)
  show ?case
  proof (cases "word_class install_options t")
    case (WOption k v)
    then obtain m where "(m, k) \<in> set install_options" using word_class_option by blast
    then have keep: "keeps_args k" using install_options_keep by fastforce
    show ?thesis
      using 2 WOption keep by (cases k; cases v)
        (auto simp: bindR_def usage_error_def Let_def split: sum.splits if_splits dest!: check_choice_ok)
  qed (use 2 in \<open>auto simp: bindR_def usage_error_def split: sum.splits\<close>)
qed simp

text \<open>
  C20. An installation that the command line accepts can be carried out as far as its options go:
  its root file system can be made and has a kernel driver, and drivers are built in or modules.
\<close>

theorem accepted_options:
  assumes "parse_args given = Inr (Install a)"
  shows "mkfs_root (JStr (a_root_fs a)) \<noteq> None \<and> dget FS_CONFIG (lower (a_root_fs a)) \<noteq> None
     \<and> level_of (a_driver_value a) \<noteq> Off"
proof -
  have inst: "parse_command ts = Inr (Install a) \<Longrightarrow> \<exists>us. parse_install us = Inr a" for ts
    by (cases ts) (auto simp: usage_error_def bindR_def map_sum_Inr split: word_class.splits option.splits if_splits sum.splits)
  then obtain us where "parse_install us = Inr a"
    using assms by (auto simp only: parse_args_def split: if_splits)
  then have "parse_words us default_args = Inr a" by (auto simp: parse_install_def usage_error_def split: if_splits)
  moreover have "args_ok default_args" by (simp add: args_ok_def default_args_def)
  ultimately have "args_ok a" by (rule parse_words_ok)
  moreover have "\<forall>f \<in> set [''ext4'', ''btrfs'', ''xfs'', ''f2fs'']. mkfs_root (JStr f) \<noteq> None \<and> dget FS_CONFIG (lower f) \<noteq> None"
    by code_simp
  ultimately show ?thesis by (auto simp: args_ok_def)
qed

theorem accepted_options_witness:
  "\<exists>a. parse_args [''install'', ''--root-fs'', ''xfs'', ''--driver-value=y''] = Inr (Install a)
     \<and> mkfs_root (JStr (a_root_fs a)) \<noteq> None"
proof -
  have "case parse_args [''install'', ''--root-fs'', ''xfs'', ''--driver-value=y''] of Inr (Install a) \<Rightarrow> True | _ \<Rightarrow> False"
    by code_simp
  then obtain a where "parse_args [''install'', ''--root-fs'', ''xfs'', ''--driver-value=y''] = Inr (Install a)"
    by (auto split: sum.splits command.splits)
  with accepted_options [OF this] show ?thesis by blast
qed

subsection \<open>Resuming\<close>

lemma install_skips:
  assumes "set (take k stage1_names) \<subseteq> set (completed s)"
  shows "install_from e h a (s, w) = run_all_steps e (drop k (build_stage1_steps h a)) (set_mountpoint a s, w)
     \<and> (21 \<le> k \<longrightarrow> install_from e h a (s, w) = (Inr True, (set_mountpoint a s, w)))"
proof -
  have "set (map st_name (take k (build_stage1_steps h a))) \<subseteq> set (completed (set_mountpoint a s))"
    using assms by (simp add: take_map [symmetric] stage1_step_names del: set_map)
  then have skip: "install_from e h a (s, w) = run_all_steps e (drop k (build_stage1_steps h a)) (set_mountpoint a s, w)"
    by (simp add: install_from_def run_all_skip)
  have "length (build_stage1_steps h a) = 21" using stage1_step_names [of h a] length_stage1 by (metis length_map)
  then show ?thesis using skip by (auto simp: ret_def)
qed

text \<open>
  C21. A run started again goes on with the first step that is missing and does nothing at all for
  those before it; when none is missing it ends at once, with the world as it was. The given mountpoint
  replaces the recorded one in either case.
\<close>

theorem resumed_run:
  assumes "set (take k stage1_names) \<subseteq> set (completed s)"
  shows "install_from e h a (s, w) = run_all_steps e (drop k (build_stage1_steps h a)) (set_mountpoint a s, w)
     \<and> (21 \<le> k \<longrightarrow> install_from e h a (s, w) = (Inr True, (set_mountpoint a s, w)))"
  by (rule install_skips [OF assms])

theorem resumed_run_witness:
  "install_from calm_env bare_host (default_args\<lparr>a_mountpoint := ''/x''\<rparr>) (fresh_state\<lparr>completed := stage1_names\<rparr>, empty_world)
     = (Inr True, (fresh_state\<lparr>completed := stage1_names, mountpoint := ''/x''\<rparr>, empty_world))"
proof -
  let ?s = "fresh_state\<lparr>completed := stage1_names\<rparr>" and ?a = "default_args\<lparr>a_mountpoint := ''/x''\<rparr>"
  have "set (take 21 stage1_names) \<subseteq> set (completed ?s)" by (simp add: set_take_subset)
  from resumed_run [OF this, of calm_env bare_host ?a empty_world]
  have "install_from calm_env bare_host ?a (?s, empty_world) = (Inr True, (set_mountpoint ?a ?s, empty_world))" by blast
  then show ?thesis by (simp add: set_mountpoint_def)
qed

subsection \<open>The service\<close>

lemma contains_behind: "contains t s \<Longrightarrow> contains t (u @ s)"
  by (induction u) auto

lemma starts_with_append: "starts_with t s \<Longrightarrow> starts_with t (s @ v)"
  unfolding starts_with_def by (metis append.assoc append_eq_conv_conj append_take_drop_id)

lemma contains_prefix: "contains t s \<Longrightarrow> contains t (s @ v)"
proof (induction t s rule: contains.induct)
  case (1 p)
  then show ?case by (cases v) (simp_all add: starts_with_def)
next
  case (2 p c cs)
  then show ?case using starts_with_append [of p "c # cs" v] by auto
qed

lemma contains_unlines: "l \<in> set ls \<Longrightarrow> contains t l \<Longrightarrow> contains t (unlines ls)"
  by (induction ls) (auto simp: unlines_simps(2) contains_prefix intro: contains_behind [of t _ "_ @ [_]", simplified])


subsection \<open>Both stages\<close>

lemma run_all_append:
  "run_all_steps e (xs @ ys) = bindM (run_all_steps e xs) (\<lambda>ok. if ok then run_all_steps e ys else ret False)"
proof (induction xs)
  case Nil
  show ?case by (simp add: bindM_def ret_def)
next
  case (Cons x xs)
  show ?case
    by (rule ext) (auto simp: Cons bindM_def ret_def split: prod.splits sum.splits if_splits)
qed

lemma save_same: "save e p (s, w) = (r, (s', w')) \<Longrightarrow> s' = s"
  using save_state_kept [of e p "(s, w)"] by simp

lemma agent_ends_stage:
  assumes "st_exec (agent_step p) e (s, w) = (Inr (), (s', w'))"
  shows "phase s' = ''stage1_complete''"
  using assms unfolding agent_step_def Let_def step.simps seqM.simps
  by (elim bindM_InrE thenM_InrE) (auto simp: upd_state_def ret_def dest!: save_same)

lemma step_ends_stage:
  assumes "''continuation_agent'' \<notin> set (completed s)" and "run_step e (agent_step p) (s, w) = (Inr True, (s', w'))"
  shows "phase s' = ''stage1_complete''"
proof -
  let ?n = "''continuation_agent''"
  have n: "st_name (agent_step p) = ?n" by (simp add: agent_step_def)
  have run: "step_run e (agent_step p) (s, w) = (Inr (), (s', w'))"
    using assms by (auto simp: run_step_def is_done_def n split: prod.splits sum.splits exn.splits)
  obtain s1 w1 where m1: "mark_started e ?n (s, w) = (Inr (), (s1, w1))" by (rule mark_started_out)
  obtain r2 s2 w2 where b: "as_step_error (st_exec (agent_step p) e) (s1, w1) = (r2, (s2, w2))" by (metis prod.exhaust)
  obtain s3 w3 where m3: "mark_done e ?n (s2, w2) = (Inr (), (s3, w3))" "phase s3 = phase s2" by (rule mark_done_out)
  have r2: "r2 = Inr ()" "s' = s3"
    using run assms(1) by (auto simp: step_run_def is_done_def n thenM_apply m1 b m3(1) split: sum.splits)
  then have "st_exec (agent_step p) e (s1, w1) = (Inr (), (s2, w2))"
    using b by (auto simp: as_step_error_def catchM_def raise_def split: prod.splits sum.splits if_splits)
  then show ?thesis using agent_ends_stage r2(2) m3(2) by simp
qed

lemma install_ends_stage:
  assumes "''continuation_agent'' \<notin> set (completed s)" and "install_from e h a (s, w) = (Inr True, (s', w'))"
  shows "phase s' = ''stage1_complete''"
proof -
  let ?steps = "build_stage1_steps h a" and ?s = "set_mountpoint a s"
  have split: "?steps = take 19 ?steps @ [agent_step (h_source h), unmount_step]"
    by (simp add: build_stage1_steps_def)
  have contract: "all_contract e (take 19 ?steps)"
    using stage1_contract [of e h a] set_take_subset [of 19 ?steps] by (auto simp: all_contract_def)
  have "bindM (run_all_steps e (take 19 ?steps))
      (\<lambda>ok. if ok then run_all_steps e [agent_step (h_source h), unmount_step] else ret False) (?s, w) = (Inr True, (s', w'))"
    using assms(2) run_all_append [of e "take 19 ?steps" "[agent_step (h_source h), unmount_step]"] split
    by (simp add: install_from_def)
  then obtain s1 w1 where 1: "run_all_steps e (take 19 ?steps) (?s, w) = (Inr True, (s1, w1))"
    "run_all_steps e [agent_step (h_source h), unmount_step] (s1, w1) = (Inr True, (s', w'))"
    by (auto elim!: bindM_InrE simp: ret_def split: if_splits)
  obtain s2 w2 where 2: "run_step e (agent_step (h_source h)) (s1, w1) = (Inr True, (s2, w2))"
    "run_step e unmount_step (s2, w2) = (Inr True, (s', w'))"
    using 1(2) by (auto elim!: bindM_InrE simp: ret_def split: if_splits)
  have "completed s1 = done_after (completed s) (take 19 stage1_names)"
    using run_all_outcome [OF contract 1(1)] by (simp add: run_outcome_def take_map [symmetric] stage1_step_names)
  moreover have "''continuation_agent'' \<notin> set (take 19 stage1_names)" by code_simp
  ultimately have "''continuation_agent'' \<notin> set (completed s1)"
    using assms(1) by (simp only: set_done_after) simp
  then have "phase s2 = ''stage1_complete''" using step_ends_stage 2(1) by blast
  moreover have "phase s' \<in> phases False (phase s2)"
    using step_success(2) step_contract.run_step_outcome [OF unmount.step_contract_axioms 2(2)]
    by (force simp: unmount_step_def ends_stage_def)
  ultimately show ?thesis by (simp add: phases_def)
qed

lemma save_keeps_dir: "is_dir_at w q \<Longrightarrow> is_dir_at (snd (snd (save e None (s, w)))) q"
  using try_write_frame [of e live_state_path "state_text s" w q]
    try_write_frame [of e "target_path s" "state_text s" "snd (try_write e live_state_path (state_text s) w)" q]
  by (auto simp: save_world is_dir_at_def)


subsection \<open>The end of the first stage\<close>

lemma handover_run:
  assumes "handover_ready e L (mk_path mp) src" and "on_target L mp sw"
  shows "\<exists>sw'. run_all_steps e [agent_step src, unmount_step] sw = (Inr True, sw') \<and> on_target L mp sw'"
proof -
  have clear: "clear_of live_state_path L" "clear_of (path_join (mk_path mp) target_rel) L" "gentle L e"
    using assms(1) by (simp_all add: handover_ready_def)
  obtain sw1 where 1: "run_step e (agent_step src) sw = (Inr True, sw1)" "on_target L mp sw1"
    using succ_run_step [OF succ_agent_step [OF assms(1)] clear(1,2) assms(2)] by blast
  then obtain sw2 where 2: "run_step e unmount_step sw1 = (Inr True, sw2)" "on_target L mp sw2"
    using succ_run_step [OF succ_unmount_step [OF clear(3)] clear(1,2)] by blast
  show ?thesis using 1(1) 2 by (simp add: bindM_def ret_def)
qed

text \<open>
  The last two steps of the first stage succeed whenever they can: with the target laid out, the files to
  be written not directories, the program's own tree present and every command successful, a run that has only these
  steps left reports success.
\<close>

theorem handover_succeeds:
  assumes "handover_ready e L (mk_path (a_mountpoint a)) (h_source h)" and "a_mountpoint a \<noteq> []"
    and "laid_out L (fs w)" and "set (take 19 stage1_names) \<subseteq> set (completed s)"
  shows "\<exists>s' w'. install_from e h a (s, w) = (Inr True, (s', w')) \<and> laid_out L (fs w')"
proof -
  have two: "drop 19 (build_stage1_steps h a) = [agent_step (h_source h), unmount_step]"
    by (simp add: build_stage1_steps_def)
  have "on_target L (a_mountpoint a) (set_mountpoint a s, w)"
    using assms(2,3) by (simp add: on_target_def set_mountpoint_def)
  moreover have "install_from e h a (s, w) = run_all_steps e [agent_step (h_source h), unmount_step] (set_mountpoint a s, w)"
    using install_skips [OF assms(4), of e h a w] two by simp
  ultimately show ?thesis
    using handover_run [OF assms(1)] by (fastforce simp: on_target_def)
qed

text \<open>A layout for the default mountpoint: everything is a directory but the files written and the program's new tree.\<close>

definition bin_file :: path where
  "bin_file = mk_path ''/mnt/gentoo/usr/local/bin/anaconda-gentoo''"

definition lib_tree :: path where
  "lib_tree = mk_path ''/mnt/gentoo/usr/local/lib/anaconda-gentoo''"

definition service_file :: path where
  "service_file = mk_path ''/mnt/gentoo/etc/systemd/system/anaconda-gentoo-continue.service''"

definition script_file :: path where
  "script_file = mk_path ''/mnt/gentoo/etc/init.d/anaconda-gentoo-continue''"

definition dir_path :: "path \<Rightarrow> bool" where
  "dir_path p \<longleftrightarrow> path_name p \<notin> set [''anaconda-gentoo-continue.service'', ''anaconda-gentoo-continue'', ''state.json'']
     \<and> \<not> below bin_file p \<and> \<not> below lib_tree p"

definition sample_layout :: layout where
  "sample_layout = \<lparr>dirs = {p. dir_path p},
     files = {bin_file, service_file, script_file}, free = {lib_tree}, texts = {}, present = {}, fixed = (\<lambda>_. None)\<rparr>"

definition target_world :: world where
  "target_world = empty_world\<lparr>fs := (\<lambda>p. if p \<in> dirs sample_layout then Some FDir else None)\<rparr>"

lemma sample_laid_out: "laid_out sample_layout (fs target_world)"
  by (auto simp: laid_out_def target_world_def sample_layout_def dir_path_def service_file_def script_file_def below_def bin_file_def lib_tree_def path_name_def mk_path_def
      split_on_def starts_with_def)

lemma sample_paths:
  "path_div (mk_path ''/mnt/gentoo'') [''usr'', ''local'', ''bin'', ''anaconda-gentoo''] = bin_file"
  "path_div (mk_path ''/mnt/gentoo'') [''etc'', ''systemd'', ''system'', ''anaconda-gentoo-continue.service''] = service_file"
  "path_div (mk_path ''/mnt/gentoo'') [''etc'', ''init.d'', ''anaconda-gentoo-continue''] = script_file"
  "path_div (mk_path ''/mnt/gentoo'') [''usr'', ''local'', ''lib'', ''anaconda-gentoo''] = lib_tree"
  by code_simp+

lemma sample_dirs:
  "\<forall>x \<in> set BIND_MOUNTS. \<forall>q \<in> set (ancestors (sub_path (mk_path ''/mnt/gentoo'') (fst x))). dir_path q"
  "\<forall>d \<in> set [[''usr'', ''local'', ''bin''], [''var'', ''lib'', ''anaconda-gentoo''], [''etc'', ''systemd'', ''system''],
       [''etc'', ''init.d'']]. \<forall>q \<in> set (ancestors (path_div (mk_path ''/mnt/gentoo'') d)). dir_path q"
  "dir_path (h_source bare_host)" "\<forall>q \<in> set (ancestors (path_parent lib_tree)). dir_path q"
  by code_simp+

lemma sample_file:
  "p \<in> {bin_file, service_file, script_file} \<Longrightarrow> may_file calm_env sample_layout p"
proof -
  have "\<forall>p \<in> set [bin_file, service_file, script_file]. dir_path (path_parent p) \<and> \<not> dir_path p \<and> p \<noteq> lib_tree" by code_simp
  then show "p \<in> {bin_file, service_file, script_file} \<Longrightarrow> may_file calm_env sample_layout p"
    by (auto simp: may_file_def sample_layout_def calm_env_def)
qed

lemma sample_tree: "replaceable calm_env sample_layout lib_tree"
proof -
  have "\<forall>p \<in> set [bin_file, service_file, script_file]. \<not> below lib_tree p \<and> p \<noteq> lib_tree" "pparts lib_tree \<noteq> []" by code_simp+
  moreover have "below lib_tree lib_tree" by (simp add: below_def)
  ultimately show ?thesis
    using sample_dirs(4) by (auto simp: replaceable_def sample_layout_def dir_path_def calm_env_def)
qed

lemma sample_clear: "clear_of live_state_path sample_layout" "clear_of (path_join (mk_path ''/mnt/gentoo'') target_rel) sample_layout"
proof -
  have "\<forall>p \<in> set [bin_file, service_file, script_file]. p \<notin> set (ancestors (path_parent live_state_path))
      \<and> p \<notin> set (ancestors (path_parent (path_join (mk_path ''/mnt/gentoo'') target_rel)))"
    "lib_tree \<noteq> live_state_path" "lib_tree \<noteq> path_join (mk_path ''/mnt/gentoo'') target_rel"
    by code_simp+
  then show "clear_of live_state_path sample_layout" "clear_of (path_join (mk_path ''/mnt/gentoo'') target_rel) sample_layout"
    by (auto simp: clear_of_def sample_layout_def)
qed

lemma sample_ready: "handover_ready calm_env sample_layout (mk_path (a_mountpoint default_args)) (h_source bare_host)"
proof -
  have mp: "a_mountpoint default_args = ''/mnt/gentoo''" by (simp add: default_args_def)
  have "gentle sample_layout calm_env" by (simp add: gentle_def calm_env_def)
  moreover have "(set xs \<subseteq> dirs sample_layout) = (\<forall>q \<in> set xs. dir_path q)" for xs by (auto simp: sample_layout_def)
  moreover have "p \<in> dirs sample_layout \<longleftrightarrow> dir_path p" for p by (simp add: sample_layout_def)
  moreover have "\<forall>p \<in> set [[''usr'', ''local'', ''bin'', ''anaconda-gentoo''], [''etc'', ''systemd'', ''system'', ''anaconda-gentoo-continue.service''],
      [''etc'', ''init.d'', ''anaconda-gentoo-continue'']]. may_file calm_env sample_layout (path_div (mk_path ''/mnt/gentoo'') p)"
    by (simp add: sample_paths sample_file)
  ultimately show ?thesis
    unfolding handover_ready_def mp sample_paths(4) using sample_dirs sample_tree sample_clear by (simp only: simp_thms)
qed

definition almost_done :: installer_state where
  "almost_done = fresh_state\<lparr>completed := take 19 stage1_names\<rparr>"

theorem handover_succeeds_witness:
  "\<exists>s' w'. install_from calm_env bare_host default_args (almost_done, target_world) = (Inr True, (s', w'))
     \<and> laid_out sample_layout (fs w')"
  by (rule handover_succeeds [OF sample_ready _ sample_laid_out]) (simp_all add: default_args_def almost_done_def)


end
