(* ===== verification/SystemFacts.thy ===== *)
theory SystemFacts
  imports SystemSteps KernelSteps Doings
begin

text \<open>
  Properties of the steps that install the base system: what the check of the archive is worth, and
  what the detected hardware contributes to the portage configuration.
\<close>

subsection \<open>The checksum\<close>

definition with_sha :: "(str \<Rightarrow> str) \<Rightarrow> env \<Rightarrow> env" where
  "with_sha h e = e\<lparr>sha512_hex := h\<rparr>"

text \<open>Verification reads only, and every failure of it is an exception that the step catches.\<close>

lemma verify_reads: "\<exists>r. verify_sha512 e p url w = (r, w) \<and> (\<forall>x. r = Inl x \<longrightarrow> is_exception x)"
  by (auto simp: verify_sha512_def urlopen_def bindM_def ret_def raise_def read_text_def Let_def
      split: option.splits node.splits)

lemma verify_ignored: "catchM (verify_sha512 e p url) is_exception (\<lambda>_. ret ()) = (\<lambda>w. (Inr (), w))"
proof
  fix w
  obtain r where r: "verify_sha512 e p url w = (r, w)" "\<forall>x. r = Inl x \<longrightarrow> is_exception x" using verify_reads by blast
  then show "catchM (verify_sha512 e p url) is_exception (\<lambda>_. ret ()) w = (Inr (), w)"
    by (cases r) (simp_all add: catchM_def ret_def)
qed

lemma with_sha_fields [simp]:
  "ext_cmd (with_sha h e) = ext_cmd e" "may_write (with_sha h e) = may_write e" "stamp (with_sha h e) = stamp e"
  "fetch_url (with_sha h e) = fetch_url e"
  by (simp_all add: with_sha_def)

lemma make_dirs_sha: "make_dirs (with_sha h e) ps f = make_dirs e ps f"
  by (induction ps arbitrary: f) (simp_all split: option.split node.split)

lemma world_sha:
  "mkdir_parents (with_sha h e) p = mkdir_parents e p" "write_text (with_sha h e) p t = write_text e p t"
  "urlopen (with_sha h e) u = urlopen e u" "download (with_sha h e) u p = download e u p"
  "fetch_latest_url (with_sha h e) = fetch_latest_url e"
  by (simp_all add: mkdir_parents_def write_text_def urlopen_def download_def fetch_latest_url_def make_dirs_sha cong: if_cong)

lemma state_sha: "save (with_sha h e) p = save e p" "set_config (with_sha h e) k v = set_config e k v"
  by (simp_all add: save_def try_write_def world_sha set_config_def fun_eq_iff)

text \<open>
  C32. The checksum of the archive protects nothing: whatever SHA-512 gives, the download step does
  exactly the same, so an archive that does not match its digest is recorded and used like one that does.
\<close>

theorem checksum_has_no_effect:
  "st_exec (stage3_step url) (with_sha h e) sw = st_exec (stage3_step url) e sw"
proof -
  have "stage3_url (with_sha h e) url = stage3_url e url" unfolding stage3_url_def world_sha ..
  moreover have "stage3_get (with_sha h e) = stage3_get e"
    by (rule ext) (simp add: stage3_get_def verify_ignored world_sha state_sha)
  ultimately show ?thesis by (simp add: stage3_step_def)
qed

subsection \<open>USE flags\<close>

text \<open>The video cards entry: the name of the last display controller of a known vendor.\<close>

definition video_names :: "pci_device list \<Rightarrow> str list" where
  "video_names ps = filter (\<lambda>n. n \<noteq> []) (map (\<lambda>d. dget_default GPU_VENDORS (pci_vendor d) []) (filter (\<lambda>d. pci_base_class d = 3) ps))"

lemma class_flags_none:
  assumes "and (drop_bit 16 c) 0xFF \<noteq> (0 :: int)"
  shows "class_flags c = []"
proof -
  let ?b = "and (drop_bit 16 c) (0xFF :: int)" and ?s = "and (drop_bit 8 c) (0xFF :: int)"
  have "0 \<le> ?b" by simp
  with assms have "1 \<le> ?b" by linarith
  then have "256 \<le> push_bit 8 ?b" unfolding push_bit_eq_mult by simp
  moreover have "push_bit 8 ?b \<le> or (push_bit 8 ?b) ?s" by (rule or_greater_eq) simp
  ultimately have "256 \<le> full_class c" by (simp add: full_class_def)
  moreover have "\<forall>k \<in> set CLASS_USE. drop_bit 8 (fst k) < (256 :: int)" by code_simp
  ultimately show ?thesis by (fastforce simp: class_flags_def)
qed

lemma scan_use_saved:
  assumes "\<forall>d \<in> set ps. pci_base_class d \<noteq> 0"
  shows "scan_use (map pci_json ps) (flags, video) = Inr (flags, last (video # video_names ps))"
  using assms
proof (induction ps arbitrary: video)
  case (Cons d ps)
  have "class_flags (pci_cls d) = []" using Cons.prems by (intro class_flags_none) (simp add: pci_base_class_def)
  with Cons show ?case
    by (simp add: pci_json_def dget_default_def video_of_def gpu_name_def video_names_def pci_base_class_def)
qed (simp add: video_names_def)

text \<open>
  C39. From saved hardware, no device of a class other than 00 adds a USE flag, an audio or network
  controller least of all: the flags are the two fixed ones and acpi, and the video cards entry is the last display
  controller of a known vendor.
\<close>

theorem hardware_adds_no_flag:
  assumes "\<forall>d \<in> set ps. pci_base_class d \<noteq> 0"
  shows "detect_use_flags (hardware_json ps us i ds)
    = Inr ([''unicode'', ''udev''] @ (if has_acpi i then [''acpi''] else []), last (''fbdev vesa'' # video_names ps), ''pc'')"
  using scan_use_saved [OF assms]
  by (simp add: detect_use_flags_def hardware_json_def acpi_json_def dget_default_def jitems_def)

definition sound_and_video :: "pci_device list" where
  "sound_and_video =
     [\<lparr>pci_slot = ''0000:00:1f.3'', pci_vendor = 0x8086, pci_devid = 0xA348, pci_subvendor = 0, pci_subdevice = 0,
        pci_cls = 0x040300, pci_header_type = 0\<rparr>,
      \<lparr>pci_slot = ''0000:01:00.0'', pci_vendor = 0x10DE, pci_devid = 0x1C82, pci_subvendor = 0, pci_subdevice = 0,
        pci_cls = 0x030000, pci_header_type = 0\<rparr>]"

theorem hardware_adds_no_flag_witness:
  "detect_use_flags (hardware_json sound_and_video [] no_acpi []) = Inr ([''unicode'', ''udev''], ''nvidia'', ''pc'')"
proof -
  have "\<forall>d \<in> set sound_and_video. pci_base_class d \<noteq> 0" by code_simp
  from hardware_adds_no_flag [OF this, of "[]" no_acpi "[]"]
  have "detect_use_flags (hardware_json sound_and_video [] no_acpi [])
    = Inr ([''unicode'', ''udev''] @ (if has_acpi no_acpi then [''acpi''] else []), last (''fbdev vesa'' # video_names sound_and_video), ''pc'')" .
  moreover have "last (''fbdev vesa'' # video_names sound_and_video) = ''nvidia''" "\<not> has_acpi no_acpi" by code_simp+
  ultimately show ?thesis by simp
qed

end
