(* ===== verification/Hoare.thy ===== *)
theory Hoare
  imports Doings
begin

text \<open>
  A Hoare logic for computations that may raise: a precondition, a postcondition for the value returned
  and one for the exception raised, both on the state after. It is partial only in that nothing is said of states the
  precondition excludes: every computation of the model ends.
\<close>

definition hoare :: "('s \<Rightarrow> bool) \<Rightarrow> ('s, 'a) act \<Rightarrow> (exn \<Rightarrow> 's \<Rightarrow> bool) \<Rightarrow> ('a \<Rightarrow> 's \<Rightarrow> bool) \<Rightarrow> bool" where
  "hoare P m E Q \<longleftrightarrow> (\<forall>s. P s \<longrightarrow> (case m s of (Inl x, s') \<Rightarrow> E x s' | (Inr v, s') \<Rightarrow> Q v s'))"

lemma hoareI: "(\<And>s. P s \<Longrightarrow> case m s of (Inl x, s') \<Rightarrow> E x s' | (Inr v, s') \<Rightarrow> Q v s') \<Longrightarrow> hoare P m E Q"
  by (simp add: hoare_def)

lemma hoare_Inr: "hoare P m E Q \<Longrightarrow> P s \<Longrightarrow> m s = (Inr v, s') \<Longrightarrow> Q v s'"
  by (auto simp: hoare_def)

lemma hoare_Inl: "hoare P m E Q \<Longrightarrow> P s \<Longrightarrow> m s = (Inl x, s') \<Longrightarrow> E x s'"
  by (auto simp: hoare_def)

lemma hoare_pre: "hoare P m E Q \<Longrightarrow> (\<And>s. P' s \<Longrightarrow> P s) \<Longrightarrow> hoare P' m E Q"
  by (simp add: hoare_def)

lemma hoare_post: "hoare P m E Q \<Longrightarrow> (\<And>v s. Q v s \<Longrightarrow> Q' v s) \<Longrightarrow> hoare P m E Q'"
  by (force simp: hoare_def split: prod.splits sum.splits)

lemma hoare_ret: "(\<And>s. P s \<Longrightarrow> Q v s) \<Longrightarrow> hoare P (ret v) E Q"
  by (simp add: hoare_def ret_def)

lemma hoare_raise: "(\<And>s. P s \<Longrightarrow> E x s) \<Longrightarrow> hoare P (raise x) E Q"
  by (simp add: hoare_def raise_def)

lemma hoare_getM: "(\<And>s. P s \<Longrightarrow> Q (f s) s) \<Longrightarrow> hoare P (getM f) E Q"
  by (simp add: hoare_def getM_def)

lemma hoare_liftR:
  "(\<And>s x. P s \<Longrightarrow> r = Inl x \<Longrightarrow> E x s) \<Longrightarrow> (\<And>s v. P s \<Longrightarrow> r = Inr v \<Longrightarrow> Q v s) \<Longrightarrow> hoare P (liftR r) E Q"
  by (cases r) (simp_all add: hoare_def liftR_def)

lemma hoare_bind:
  assumes "hoare P m E R" and "\<And>v. hoare (R v) (f v) E Q"
  shows "hoare P (bindM m f) E Q"
proof (rule hoareI)
  fix s assume p: "P s"
  obtain r s1 where m: "m s = (r, s1)" by (cases "m s")
  show "case bindM m f s of (Inl x, s') \<Rightarrow> E x s' | (Inr v, s') \<Rightarrow> Q v s'"
  proof (cases r)
    case (Inl x)
    then show ?thesis using hoare_Inl [OF assms(1) p] m by (simp add: bindM_def)
  next
    case (Inr v)
    then have "R v s1" using hoare_Inr [OF assms(1) p] m by simp
    with assms(2) [of v] show ?thesis using m Inr by (simp add: hoare_def bindM_def)
  qed
qed

lemma hoare_then: "hoare P m E (\<lambda>_. R) \<Longrightarrow> hoare R n E Q \<Longrightarrow> hoare P (thenM m n) E Q"
  unfolding thenM_def by (rule hoare_bind)

lemma hoare_seq_Nil: "(\<And>s. P s \<Longrightarrow> Q () s) \<Longrightarrow> hoare P (seqM []) E Q"
  by (simp add: hoare_ret)

lemma hoare_seq_Cons: "hoare P m E (\<lambda>_. R) \<Longrightarrow> hoare R (seqM ms) E Q \<Longrightarrow> hoare P (seqM (m # ms)) E Q"
  by (simp add: hoare_then)

lemma hoare_when: "(b \<Longrightarrow> hoare P m E Q) \<Longrightarrow> (\<And>s. \<not> b \<Longrightarrow> P s \<Longrightarrow> Q () s) \<Longrightarrow> hoare P (whenM b m) E Q"
  by (simp add: whenM_def hoare_ret)

lemma hoare_if: "(b \<Longrightarrow> hoare P m E Q) \<Longrightarrow> (\<not> b \<Longrightarrow> hoare P n E Q) \<Longrightarrow> hoare P (if b then m else n) E Q"
  by simp

lemma hoare_mapM: "(\<And>x. x \<in> set xs \<Longrightarrow> hoare P (f x) E (\<lambda>_. P)) \<Longrightarrow> hoare P (mapM f xs) E (\<lambda>_. P)"
  by (induction xs) (auto intro: hoare_ret hoare_then)

subsection \<open>Which exceptions are raised\<close>

text \<open>A type error is what Python raises when a value does not have the operation or the key that is asked for.\<close>

fun type_error :: "exn \<Rightarrow> bool" where
  "type_error (TypeErr _) = True"
| "type_error (AttributeErr _) = True"
| "type_error (KeyErr _) = True"
| "type_error _ = False"

definition no_type_error :: "('s, 'a) act \<Rightarrow> bool" where
  "no_type_error m \<longleftrightarrow> (\<forall>s x s'. m s = (Inl x, s') \<longrightarrow> \<not> type_error x)"

lemma no_type_errorI: "(\<And>s x s'. m s = (Inl x, s') \<Longrightarrow> \<not> type_error x) \<Longrightarrow> no_type_error m"
  by (simp add: no_type_error_def)

lemma no_type_errorD: "no_type_error m \<Longrightarrow> m s = (Inl x, s') \<Longrightarrow> \<not> type_error x"
  by (auto simp: no_type_error_def)

lemma nte_basic: "no_type_error (ret v)" "no_type_error (getM f)" "\<not> type_error x \<Longrightarrow> no_type_error (raise x)"
  "(\<And>x. r = Inl x \<Longrightarrow> \<not> type_error x) \<Longrightarrow> no_type_error (liftR r)"
  by (auto simp: no_type_error_def ret_def getM_def raise_def liftR_def)

lemma nte_bind:
  assumes "no_type_error m" and "\<And>v. no_type_error (f v)"
  shows "no_type_error (bindM m f)"
proof (rule no_type_errorI)
  fix s x s' assume b: "bindM m f s = (Inl x, s')"
  obtain r s1 where m: "m s = (r, s1)" by (cases "m s")
  show "\<not> type_error x"
    using b m by (cases r) (auto simp: bindM_def dest: no_type_errorD [OF assms(1)] no_type_errorD [OF assms(2)])
qed

lemma nte_then: "no_type_error m \<Longrightarrow> no_type_error n \<Longrightarrow> no_type_error (thenM m n)"
  unfolding thenM_def by (rule nte_bind)

lemma nte_seq: "no_type_error (seqM [])" "no_type_error m \<Longrightarrow> no_type_error (seqM ms) \<Longrightarrow> no_type_error (seqM (m # ms))"
  by (simp_all add: nte_basic nte_then)

lemma nte_mapM: "(\<And>x. x \<in> set xs \<Longrightarrow> no_type_error (f x)) \<Longrightarrow> no_type_error (mapM f xs)"
  by (induction xs) (simp_all add: nte_basic nte_then)

lemma nte_when: "(b \<Longrightarrow> no_type_error m) \<Longrightarrow> no_type_error (whenM b m)"
  by (simp add: whenM_def nte_basic)

lemma nte_splits: "(b \<Longrightarrow> no_type_error m) \<Longrightarrow> (\<not> b \<Longrightarrow> no_type_error n) \<Longrightarrow> no_type_error (if b then m else n)"
  "(\<And>a b. no_type_error (f a b)) \<Longrightarrow> no_type_error (case x of (a, b) \<Rightarrow> f a b)"
  "no_type_error m \<Longrightarrow> (\<And>y. no_type_error (g y)) \<Longrightarrow> no_type_error (case z of None \<Rightarrow> m | Some y \<Rightarrow> g y)"
  by (simp, cases x, simp, cases z, simp_all)

lemma nte_catch:
  assumes "no_type_error m" and "\<And>x. no_type_error (h x)"
  shows "no_type_error (catchM m p h)"
proof (rule no_type_errorI)
  fix s x s' assume c: "catchM m p h s = (Inl x, s')"
  obtain r s1 where m: "m s = (r, s1)" by (cases "m s")
  show "\<not> type_error x"
    using c m by (cases r) (auto simp: catchM_def split: if_splits dest: no_type_errorD [OF assms(1)] no_type_errorD [OF assms(2)])
qed

lemma nte_finally:
  assumes "no_type_error m" and "no_type_error n"
  shows "no_type_error (finallyM m n)"
proof (rule no_type_errorI)
  fix s x s' assume c: "finallyM m n s = (Inl x, s')"
  obtain r s1 where m: "m s = (r, s1)" by (cases "m s")
  obtain r2 s2 where n: "n s1 = (r2, s2)" by (cases "n s1")
  show "\<not> type_error x"
    using c m n by (cases r; cases r2) (auto simp: finallyM_def dest: no_type_errorD [OF assms(1)] no_type_errorD [OF assms(2)])
qed

lemmas nte_rules = nte_basic(1,2) nte_bind nte_then nte_seq nte_mapM nte_when nte_splits nte_catch nte_finally

lemma oserror_no_type_error: "is_oserror x \<Longrightarrow> \<not> type_error x"
  by (cases x) simp_all

text \<open>The operations on the world raise errors of the operating system, failures of commands and interrupts only.\<close>

lemma nte_run_inv: "no_type_error (run_inv e c)"
  by (auto simp: no_type_error_def run_inv_def Let_def split: prod.splits proc.splits)

lemma nte_check_inv: "no_type_error (check_inv e c)"
  unfolding check_inv_def by (intro nte_bind nte_run_inv nte_splits nte_basic) simp

lemma nte_commands: "no_type_error (run_cmd e cmd)" "no_type_error (run_check e cmd)" "no_type_error (run_do e cmd)"
  "no_type_error (run_quiet e cmd)"
  unfolding run_cmd_def run_check_def run_do_def run_quiet_def
  by (intro nte_run_inv nte_check_inv nte_then nte_basic)+

lemma nte_files: "no_type_error (read_text p)" "no_type_error (write_text e p t)" "no_type_error (append_text e p t)"
  "no_type_error (chmod p m)" "no_type_error (symlink_to e p t)" "no_type_error (rm_tree e p)"
  by (auto simp: no_type_error_def read_text_def write_text_def append_text_def chmod_def symlink_to_def rm_tree_def
      split: option.splits node.splits if_splits)

lemma nte_mkdir: "no_type_error (mkdir_parents e p)"
  by (auto simp: no_type_error_def mkdir_parents_def oserror_no_type_error split: prod.splits dest!: make_dirs_error)

lemma nte_copies: "no_type_error (copy_file e p q)" "no_type_error (copy2 e p q)" "no_type_error (copy_tree e ig p q)"
proof -
  show "no_type_error (copy_file e p q)" "no_type_error (copy2 e p q)"
    unfolding copy2_def copy_file_def by (intro nte_rules nte_files)+
  show "no_type_error (copy_tree e ig p q)"
    by (auto simp: no_type_error_def copy_tree_def oserror_no_type_error split: prod.splits sum.splits if_splits dest!: make_dirs_error)
qed

lemma nte_chroot_context: "no_type_error body \<Longrightarrow> no_type_error (chroot_context e mp body)"
  unfolding chroot_context_def mount_pseudofs_def mount_one_def umount_pseudofs_def umount_one_def is_mounted_def Let_def
  by (intro nte_rules nte_commands nte_mkdir nte_files)

lemma nte_chroot_run: "no_type_error (chroot_run e mp cmd extra check)"
  unfolding chroot_run_def by (intro nte_rules nte_run_inv nte_check_inv)

lemma nte_umount_all: "no_type_error (umount_all e mp)"
  unfolding umount_all_def umount_pseudofs_def umount_one_def is_mounted_def Let_def
  by (intro nte_rules nte_commands nte_files)

lemmas nte_world = nte_rules nte_run_inv nte_check_inv nte_commands nte_files nte_mkdir nte_copies nte_chroot_context
  nte_chroot_run nte_umount_all

end
