(* ===== verification/Typing.thy ===== *)
theory Typing
  imports Hoare DiskSteps SystemSteps KernelSteps FinishSteps
begin

text \<open>
  The types of the configuration. The installer keeps what its steps find out in one untyped
  dictionary; here each key gets the type of the values the steps write to it, and each step the keys it leaves behind.
  The steps are checked against that: they write values of the right type, leave their keys behind, and
  read only keys of earlier steps, so that no step fails for a missing key or a value of another type.
\<close>

subsection \<open>Types and keys\<close>

definition make_conf_json :: "str \<Rightarrow> str list \<Rightarrow> str \<Rightarrow> str \<Rightarrow> nat \<Rightarrow> json" where
  "make_conf_json cflags flags video platform jobs = JObj
     [(''cflags'', JStr cflags), (''use'', JList (map JStr flags)), (''video_cards'', JStr video),
      (''grub_platform'', JStr platform), (''jobs'', JInt (int jobs))]"

definition text_keys :: "str list" where
  "text_keys = [''disk'', ''root_fs'', ''boot_dir'', ''stage3_url'', ''stage3_tarball'', ''timezone'', ''locale'',
     ''kernel_src'', ''hostname'', ''init_system'']"

text \<open>A key that no step writes has no values at all.\<close>

definition value_ok :: "str \<Rightarrow> json \<Rightarrow> bool" where
  "value_ok k v \<longleftrightarrow>
     k \<in> set text_keys \<and> (\<exists>t. v = JStr t)
   \<or> k = ''partitions'' \<and> (\<exists>plan. v = partitions_json plan)
   \<or> k = ''hardware'' \<and> (\<exists>ps us i ds. v = hardware_json ps us i ds)
   \<or> k = ''make_conf'' \<and> (\<exists>c fl vd pl n. v = make_conf_json c fl vd pl n)
   \<or> k = ''kernel_config_symbols'' \<and> (\<exists>n. v = JInt n)"

lemma value_okI:
  "k \<in> set text_keys \<Longrightarrow> value_ok k (JStr t)" "value_ok ''partitions'' (partitions_json plan)"
  "value_ok ''hardware'' (hardware_json ps us i ds)" "value_ok ''make_conf'' (make_conf_json c fl vd pl n)"
  "value_ok ''kernel_config_symbols'' (JInt j)"
  unfolding value_ok_def by (rule disjI1, simp, rule disjI2, rule disjI1, blast, rule disjI2, rule disjI2, rule disjI1, blast,
    rule disjI2, rule disjI2, rule disjI2, rule disjI1, blast, rule disjI2, rule disjI2, rule disjI2, rule disjI2, blast)

lemma text_values:
  "value_ok ''disk'' (JStr t)" "value_ok ''root_fs'' (JStr t)" "value_ok ''boot_dir'' (JStr t)" "value_ok ''stage3_url'' (JStr t)"
  "value_ok ''stage3_tarball'' (JStr t)" "value_ok ''timezone'' (JStr t)" "value_ok ''locale'' (JStr t)"
  "value_ok ''kernel_src'' (JStr t)" "value_ok ''hostname'' (JStr t)" "value_ok ''init_system'' (JStr t)"
  by (rule value_okI(1), simp add: text_keys_def)+

lemmas written_values = text_values value_okI(2-5)

lemma value_okE:
  "value_ok k x \<Longrightarrow> k \<in> set text_keys \<Longrightarrow> (\<And>t. x = JStr t \<Longrightarrow> R) \<Longrightarrow> R"
  "value_ok ''partitions'' x \<Longrightarrow> (\<And>plan. x = partitions_json plan \<Longrightarrow> R) \<Longrightarrow> R"
  "value_ok ''hardware'' x \<Longrightarrow> (\<And>ps us i ds. x = hardware_json ps us i ds \<Longrightarrow> R) \<Longrightarrow> R"
  "value_ok ''make_conf'' x \<Longrightarrow> (\<And>c fl vd pl n. x = make_conf_json c fl vd pl n \<Longrightarrow> R) \<Longrightarrow> R"
  by (auto simp: value_ok_def text_keys_def)

definition keys_of :: "str \<Rightarrow> str list" where
  "keys_of n =
     (if n = ''hardware_detect'' then [''hardware'']
      else if n = ''disk_select'' then [''disk'', ''partitions'']
      else if n = ''format'' then [''root_fs'', ''partitions'']
      else if n = ''mount'' then [''boot_dir'']
      else if n = ''stage3_download'' then [''stage3_url'', ''stage3_tarball'']
      else if n = ''makeconf'' then [''make_conf'']
      else if n = ''kernel_config'' then [''kernel_src'', ''kernel_config_symbols'']
      else if n \<in> {''timezone'', ''locale'', ''hostname''} then [n]
      else if n = ''continuation_agent'' then [''init_system'']
      else [])"

abbreviation cfg_keys :: "installer_state \<Rightarrow> str set" where
  "cfg_keys s \<equiv> fst ` set (config s)"

definition well_typed :: "installer_state \<Rightarrow> bool" where
  "well_typed s \<longleftrightarrow> good_state s \<and> (\<forall>(k, v) \<in> set (config s). value_ok k v)
     \<and> (\<forall>n \<in> set (completed s). set (keys_of n) \<subseteq> cfg_keys s)"

text \<open>Every state file written holds a well-typed state.\<close>

definition typed_file :: "event \<Rightarrow> bool" where
  "typed_file ev \<longleftrightarrow> (\<forall>p t. ev = Wrote p t \<longrightarrow> is_state_file p \<longrightarrow> (\<exists>s. t = state_text s \<and> well_typed s))"

definition typed_at :: "str set \<Rightarrow> world \<Rightarrow> sys \<Rightarrow> bool" where
  "typed_at K w0 sw \<longleftrightarrow> well_typed (fst sw) \<and> K \<subseteq> cfg_keys (fst sw) \<and> adds_events typed_file w0 (snd sw)"

text \<open>A failure leaves a typed state; where the flag is set, it is not a type error.\<close>

definition fails :: "bool \<Rightarrow> world \<Rightarrow> exn \<Rightarrow> sys \<Rightarrow> bool" where
  "fails strict w0 x sw \<longleftrightarrow> (strict \<longrightarrow> \<not> type_error x) \<and> typed_at {} w0 sw"

lemma typed_at_mono: "typed_at K w0 sw \<Longrightarrow> K' \<subseteq> K \<Longrightarrow> typed_at K' w0 sw"
  by (auto simp: typed_at_def)

lemma value_ok_json_ok: "value_ok k v \<Longrightarrow> json_ok v"
  by (auto simp: value_ok_def partitions_json_def make_conf_json_def json_ok_hardware)

lemma well_typed_value: "well_typed s \<Longrightarrow> dget (config s) k = Some v \<Longrightarrow> value_ok k v"
  by (auto simp: well_typed_def dest: map_of_SomeD)

lemma well_typed_cong: "config s' = config s \<Longrightarrow> completed s' = completed s \<Longrightarrow> well_typed s' = well_typed s"
  by (simp add: well_typed_def good_state_def)

lemma set_dset: "set (dset k v d) \<subseteq> insert (k, v) (set d)"
  by (induction d) auto

lemma well_typed_set:
  assumes "well_typed s" and "value_ok k v"
  shows "well_typed (s\<lparr>config := dset k v (config s)\<rparr>)"
  using assms good_state_set [OF _ value_ok_json_ok [OF assms(2)], of s k] set_dset [of k v "config s"]
  by (fastforce simp: well_typed_def keys_dset)

lemma typed_save:
  assumes "well_typed s" and "adds_events typed_file w0 w"
  shows "adds_events typed_file w0 (snd (saved e s w))"
proof -
  have "typed_file (Wrote p (state_text s))" for p using assms(1) by (auto simp: typed_file_def)
  then have "adds_events typed_file w (snd (saved e s w))"
    unfolding saved_def snd_conv save_world by (intro adds_events_trans [OF try_write_adds try_write_adds]) auto
  with assms(2) show ?thesis by (rule adds_events_trans)
qed

subsection \<open>Rules\<close>

text \<open>The rules for the parts of a step's body, from a typed state to a typed state.\<close>

lemma t_set_config:
  assumes "value_ok k v"
  shows "hoare (typed_at K w0) (set_config e k v) (fails b w0) (\<lambda>_. typed_at (insert k K) w0)"
proof (rule hoareI)
  fix sw assume t: "typed_at K w0 sw"
  obtain s w where sw: "sw = (s, w)" by (cases sw)
  let ?s = "s\<lparr>config := dset k v (config s)\<rparr>"
  have "well_typed ?s" using t assms by (auto simp: sw typed_at_def intro: well_typed_set)
  with t typed_save [OF this, of w0 w e]
  show "case set_config e k v sw of (Inl x, s') \<Rightarrow> fails b w0 x s' | (Inr u, s') \<Rightarrow> typed_at (insert k K) w0 s'"
    by (auto simp: sw set_config_eq typed_at_def keys_dset)
qed

lemma t_save: "hoare (typed_at K w0) (save e None) (fails b w0) (\<lambda>_. typed_at K w0)"
proof (rule hoareI)
  fix sw assume t: "typed_at K w0 sw"
  obtain s w where sw: "sw = (s, w)" by (cases sw)
  have eq: "save e None (s, w) = (Inr (), saved e s w)" unfolding saved_def by (rule save_eq)
  show "case save e None sw of (Inl x, s') \<Rightarrow> fails b w0 x s' | (Inr u, s') \<Rightarrow> typed_at K w0 s'"
    using t typed_save [of s w0 w e] by (simp add: sw eq typed_at_def)
qed

lemma t_upd_state:
  assumes "\<And>s. config (f s) = config s" and "\<And>s. completed (f s) = completed s"
  shows "hoare (typed_at K w0) (upd_state f) (fails b w0) (\<lambda>_. typed_at K w0)"
proof (rule hoareI)
  fix sw assume t: "typed_at K w0 sw"
  obtain s w where sw: "sw = (s, w)" by (cases sw)
  show "case upd_state f sw of (Inl x, s') \<Rightarrow> fails b w0 x s' | (Inr u, s') \<Rightarrow> typed_at K w0 s'"
    using t well_typed_cong [of "f s" s] assms by (simp add: sw upd_state_def typed_at_def)
qed

lemma t_on_world:
  assumes "b \<Longrightarrow> no_type_error m" and "preserves (adds_events plain_event) m"
  shows "hoare (typed_at K w0) (on_world m) (fails b w0) (\<lambda>_. typed_at K w0)"
proof (rule hoareI)
  fix sw assume t: "typed_at K w0 sw"
  obtain s w where sw: "sw = (s, w)" by (cases sw)
  obtain r w' where m: "m w = (r, w')" by (cases "m w")
  have "adds_events plain_event w w'" using assms(2) m by (metis preserves_def snd_conv)
  then have "adds_events typed_file w w'"
    by (rule adds_events_mono) (simp add: plain_event_def typed_file_def)
  with t have "typed_at K w0 (s, w')" by (auto simp: sw typed_at_def intro: adds_events_trans)
  then show "case on_world m sw of (Inl x, s') \<Rightarrow> fails b w0 x s' | (Inr u, s') \<Rightarrow> typed_at K w0 s'"
    using no_type_errorD [OF assms(1), of w _ w'] m
    by (cases r) (auto simp: sw on_world_def fails_def intro: typed_at_mono)
qed

text \<open>A reading step hands on what it read; of the configuration, the type of what it read.\<close>

lemma t_getM: "(\<And>v. hoare (typed_at K w0) (f v) E Q) \<Longrightarrow> hoare (typed_at K w0) (bindM (getM g) f) E Q"
  by (rule hoare_bind [of _ _ _ "\<lambda>_. typed_at K w0"]) (auto intro: hoare_getM)

lemma t_bind_world:
  assumes "b \<Longrightarrow> no_type_error m" and "preserves (adds_events plain_event) m"
    and "\<And>v. hoare (typed_at K w0) (f v) (fails b w0) Q"
  shows "hoare (typed_at K w0) (bindM (on_world m) f) (fails b w0) Q"
  by (rule hoare_bind [OF t_on_world assms(3)]) (use assms(1,2) in blast)+

lemma t_cfg:
  assumes "\<And>x. value_ok k x \<Longrightarrow> hoare (typed_at K w0) (f x) E Q"
    and "k \<notin> K \<Longrightarrow> hoare (typed_at K w0) (f d) E Q"
  shows "hoare (typed_at K w0) (bindM (cfg k d) f) E Q"
proof (rule hoareI)
  fix sw assume t: "typed_at K w0 sw"
  obtain s w where sw: "sw = (s, w)" by (cases sw)
  have eq: "bindM (cfg k d) f sw = f (get_config s k d) sw"
    by (simp add: sw cfg_def getM_def bindM_def)
  have "hoare (typed_at K w0) (f (get_config s k d)) E Q"
  proof (cases "dget (config s) k")
    case None
    then have "k \<notin> K" using t by (auto simp: sw typed_at_def dict_simps)
    with None assms(2) show ?thesis by (simp add: get_config_def dget_default_def)
  next
    case (Some v)
    then have "value_ok k v" using t well_typed_value by (auto simp: sw typed_at_def)
    with Some assms(1) show ?thesis by (simp add: get_config_def dget_default_def)
  qed
  from this [unfolded hoare_def, rule_format, of sw, OF t]
  show "case bindM (cfg k d) f sw of (Inl x, s') \<Rightarrow> E x s' | (Inr v, s') \<Rightarrow> Q v s'"
    by (simp only: eq)
qed

lemma t_lift:
  assumes "\<And>x. b \<Longrightarrow> r = Inl x \<Longrightarrow> \<not> type_error x" and "\<And>v. r = Inr v \<Longrightarrow> hoare (typed_at K w0) (f v) (fails b w0) Q"
  shows "hoare (typed_at K w0) (bindM (liftR r) f) (fails b w0) Q"
proof (cases r)
  case (Inl x)
  then have "fails b w0 x sw" if "typed_at K w0 sw" for sw
    using assms(1) that by (auto simp: fails_def intro: typed_at_mono)
  with Inl show ?thesis by (auto simp: hoare_def bindM_def liftR_def)
next
  case (Inr v)
  then show ?thesis using assms(2) by (simp add: hoare_def bindM_def liftR_def)
qed

lemma t_fail_step: "hoare (typed_at K w0) (fail_step msg) (fails b w0) Q"
  unfolding fail_step_def by (rule hoare_raise) (auto simp: fails_def intro: typed_at_mono)

lemma t_ret: "K' \<subseteq> K \<Longrightarrow> hoare (typed_at K w0) (ret v) E (\<lambda>_. typed_at K' w0)"
  by (rule hoare_ret) (rule typed_at_mono)

lemma t_end: "hoare (typed_at K w0) m E (\<lambda>_. typed_at K' w0) \<Longrightarrow> K'' \<subseteq> K' \<Longrightarrow> hoare (typed_at K w0) m E (\<lambda>_. typed_at K'' w0)"
  by (rule hoare_post, assumption) (rule typed_at_mono)

lemma t_seq_Nil: "K' \<subseteq> K \<Longrightarrow> hoare (typed_at K w0) (seqM []) E (\<lambda>_. typed_at K' w0)"
  by (simp add: t_ret)

end
