(* ===== verification/StepTypes.thy ===== *)
theory StepTypes
  imports Typing Pipeline
begin

text \<open>
  Every step of the first stage is checked against the types of the configuration, after what the scans and
  the tables it calls can raise. The file system table is the one step that needs a key to be there.
\<close>

subsection \<open>What the scans raise\<close>

text \<open>The results of the scans: no type error is among their exceptions, given ports that fail with errors of the system only.\<close>

definition no_type_exn :: "exn + 'a \<Rightarrow> bool" where
  "no_type_exn r \<longleftrightarrow> (\<forall>x. r = Inl x \<longrightarrow> \<not> type_error x)"

lemma nx_simps [simp]: "no_type_exn (Inr v)" "no_type_exn (Inl x) \<longleftrightarrow> \<not> type_error x"
  by (simp_all add: no_type_exn_def)

lemma nx_map [simp]: "no_type_exn (map_sum id f r) = no_type_exn r"
  by (cases r) simp_all

lemma nx_bind: "no_type_exn r \<Longrightarrow> (\<And>v. r = Inr v \<Longrightarrow> no_type_exn (f v)) \<Longrightarrow> no_type_exn (bindR r f)"
  by (cases r) (simp_all add: bindR_def)

definition ports_ok :: "machine \<Rightarrow> bool" where
  "ports_ok m \<longleftrightarrow> (\<forall>p a x. m_port m = Some p \<longrightarrow> p a = Inl x \<longrightarrow> is_oserror x)"

lemma nx_reads:
  assumes "\<And>a x. p a = Inl x \<Longrightarrow> is_oserror x"
  shows "no_type_exn (read32 p b d f r)" "no_type_exn (read16 p b d f r)" "no_type_exn (read8 p b d f r)"
proof -
  have "no_type_exn (p a)" for a using assms [of a] by (auto simp: no_type_exn_def oserror_no_type_error)
  then show "no_type_exn (read32 p b d f r)" "no_type_exn (read16 p b d f r)" "no_type_exn (read8 p b d f r)"
    by (simp_all add: read32_def read16_def read8_def)
qed

lemma nx_probe:
  assumes "\<And>a x. p a = Inl x \<Longrightarrow> is_oserror x"
  shows "no_type_exn (probe p b d f v)"
  unfolding probe_def by (auto split: prod.splits intro!: nx_bind nx_reads assms)

lemma nx_scan_fns:
  assumes "\<And>a x. p a = Inl x \<Longrightarrow> is_oserror x"
  shows "no_type_exn (scan_fns p b d fns)"
proof (induction fns)
  case (Cons f fns)
  have "no_type_exn (read16 p b d f 0)" by (rule nx_reads) (rule assms)
  moreover have "no_type_exn (probe p b d f v)" for v by (rule nx_probe) (rule assms)
  ultimately show ?case using Cons by (cases "read16 p b d f 0") (auto intro!: nx_bind)
qed simp

lemma nx_scan_devs:
  assumes "\<And>a x. p a = Inl x \<Longrightarrow> is_oserror x"
  shows "no_type_exn (scan_devs p b ds)"
  by (induction ds) (auto intro!: nx_bind nx_scan_fns assms)

lemma nx_scan_pci:
  assumes "ports_ok m"
  shows "no_type_exn (scan_pci (m_port m))"
proof -
  have "no_type_exn (scan_buses p bs)" if "m_port m = Some p" for p bs
    using assms that by (induction bs) (auto simp: ports_ok_def intro!: nx_bind nx_scan_devs)
  then show ?thesis by (auto simp: scan_pci_def split: option.splits intro!: nx_bind)
qed

lemma nx_unpack: "no_type_exn (unpack_le n d i)" "no_type_exn (unpack_be n d i)"
  by (simp_all add: unpack_le_def unpack_be_def)

lemma nx_scan_tables: "no_type_exn (scan_tables m as i)"
proof (induction as arbitrary: i)
  case (Cons a as)
  have "no_type_exn (parse_mcfg m a)" by (auto simp: parse_mcfg_def nx_unpack split: option.splits)
  then have "no_type_exn (scan_table m a i)" by (auto simp: scan_table_def Let_def split: option.splits sum.splits)
  with Cons show ?case by (auto split: sum.splits)
qed simp

lemma nx_scan_acpi: "no_type_exn (scan_acpi m)"
  by (auto simp: scan_acpi_def nx_scan_tables split: option.splits)

lemma nx_fdt_loop: "no_type_exn (fdt_loop sd strs off stack props devs)"
proof (induction sd strs off stack props devs rule: fdt_loop.induct)
  case (1 sd strs off stack props devs)
  have "no_type_exn (read_u32_be d i)" "no_type_exn (find_zero d i)" "no_type_exn (read_string d i)" for d i
    by (simp_all add: read_u32_be_def nx_unpack find_zero_def Let_def read_string_def)
  note r = this [unfolded no_type_exn_def]
  show ?case
    by (subst fdt_loop.simps) (use 1 r in \<open>auto simp: Let_def split: sum.splits\<close>)
qed

lemma nx_parse_fdt: "no_type_exn (parse_fdt d)"
proof -
  have "no_type_exn (read_u32_be d i)" for i by (simp add: read_u32_be_def nx_unpack)
  note r = this [unfolded no_type_exn_def]
  show ?thesis using r by (auto simp: parse_fdt_def nx_fdt_loop split: sum.splits)
qed

lemma nx_scan_dt: "no_type_exn (scan_dt f hint)"
proof -
  have "no_type_exn (first_fdt f ps)" for ps
    using nx_parse_fdt by (induction ps) (auto simp: no_type_exn_def split: option.splits sum.splits)
  then show ?thesis by (simp add: scan_dt_def Let_def)
qed

lemma nx_build_db: "no_type_exn (build_db t db)"
proof -
  have "no_type_exn (scan_roots t ns d)" for ns d
    by (induction ns arbitrary: d) (auto split: option.splits ktree.splits)
  then show ?thesis by (simp add: build_db_def)
qed

lemma nx_kernel_generator: "no_type_exn (kernel_generator symbols acpi v b)"
  by (simp add: kernel_generator_def apply_boot_path_def static_configs_def split: option.splits)

lemma nx_load_kdb: "no_type_exn (load_kdb m src w)"
  by (simp add: load_kdb_def split: option.splits)

lemma nx_wanted:
  assumes "value_ok ''hardware'' hw \<or> hw = JObj []"
  shows "no_type_exn (wanted_symbols idx db kdb hw)"
  using assms
proof
  assume "value_ok ''hardware'' hw"
  then obtain ps us i ds where "hw = hardware_json ps us i ds" by (rule value_okE)
  then show ?thesis using wanted_total [of idx db kdb ps us i ds] by auto
qed (simp add: wanted_symbols_def rebuild_devices_def acpi_symbols_def dget_default_def jitems_def bindR_def)

lemma use_flags_total: "\<exists>r. detect_use_flags (hardware_json ps us i ds) = Inr r"
proof -
  have "\<exists>v. scan_use (map pci_json ps) r = Inr v" for r
    by (induction ps arbitrary: r) (auto simp: pci_json_def dget_default_def video_of_def gpu_name_def)
  then obtain fl vd where "scan_use (map pci_json ps) ([''unicode'', ''udev''], ''fbdev vesa'') = Inr (fl, vd)" by force
  then show ?thesis
    by (simp add: detect_use_flags_def hardware_json_def acpi_json_def dget_default_def jitems_def)
qed

lemma nx_use_flags:
  assumes "value_ok ''hardware'' hw \<or> hw = JObj []"
  shows "no_type_exn (detect_use_flags hw)"
  using assms
proof
  assume "value_ok ''hardware'' hw"
  then obtain ps us i ds where "hw = hardware_json ps us i ds" by (rule value_okE)
  then show ?thesis using use_flags_total [of ps us i ds] by auto
qed (simp add: detect_use_flags_def dget_default_def jitems_def)

subsection \<open>Rules for the bodies\<close>

lemma t_bind:
  "hoare (typed_at K w0) m (fails b w0) (\<lambda>_. typed_at K w0) \<Longrightarrow> (\<And>v. hoare (typed_at K w0) (f v) (fails b w0) Q)
    \<Longrightarrow> hoare (typed_at K w0) (bindM m f) (fails b w0) Q"
  by (rule hoare_bind)

lemma t_when: "(c \<Longrightarrow> hoare (typed_at K w0) m E (\<lambda>_. typed_at K w0)) \<Longrightarrow> hoare (typed_at K w0) (whenM c m) E (\<lambda>_. typed_at K w0)"
  by (rule hoare_when)

lemma t_bind_ret: "hoare P (f v) E Q \<Longrightarrow> hoare P (bindM (ret v) f) E Q"
  by (simp add: bindM_def ret_def)

lemma t_prod: "(\<And>a c. hoare P (f a c) E Q) \<Longrightarrow> hoare P (case x of (a, c) \<Rightarrow> f a c) E Q"
  by (cases x) simp

text \<open>In a sequence, an action that writes a key adds it, and the others keep the keys.\<close>

lemma t_seq_set:
  "value_ok k v \<Longrightarrow> hoare (typed_at (insert k K) w0) (seqM ms) (fails b w0) Q
    \<Longrightarrow> hoare (typed_at K w0) (seqM (set_config e k v # ms)) (fails b w0) Q"
  by (rule hoare_seq_Cons) (rule t_set_config)

lemma t_seq_same:
  assumes "hoare (typed_at K w0) m (fails b w0) (\<lambda>_. typed_at K w0)" and "hoare (typed_at K w0) (seqM ms) (fails b w0) Q"
  shows "hoare (typed_at K w0) (seqM (m # ms)) (fails b w0) Q"
  using assms by (rule hoare_seq_Cons)

lemma t_then_set:
  "value_ok k v \<Longrightarrow> hoare (typed_at (insert k K) w0) m (fails b w0) Q
    \<Longrightarrow> hoare (typed_at K w0) (thenM (set_config e k v) m) (fails b w0) Q"
  by (rule hoare_then) (rule t_set_config)

lemma t_then_same:
  assumes "hoare (typed_at K w0) m (fails b w0) (\<lambda>_. typed_at K w0)" and "hoare (typed_at K w0) n (fails b w0) Q"
  shows "hoare (typed_at K w0) (thenM m n) (fails b w0) Q"
  using assms by (rule hoare_then)

lemmas t_seq = t_seq_set t_seq_same [of _ _ "on_world m" for m] t_seq_same [of _ _ "bindM m f" for m f]
  t_seq_same [of _ _ "whenM c m" for c m] t_seq_Nil
lemmas t_then = t_then_set t_then_same [of _ _ "on_world m" for m] t_then_same [of _ _ "whenM c m" for c m]

lemma t_cfg_text:
  assumes "k \<in> set text_keys" and "\<And>t. hoare (typed_at K w0) (f (JStr t)) E Q"
  shows "hoare (typed_at K w0) (bindM (cfg k (JStr d)) f) E Q"
proof (rule t_cfg)
  fix x assume "value_ok k x"
  then obtain t where "x = JStr t" using assms(1) by (rule value_okE)
  then show "hoare (typed_at K w0) (f x) E Q" using assms(2) by simp
qed (rule assms(2))

lemma t_cfg_none:
  assumes "\<And>x. \<not> value_ok k x" and "hoare (typed_at K w0) (f d) E Q"
  shows "hoare (typed_at K w0) (bindM (cfg k d) f) E Q"
  by (rule t_cfg) (use assms in simp_all)

lemma t_list: "hoare P m E Q \<Longrightarrow> (\<And>y ys. hoare P (f y ys) E Q) \<Longrightarrow> hoare P (case xs of [] \<Rightarrow> m | y # ys \<Rightarrow> f y ys) E Q"
  by (cases xs) simp_all

lemma t_text: "hoare P (f t) E Q \<Longrightarrow> hoare P (bindM (liftR (as_text (JStr t))) f) E Q"
  by (simp add: bindM_def liftR_def)

lemma t_reads:
  "(\<And>v. hoare (typed_at K w0) (f v) E Q) \<Longrightarrow> hoare (typed_at K w0) (bindM (existsM p) f) E Q"
  "(\<And>v. hoare (typed_at K w0) (f v) E Q) \<Longrightarrow> hoare (typed_at K w0) (bindM (is_dirM p) f) E Q"
  "(\<And>v. hoare (typed_at K w0) (g v) E Q) \<Longrightarrow> hoare (typed_at K w0) (bindM target_root g) E Q"
  unfolding existsM_def is_dirM_def target_root_def by (rule t_getM, assumption)+

lemma t_nx:
  "no_type_exn r \<Longrightarrow> (\<And>v. r = Inr v \<Longrightarrow> hoare (typed_at K w0) (f v) (fails b w0) Q)
    \<Longrightarrow> hoare (typed_at K w0) (bindM (liftR r) f) (fails b w0) Q"
  by (rule t_lift) (simp_all add: no_type_exn_def)

lemmas t_struct = t_prod t_text t_reads t_bind_ret hoare_if t_when

subsection \<open>The steps\<close>

locale typed_step = step_contract +
  fixes strict :: bool and needs :: "str set"
  assumes body_typed: "needs \<subseteq> K \<Longrightarrow>
    hoare (typed_at K w0) (st_exec stp e) (fails strict w0) (\<lambda>_. typed_at (K \<union> set (keys_of (st_name stp))) w0)"

lemma hardware_typed:
  assumes "b \<Longrightarrow> ports_ok m"
  shows "hoare (typed_at K w0) (st_exec (hardware_step m) e) (fails b w0) (\<lambda>_. typed_at (insert ''hardware'' K) w0)"
proof -
  have d: "\<not> value_ok ''dtb_path'' x" for x by (simp add: value_ok_def text_keys_def)
  show ?thesis
    unfolding hardware_step_def step.simps
    by (rule t_lift, use nx_scan_pci assms in \<open>simp add: no_type_exn_def\<close>)
      (intro t_struct t_nx nx_scan_acpi t_cfg_none d nx_bind nx_scan_dt t_then written_values t_fail_step t_ret;
        simp add: dtb_hint_def)
qed

text \<open>Without a disk on the command line the output of \<^verbatim>\<open>lsblk\<close> decides, which may be any JSON.\<close>

definition given :: "str option \<Rightarrow> bool" where
  "given x \<longleftrightarrow> x \<noteq> None \<and> x \<noteq> Some []"

lemma plain_layouts:
  "preserves (adds_events plain_event) (create_gpt_layout e plan)" "preserves (adds_events plain_event) (create_mbr_layout e plan)"
  "no_type_error (create_gpt_layout e plan)" "no_type_error (create_mbr_layout e plan)"
  unfolding create_gpt_layout_def create_mbr_layout_def wipe_disk_def
  by (intro event_rules; simp)+ (intro nte_world)+

lemma nx_partition_numbers: "no_type_exn (partition_numbers bl disk)"
  by (simp add: partition_numbers_def split: option.splits)

lemma partition_on_typed:
  "hoare (typed_at K w0) (partition_on e bl bsz ssz u disk) (fails b w0) (\<lambda>_. typed_at (K \<union> {''disk'', ''partitions''}) w0)"
proof -
  have u: "hoare (typed_at K w0) (case u of Some x \<Rightarrow> ret x | None \<Rightarrow> on_world detect_uefi) (fails b w0) (\<lambda>_. typed_at K w0)"
    by (cases u) (auto simp: detect_uefi_def intro!: t_ret t_on_world nte_basic event_rules)
  show ?thesis
    unfolding partition_on_def Let_def
    by (intro t_bind [OF u] t_nx nx_partition_numbers t_seq t_on_world nte_splits plain_layouts pres_if written_values) auto
qed

lemma plain_list_disks: "preserves (adds_events plain_event) (list_disks e bl)"
proof -
  have split: "preserves R (case x of None \<Rightarrow> m | Some y \<Rightarrow> f y)"
    if "preserves R m" "\<And>y. preserves R (f y)" for x :: "'x option" and R :: "world \<Rightarrow> world \<Rightarrow> bool" and m and f :: "'x \<Rightarrow> (world, 'y) act"
    using that by (cases x) simp_all
  show ?thesis unfolding list_disks_def by (intro event_rules split) simp_all
qed

lemma partition_typed:
  assumes "b \<Longrightarrow> given disk"
  shows "hoare (typed_at K w0) (st_exec (partition_step bl disk bsz ssz u) e) (fails b w0)
    (\<lambda>_. typed_at (K \<union> {''disk'', ''partitions''}) w0)"
proof -
  have end_text: "hoare (typed_at K w0) (liftR (as_text v)) (fails b w0) (\<lambda>_. typed_at K w0)" if "b \<Longrightarrow> \<exists>t. v = JStr t" for v
    using that by (cases v) (auto simp: hoare_def liftR_def as_text_def fails_def intro: typed_at_mono)
  have "hoare (typed_at K w0) (choose_disk e bl disk) (fails b w0) (\<lambda>_. typed_at K w0)"
  proof (cases "given disk")
    case True
    then have "choose_disk e bl disk = bindM (ret (JStr (the disk))) (\<lambda>d. liftR (as_text d))"
      by (auto simp: choose_disk_def given_def bindM_def ret_def)
    then show ?thesis by (auto intro!: t_bind_ret end_text)
  next
    case False
    then have b: "\<not> b" using assms by blast
    have search: "hoare (typed_at K w0) (bindM (on_world (list_disks e bl)) (\<lambda>ds. case ds of
        [] \<Rightarrow> fail_step ''No suitable disks found'' | x # _ \<Rightarrow> bindM (liftR (jindex x ''name'')) (\<lambda>n. liftR (as_text n))))
      (fails b w0) (\<lambda>_. typed_at K w0)"
      by (intro t_bind_world [OF _ plain_list_disks] t_list t_fail_step t_lift end_text) (use b in blast)+
    show ?thesis
      using False unfolding choose_disk_def given_def
      by (auto intro!: t_cfg hoare_if end_text search) (use b in simp)+
  qed
  then show ?thesis
    unfolding partition_step_def step.simps by (rule hoare_bind) (rule partition_on_typed)
qed

lemma partition_fields [simp]:
  "truthy (partitions_json plan)" "jget (partitions_json plan) ''uefi'' d = Inr (JBool (plan_uefi plan))"
  "jindex (partitions_json plan) ''boot'' = Inr (JStr (boot_part plan))"
  "jindex (partitions_json plan) ''root'' = Inr (JStr (root_part plan))"
  "jget (partitions_json plan) ''swap'' d = Inr (JStr (swap_part plan))"
  by (simp_all add: partitions_json_def jindex_def dget_default_def)

lemma liftR_Inr [simp]: "bindM (liftR (Inr v)) f = f v"
  by (simp add: bindM_def liftR_def)

lemma run_on_text [simp]: "run_on e cmd (JStr t) = on_world (run_do e (cmd @ [t]))"
  by (simp add: run_on_def)

text \<open>The partitions are either there, as they were written, or the default.\<close>

lemma t_cfg_parts:
  assumes "\<And>plan. hoare (typed_at K w0) (f (partitions_json plan)) E Q"
    and "''partitions'' \<notin> K \<Longrightarrow> hoare (typed_at K w0) (f d) E Q"
  shows "hoare (typed_at K w0) (bindM (cfg ''partitions'' d) f) E Q"
proof (rule t_cfg)
  fix x assume "value_ok ''partitions'' x"
  then obtain plan where "x = partitions_json plan" by (rule value_okE)
  then show "hoare (typed_at K w0) (f x) E Q" using assms(1) by simp
qed (rule assms(2))

lemma plain_run: "preserves (adds_events plain_event) (run_do e cmd)" "preserves (adds_events plain_event) (run_quiet e cmd)"
  by (intro event_rules; simp)+

lemma format_typed:
  "hoare (typed_at K w0) (st_exec (format_step fs0) e) (fails b w0) (\<lambda>_. typed_at (K \<union> {''root_fs'', ''partitions''}) w0)"
proof -
  have "hoare (typed_at K w0) (format_parts e fs0 (partitions_json plan)) (fails b w0)
      (\<lambda>_. typed_at (K \<union> {''root_fs'', ''partitions''}) w0)" for plan
  proof -
    have mkfs: "hoare (typed_at K w0) (case mkfs_root x of None \<Rightarrow> fail_step m | Some cmd \<Rightarrow> run_on e cmd (JStr t))
        (fails b w0) (\<lambda>_. typed_at K w0)" for x m t
      by (cases "mkfs_root x") (auto intro!: t_fail_step t_on_world nte_commands plain_run)
    show ?thesis
      unfolding format_parts_def
      by (simp del: seqM.simps split del: if_split, intro t_cfg_text t_seq t_seq_same [OF mkfs] t_on_world nte_commands plain_run t_when written_values)
        (auto simp: text_keys_def)
  qed
  then show ?thesis
    unfolding format_step_def step.simps by (intro t_cfg_parts) (simp_all add: format_parts_def t_fail_step)
qed

lemma mount_at_typed: "hoare (typed_at K w0) (mount_at e (JStr d) p) (fails b w0) (\<lambda>_. typed_at K w0)"
  unfolding mount_at_def is_mounted_plain_def
  by (intro t_then t_bind_world hoare_if t_text t_ret t_on_world nte_world event_rules) simp_all

lemma mount_typed:
  "hoare (typed_at K w0) (st_exec mount_step e) (fails b w0) (\<lambda>_. typed_at (insert ''boot_dir'' K) w0)"
proof -
  have "hoare (typed_at K w0) (mount_parts e (partitions_json plan)) (fails b w0) (\<lambda>_. typed_at (insert ''boot_dir'' K) w0)" for plan
    unfolding mount_parts_def Let_def
    by (simp del: seqM.simps split del: if_split, intro t_reads t_seq t_seq_same [OF mount_at_typed] t_when t_text t_on_world nte_commands plain_run written_values) simp
  then show ?thesis
    unfolding mount_step_def step.simps by (intro t_cfg_parts) (simp_all add: mount_parts_def t_fail_step)
qed

text \<open>The archive and the portage configuration.\<close>

lemma nte_fetch: "no_type_error (urlopen e u)" "no_type_error (fetch_latest_url e)" "no_type_error (download e u p)"
  "no_type_error (verify_sha512 e p u)"
proof -
  have u: "no_type_error (urlopen e u)" for u
    unfolding urlopen_def by (intro nte_rules nte_basic) simp
  show "no_type_error (urlopen e u)" "no_type_error (fetch_latest_url e)" "no_type_error (download e u p)"
    "no_type_error (verify_sha512 e p u)"
    unfolding fetch_latest_url_def download_def verify_sha512_def Let_def
    by (auto intro!: nte_world nte_basic u split: option.splits)
qed

lemma plain_fetch: "preserves (adds_events plain_event) (fetch_latest_url e)"
  "preserves (adds_events plain_event) (verify_sha512 e p u)"
  unfolding fetch_latest_url_def verify_sha512_def Let_def by (intro event_rules pres_urlopen)+

lemma plain_download: "\<not> is_state_file p \<Longrightarrow> preserves (adds_events plain_event) (download e u p)"
  unfolding download_def by (intro event_rules pres_urlopen) simp

lemma stage3_typed:
  "hoare (typed_at K w0) (st_exec (stage3_step url) e) (fails b w0) (\<lambda>_. typed_at (K \<union> {''stage3_url'', ''stage3_tarball''}) w0)"
proof -
  have tx: "hoare (typed_at K w0) (if truthy (JStr t) then (case JStr t of JStr t \<Rightarrow> ret t | _ \<Rightarrow> raise (AttributeErr ''split''))
      else on_world (fetch_latest_url e)) (fails b w0) (\<lambda>_. typed_at K w0)" for t
    by (auto intro!: t_ret t_on_world nte_fetch plain_fetch)
  have "hoare (typed_at K w0) (stage3_url e url) (fails b w0) (\<lambda>_. typed_at K w0)"
  proof (cases "url \<noteq> None \<and> url \<noteq> Some []")
    case True
    show ?thesis unfolding stage3_url_def if_P [OF True] by (rule t_bind_ret) (rule tx)
  next
    case False
    have none: "hoare (typed_at K w0) (if truthy JNull then (case JNull of JStr t \<Rightarrow> ret t | _ \<Rightarrow> raise (AttributeErr ''split''))
      else on_world (fetch_latest_url e)) (fails b w0) (\<lambda>_. typed_at K w0)"
      by (auto intro!: t_on_world nte_fetch plain_fetch)
    show ?thesis
      unfolding stage3_url_def if_not_P [OF False]
    proof (rule t_cfg)
      fix x assume "value_ok ''stage3_url'' x"
      then obtain t where "x = JStr t" by (rule value_okE) (simp add: text_keys_def)
      then show "hoare (typed_at K w0) (if truthy x then (case x of JStr t \<Rightarrow> ret t | _ \<Rightarrow> raise (AttributeErr ''split''))
        else on_world (fetch_latest_url e)) (fails b w0) (\<lambda>_. typed_at K w0)" using tx [of t] by (simp only: \<open>x = JStr t\<close>)
    qed (rule none)
  qed
  then show ?thesis
    unfolding stage3_step_def step.simps stage3_get_def Let_def
    by (rule t_bind) (auto simp: stage3_file intro!: t_seq t_reads t_when t_on_world nte_world nte_fetch plain_fetch plain_download event_rules written_values simp del: seqM.simps)
qed

lemma extract_typed: "hoare (typed_at K w0) (st_exec extract_step e) (fails b w0) (\<lambda>_. typed_at K w0)"
proof -
  have tx: "hoare (typed_at K w0) (extract_archive e (JStr t)) (fails b w0) (\<lambda>_. typed_at K w0)" for t
    unfolding extract_archive_def
    by (intro hoare_if t_fail_step t_text t_reads t_bind_world nte_world t_prod t_ret event_rules) simp_all
  have none: "hoare (typed_at K w0) (extract_archive e JNull) (fails b w0) (\<lambda>_. typed_at K w0)"
    by (simp add: extract_archive_def t_fail_step)
  show ?thesis
    unfolding extract_step_def step.simps
  proof (rule t_cfg)
    fix x assume "value_ok ''stage3_tarball'' x"
    then obtain t where "x = JStr t" by (rule value_okE) (simp add: text_keys_def)
    then show "hoare (typed_at K w0) (extract_archive e x) (fails b w0) (\<lambda>_. typed_at K w0)" using tx by simp
  qed (rule none)
qed

lemma t_cfg_hardware:
  assumes "\<And>x. value_ok ''hardware'' x \<or> x = JObj [] \<Longrightarrow> hoare (typed_at K w0) (f x) E Q"
  shows "hoare (typed_at K w0) (bindM (cfg ''hardware'' (JObj [])) f) E Q"
  by (rule t_cfg) (simp_all add: assms)

lemma make_conf_typed:
  "hoare (typed_at K w0) (st_exec (make_conf_step march use) e) (fails b w0) (\<lambda>_. typed_at (insert ''make_conf'' K) w0)"
proof -
  have w: "hoare (typed_at K w0) (write_make_conf e c fl vd pl) (fails b w0) (\<lambda>_. typed_at (insert ''make_conf'' K) w0)" for c fl vd pl
  proof -
    show ?thesis
      unfolding write_make_conf_def Let_def 
      by (intro t_reads t_seq t_on_world nte_world event_rules value_okI(4) [unfolded make_conf_json_def]) (auto simp: file_simps)
  qed
  show ?thesis
    unfolding make_conf_step_def step.simps by (intro t_cfg_hardware t_cfg_parts t_nx nx_use_flags t_prod w) simp_all
qed

lemma chroot_init_typed: "hoare (typed_at K w0) (st_exec chroot_init_step e) (fails b w0) (\<lambda>_. typed_at K w0)"
  unfolding chroot_init_step_def step.simps
  by (intro t_reads t_seq t_seq_same [of _ _ "mapM f xs" for f xs] hoare_mapM t_when t_on_world nte_world world_rules)
    (simp_all add: file_simps)

lemma portage_sync_typed: "hoare (typed_at K w0) (st_exec portage_sync_step e) (fails b w0) (\<lambda>_. typed_at K w0)"
  unfolding portage_sync_step_def step.simps by (intro t_reads t_on_world nte_world world_rules) simp_all

lemma timezone_typed: "hoare (typed_at K w0) (st_exec (timezone_step tz0) e) (fails b w0) (\<lambda>_. typed_at (insert ''timezone'' K) w0)"
proof -
  show ?thesis
    unfolding timezone_step_def set_timezone_def step.simps Let_def
    by (intro t_reads t_cfg_text t_text hoare_if t_fail_step t_seq t_on_world nte_world world_rules written_values)
      (auto simp: text_keys_def file_simps)
qed

lemma locale_typed: "hoare (typed_at K w0) (st_exec (locale_step loc0) e) (fails b w0) (\<lambda>_. typed_at (insert ''locale'' K) w0)"
proof -
  have r: "hoare (typed_at K w0) (raise IndexErr) (fails b w0) Q" for Q
    by (rule hoare_raise) (auto simp: fails_def intro: typed_at_mono)
  show ?thesis
    unfolding locale_step_def set_locale_def step.simps Let_def
    by (intro t_reads t_cfg_text t_text t_bind_world t_then t_when t_list r t_seq t_on_world nte_world world_rules written_values)
      (auto simp: text_keys_def file_simps)
qed

text \<open>The kernel. A cache of the source index may hold any JSON.\<close>

lemma kernel_dir_typed: "hoare (typed_at K w0) (kernel_dir src) (fails b w0) (\<lambda>_. typed_at K w0)"
proof -
  have e: "hoare (typed_at K w0) (liftR (map_sum id mk_path (as_text (JStr t)))) (fails b w0) (\<lambda>_. typed_at K w0)" for t
    by (simp add: hoare_def liftR_def)
  show ?thesis
  proof (cases "src \<noteq> None \<and> src \<noteq> Some []")
    case True
    show ?thesis unfolding kernel_dir_def if_P [OF True] by (rule t_bind_ret) (rule e)
  next
    case False
    show ?thesis
      unfolding kernel_dir_def if_not_P [OF False] by (rule t_cfg_text) (simp_all add: text_keys_def hoare_def liftR_def)
  qed
qed

lemma t_getM_nx:
  assumes "\<And>s w. well_typed s \<Longrightarrow> no_type_exn (g (s, w))"
    and "\<And>r. no_type_exn r \<Longrightarrow> hoare (typed_at K w0) (f r) (fails b w0) Q"
  shows "hoare (typed_at K w0) (bindM (getM g) f) (fails b w0) Q"
  by (rule hoare_bind [of _ _ _ "\<lambda>r sw. typed_at K w0 sw \<and> no_type_exn r"])
    (use assms in \<open>auto simp: hoare_def getM_def typed_at_def\<close>)

lemma typed_text: "well_typed s \<Longrightarrow> k \<in> set text_keys \<Longrightarrow> \<exists>t. get_config s k (JStr d) = JStr t"
  by (auto simp: get_config_def dget_default_def split: option.split dest!: well_typed_value elim: value_okE(1))

lemma typed_parts:
  "well_typed s \<Longrightarrow> get_config s ''partitions'' d = d \<or> (\<exists>plan. get_config s ''partitions'' d = partitions_json plan)"
  by (auto simp: get_config_def dget_default_def split: option.split dest!: well_typed_value elim: value_okE(2))

lemma nx_boot_path:
  assumes "well_typed s"
  shows "no_type_exn (boot_path_of s)"
proof -
  obtain d f where d: "get_config s ''disk'' (JStr []) = JStr d" and f: "get_config s ''root_fs'' (JStr ''ext4'') = JStr f"
    using typed_text [OF assms, of "''disk''" "[]"] typed_text [OF assms, of "''root_fs''" "''ext4''"] by (auto simp: text_keys_def)
  have "\<exists>t. jget (get_config s ''partitions'' (JObj [])) ''root'' (JStr []) = Inr (JStr t)"
    using typed_parts [OF assms, of "JObj []"] by (auto simp: dget_default_def partitions_json_def)
  then show ?thesis by (auto simp: boot_path_of_def Let_def d f bindR_def)
qed

lemma nte_build_index: "no_type_error (build_source_index e tree None)"
  by (simp add: build_source_index_def nte_basic)

lemma nte_save_config: "no_type_error (save_config e p meta g)"
  using nte_files(2) by (auto simp: no_type_error_def save_config_def)

lemma nte_make: "no_type_error (thenM (check_inv e c) (ret ()))"
  by (intro nte_world)

lemma plain_make: "preserves (adds_events plain_event) (thenM (check_inv e c) (ret ()))"
  by (intro world_rules) simp

lemma configure_typed:
  assumes "b \<Longrightarrow> cache = None" and "\<And>p. cache = Some p \<Longrightarrow> \<not> is_state_file p"
  shows "hoare (typed_at K w0) (configure_kernel m e cache v src) (fails b w0)
    (\<lambda>_. typed_at (K \<union> {''kernel_src'', ''kernel_config_symbols''}) w0)"
proof -
  have i: "b \<Longrightarrow> no_type_error (build_source_index e tree cache)"
    "preserves (adds_events plain_event) (build_source_index e tree cache)" for tree
    using assms nte_build_index by (auto intro: pres_build_index)
  have s: "preserves (adds_events plain_event) (save_config e (path_div src [''.config'']) meta g)" for meta g
    by (rule pres_save_config) (simp add: file_simps)
  show ?thesis
    unfolding configure_kernel_def
    by (intro t_getM_nx t_getM t_bind_world i t_nx nx_build_db t_cfg_hardware nx_bind nx_wanted t_prod t_seq t_on_world
        nte_save_config s nte_make plain_make written_values)
      (auto simp: nx_load_kdb nx_kernel_generator intro: nx_bind nx_boot_path)
qed

lemma kernel_config_typed:
  assumes "b \<Longrightarrow> \<not> given cache_dir"
  shows "hoare (typed_at K w0) (st_exec (kernel_config_step m src cache_dir v) e) (fails b w0)
    (\<lambda>_. typed_at (K \<union> {''kernel_src'', ''kernel_config_symbols''}) w0)"
  unfolding kernel_config_step_def step.simps
  by (intro t_bind [OF kernel_dir_typed] t_reads hoare_if t_fail_step configure_typed)
    (use assms in \<open>auto simp: given_def file_simps split: if_splits\<close>)

lemma kernel_compile_typed: "hoare (typed_at K w0) (st_exec kernel_compile_step e) (fails b w0) (\<lambda>_. typed_at K w0)"
  unfolding kernel_compile_step_def step.simps
  by (intro t_bind [OF kernel_dir_typed] t_reads hoare_if t_fail_step t_bind_world nte_world world_rules t_prod t_ret) simp_all

lemma kernel_install_typed: "hoare (typed_at K w0) (st_exec kernel_install_step e) (fails b w0) (\<lambda>_. typed_at K w0)"
  unfolding kernel_install_step_def step.simps
  by (intro t_bind [OF kernel_dir_typed] t_reads t_then t_cfg_text; simp del: seqM.simps)
    (auto simp: text_keys_def simp del: seqM.simps intro!: t_seq t_on_world nte_make plain_make nte_world world_rules)

text \<open>The file system table is the step that needs the partitions.\<close>

lemma nte_uuid: "no_type_error (uuid_of e d)"
  unfolding uuid_of_def by (intro nte_world)

lemma plain_uuid: "preserves (adds_events plain_event) (uuid_of e d)"
  unfolding uuid_of_def by (intro event_rules plain_event_simps)

lemma device_typed: "hoare (typed_at K w0) (device_uuid e (JStr d)) (fails b w0) (\<lambda>_. typed_at K w0)"
  unfolding device_uuid_def by (intro t_text t_on_world nte_uuid plain_uuid)

lemma t_raised:
  assumes "b \<Longrightarrow> \<not> type_error x"
  shows "hoare (typed_at K w0) (bindM (bindM (liftR (Inl x)) f) g) (fails b w0) Q"
  using assms by (auto simp: hoare_def bindM_def liftR_def fails_def intro: typed_at_mono)

lemma fstab_typed:
  assumes "b \<Longrightarrow> ''partitions'' \<in> K"
  shows "hoare (typed_at K w0) (st_exec fstab_step e) (fails b w0) (\<lambda>_. typed_at K w0)"
proof -
  have swap: "hoare (typed_at K w0) (if truthy (JStr x) then bindM (device_uuid e (JStr x)) (\<lambda>u. ret (Some u)) else ret None)
      (fails b w0) (\<lambda>_. typed_at K w0)" for x
    by (intro hoare_if t_bind [OF device_typed] t_ret) simp_all
  show ?thesis
    unfolding fstab_step_def step.simps
  proof (rule t_cfg_parts, goal_cases)
    case (1 plan)
    show ?case
      by (intro t_reads t_cfg_text; simp add: text_keys_def del: truthy.simps split del: if_split)
        (intro t_bind device_typed swap t_on_world nte_world world_rules, simp add: file_simps)
  next
    case 2
    then have "\<not> b" using assms by blast
    then show ?case
      by (intro t_reads t_cfg_text; simp add: text_keys_def dget_default_def jindex_def split del: if_split)
        (intro t_raised, simp)
  qed
qed

text \<open>The boot loader and the last steps.\<close>

lemma nte_install_grub: "no_type_error (install_grub e mp (JStr disk) uefi platform)"
  unfolding install_grub_def by (intro nte_world nte_basic) simp

lemma plain_install_grub: "preserves (adds_events plain_event) (install_grub e mp disk uefi platform)"
  unfolding install_grub_def by (intro world_rules) simp_all

lemma t_platform:
  assumes "\<And>v. hoare (typed_at K w0) (f v) (fails b w0) Q"
  shows "hoare (typed_at K w0) (bindM (cfg ''make_conf'' (JObj [])) (\<lambda>conf. bindM (liftR (jget conf ''grub_platform'' d)) f)) (fails b w0) Q"
proof (rule t_cfg)
  fix x assume "value_ok ''make_conf'' x"
  then show "hoare (typed_at K w0) (bindM (liftR (jget x ''grub_platform'' d)) f) (fails b w0) Q"
    by (rule value_okE) (simp add: make_conf_json_def assms)
qed (simp add: assms)

lemma bootloader_typed: "hoare (typed_at K w0) (st_exec bootloader_step e) (fails b w0) (\<lambda>_. typed_at K w0)"
proof -
  have main: "hoare (typed_at K w0) (if \<not> truthy (JStr d) then fail_step ''Disk not set in state''
      else seqM [on_world (mkdir_parents e (path_div mp [''etc'', ''default''])),
            on_world (write_text e (path_div mp [''etc'', ''default'', ''grub'']) GRUB_CFG_HEADER),
            on_world (chroot_context e mp (install_grub e mp (JStr d) u platform))])
      (fails b w0) (\<lambda>_. typed_at K w0)" for d mp u platform
    by (intro hoare_if t_fail_step t_seq t_on_world nte_world nte_install_grub world_rules plain_install_grub)
      (simp_all add: file_simps)
  show ?thesis
    unfolding bootloader_step_def step.simps
    by (intro t_cfg_parts t_reads t_cfg_text t_nx t_platform main) (simp_all add: text_keys_def)
qed

lemma hostname_typed: "hoare (typed_at K w0) (st_exec (hostname_step name0) e) (fails b w0) (\<lambda>_. typed_at (insert ''hostname'' K) w0)"
  unfolding hostname_step_def set_hostname_def step.simps Let_def
  by (intro t_reads t_cfg_text t_text t_then t_bind_world t_seq t_when t_on_world nte_world world_rules written_values)
    (auto simp: text_keys_def file_simps)

text \<open>No step writes the keys of the password and of the network: these are the defaults.\<close>

lemma unwritten:
  "\<not> value_ok ''root_password_hash'' x" "\<not> value_ok ''network_iface'' x" "\<not> value_ok ''network_dhcp'' x"
  "\<not> value_ok ''network_ip'' x" "\<not> value_ok ''network_gateway'' x"
  by (simp_all add: value_ok_def text_keys_def)

lemma root_password_typed: "hoare (typed_at K w0) (st_exec (root_password_step None) e) (fails b w0) (\<lambda>_. typed_at K w0)"
  unfolding root_password_step_def step.simps
  by (intro t_reads; simp, intro t_cfg_none unwritten) (simp add: whenM_def t_ret)

lemma network_typed: "hoare (typed_at K w0) (st_exec (network_step iface0 dhcp0) e) (fails b w0) (\<lambda>_. typed_at K w0)"
proof -
  have static: "hoare (typed_at K w0) (if truthy (JBool dhcp0) then ret None
               else bindM (cfg ''network_ip'' (JStr ip0)) (\<lambda>ip. bindM (cfg ''network_gateway'' (JStr gw0)) (\<lambda>gw. ret (Some (fmt ip, fmt gw)))))
      (fails b w0) (\<lambda>_. typed_at K w0)" for ip0 gw0
    by (intro hoare_if t_cfg_none unwritten t_ret subset_refl)
  show ?thesis
    unfolding network_step_def step.simps Let_def
    by (intro t_reads t_cfg_none unwritten t_bind [OF static] t_then t_seq t_when t_on_world nte_world world_rules)
      (simp_all add: file_simps)
qed

lemma enable_agent_typed: "hoare (typed_at K w0) (enable_agent e mp sd) (fails b w0) (\<lambda>_. typed_at K w0)"
  unfolding enable_agent_def Let_def
  by (intro hoare_if t_seq t_on_world nte_world world_rules) (simp_all add: file_simps)

lemma agent_typed: "hoare (typed_at K w0) (st_exec (agent_step src) e) (fails b w0) (\<lambda>_. typed_at (insert ''init_system'' K) w0)"
proof -
  have init: "hoare (typed_at K w0) (bindM (existsM p) (\<lambda>a. bindM (existsM q) (\<lambda>c.
      thenM (enable_agent e mp (a \<or> c)) (set_config e ''init_system'' (JStr (if a \<or> c then ''systemd'' else ''openrc''))))))
      (fails b w0) (\<lambda>_. typed_at (insert ''init_system'' K) w0)" for p q mp
    by (intro t_reads t_then_same [OF enable_agent_typed] t_set_config written_values)
  have last: "hoare (typed_at K' w0) (seqM [upd_state (\<lambda>s. s\<lparr>phase := ''stage1_complete''\<rparr>), save e None])
      (fails b w0) (\<lambda>_. typed_at K' w0)" for K'
    by (intro t_seq_same t_upd_state t_save t_seq_Nil) simp_all
  show ?thesis
    unfolding agent_step_def step.simps Let_def
    by (intro t_reads t_seq hoare_seq_Cons [OF init last] t_when t_on_world nte_world world_rules) (simp_all add: file_simps)
qed

lemma unmount_typed: "hoare (typed_at K w0) (st_exec unmount_step e) (fails b w0) (\<lambda>_. typed_at K w0)"
  unfolding unmount_step_def step.simps by (intro t_reads t_on_world nte_world world_rules) simp

end
