(* ===== verification/TypedRuns.thy ===== *)
theory TypedRuns
  imports StepTypes Sessions
begin

text \<open>
  The types of the configuration through whole runs: every step keeps them and leaves its keys, so does the
  agent, and so they hold in every reachable state; and a step that comes when the earlier ones are done never meets a
  missing key or a value of another type.
\<close>

subsection \<open>The runner\<close>

text \<open>The keys that have to be there, by step.\<close>

definition needs_of :: "str \<Rightarrow> str list" where
  "needs_of n = (if n = ''fstab'' then [''partitions''] else [])"

lemma mark_started_typed: "hoare (typed_at K w0) (mark_started e n) (fails b w0) (\<lambda>_. typed_at K w0)"
proof (rule hoareI)
  fix sw assume t: "typed_at K w0 sw"
  obtain s w where sw: "sw = (s, w)" by (cases sw)
  let ?s1 = "logged e (''START '' @ n) (s\<lparr>current := Some n, failed := None\<rparr>) w"
  have "well_typed ?s1" using t well_typed_cong [of ?s1 s] by (simp add: sw typed_at_def)
  with t typed_save [OF this, of w0 "tick w" e]
  show "case mark_started e n sw of (Inl x, s') \<Rightarrow> fails b w0 x s' | (Inr u, s') \<Rightarrow> typed_at K w0 s'"
    by (simp add: sw mark_started_eq typed_at_def adds_events_def)
qed

lemma mark_done_typed:
  assumes "set (keys_of n) \<subseteq> K"
  shows "hoare (typed_at K w0) (mark_done e n) (fails b w0) (\<lambda>_. typed_at K w0)"
proof (rule hoareI)
  fix sw assume t: "typed_at K w0 sw"
  obtain s w where sw: "sw = (s, w)" by (cases sw)
  let ?s1 = "logged e (''DONE  '' @ n) (s\<lparr>completed := (if n \<notin> set (completed s) then completed s @ [n] else completed s),
    current := None\<rparr>) w"
  have "well_typed ?s1" using t assms by (auto simp: sw typed_at_def well_typed_def good_state_def)
  with t typed_save [OF this, of w0 "tick w" e]
  show "case mark_done e n sw of (Inl x, s') \<Rightarrow> fails b w0 x s' | (Inr u, s') \<Rightarrow> typed_at K w0 s'"
    by (simp add: sw mark_done_eq typed_at_def adds_events_def)
qed

lemma mark_failed_typed: "hoare (typed_at K w0) (mark_failed e n reason) (fails b w0) (\<lambda>_. typed_at K w0)"
proof (rule hoareI)
  fix sw assume t: "typed_at K w0 sw"
  obtain s w where sw: "sw = (s, w)" by (cases sw)
  let ?s1 = "logged e (''FAIL  '' @ n @ '': '' @ reason) (s\<lparr>failed := Some n, current := None\<rparr>) w"
  have "well_typed ?s1" using t well_typed_cong [of ?s1 s] by (simp add: sw typed_at_def)
  with t typed_save [OF this, of w0 "tick w" e]
  show "case mark_failed e n reason sw of (Inl x, s') \<Rightarrow> fails b w0 x s' | (Inr u, s') \<Rightarrow> typed_at K w0 s'"
    by (simp add: sw mark_failed_eq typed_at_def adds_events_def)
qed

lemma as_step_error_typed:
  assumes "hoare P m (fails b w0) Q"
  shows "hoare P (as_step_error m) (fails True w0) Q"
proof (rule hoareI)
  fix s assume p: "P s"
  obtain r s' where m: "m s = (r, s')" by (cases "m s")
  show "case as_step_error m s of (Inl x, s') \<Rightarrow> fails True w0 x s' | (Inr v, s') \<Rightarrow> Q v s'"
  proof (cases r)
    case (Inl x)
    then have "fails b w0 x s'" using hoare_Inl [OF assms p] m by simp
    with m Inl show ?thesis
      by (cases x) (simp_all add: as_step_error_def catchM_def raise_def fails_def)
  next
    case (Inr v)
    then show ?thesis using hoare_Inr [OF assms p] m by (simp add: as_step_error_def catchM_def)
  qed
qed

locale typed_step = step_contract +
  fixes strict :: bool
  assumes body_typed: "(strict \<Longrightarrow> set (needs_of (st_name stp)) \<subseteq> K) \<Longrightarrow>
    hoare (typed_at K w0) (st_exec stp e) (fails strict w0) (\<lambda>_. typed_at (K \<union> set (keys_of (st_name stp))) w0)"
begin

lemma step_run_typed:
  assumes "\<not> strict"
  shows "hoare (typed_at {} w0) (step_run e stp) (fails True w0) (\<lambda>_. typed_at {} w0)"
proof (rule hoareI)
  fix sw assume t: "typed_at {} w0 sw"
  obtain s w where sw: "sw = (s, w)" by (cases sw)
  let ?K = "{} \<union> set (keys_of (st_name stp))"
  have "hoare (typed_at {} w0) (seqM [mark_started e (st_name stp), as_step_error (st_exec stp e), mark_done e (st_name stp)])
      (fails True w0) (\<lambda>_. typed_at {} w0)"
    by (rule hoare_seq_Cons [OF mark_started_typed], rule hoare_seq_Cons [OF as_step_error_typed [OF body_typed]],
      use assms in simp, rule hoare_seq_Cons [OF mark_done_typed], simp, rule t_seq_Nil, simp)
  from this [unfolded hoare_def, rule_format, of sw, OF t]
  show "case step_run e stp sw of (Inl x, s') \<Rightarrow> fails True w0 x s' | (Inr u, s') \<Rightarrow> typed_at {} w0 s'"
    using t by (simp add: sw step_run_def)
qed

lemma run_step_typed:
  assumes "\<not> strict"
  shows "hoare (typed_at {} w0) (run_step e stp) (fails True w0) (\<lambda>_. typed_at {} w0)"
proof (rule hoareI)
  fix sw assume t: "typed_at {} w0 sw"
  obtain s w where sw: "sw = (s, w)" by (cases sw)
  obtain r s1 w1 where r: "step_run e stp (s, w) = (r, (s1, w1))" by (metis prod.exhaust)
  have out: "typed_at {} w0 (s1, w1)" "r = Inl x \<Longrightarrow> \<not> type_error x" for x
    using step_run_typed [OF assms, unfolded hoare_def, rule_format, OF t [unfolded sw]] r
    by (auto simp: fails_def split: sum.splits)
  have save: "hoare (typed_at {} w0) (save e None) (fails True w0) (\<lambda>_. typed_at {} w0)" by (rule t_save)
  obtain w2 where sv: "save e None (s1, w1) = (Inr (), (s1, w2))" using save_eq by blast
  have "typed_at {} w0 (s1, w2)" by (rule hoare_Inr [OF save out(1) sv])
  then show "case run_step e stp sw of (Inl x, s') \<Rightarrow> fails True w0 x s' | (Inr u, s') \<Rightarrow> typed_at {} w0 s'"
    using t out r sv by (auto simp: sw run_step_def fails_def split: sum.splits exn.splits)
qed

end

lemma keys_simps [simp]:
  "set (keys_of ''hardware_detect'') = {''hardware''}" "set (keys_of ''disk_select'') = {''disk'', ''partitions''}"
  "set (keys_of ''format'') = {''root_fs'', ''partitions''}" "set (keys_of ''mount'') = {''boot_dir''}"
  "set (keys_of ''stage3_download'') = {''stage3_url'', ''stage3_tarball''}" "set (keys_of ''makeconf'') = {''make_conf''}"
  "set (keys_of ''kernel_config'') = {''kernel_src'', ''kernel_config_symbols''}" "set (keys_of ''timezone'') = {''timezone''}"
  "set (keys_of ''locale'') = {''locale''}" "set (keys_of ''hostname'') = {''hostname''}"
  "set (keys_of ''continuation_agent'') = {''init_system''}"
  by (simp_all add: keys_of_def)

lemma keyless:
  "n \<in> {''stage3_extract'', ''chroot_init'', ''portage_sync'', ''kernel_compile'', ''kernel_install'', ''fstab'',
     ''root_password'', ''network'', ''bootloader'', ''unmount''} \<union> set STAGE3_STEPS \<Longrightarrow> keys_of n = []"
  unfolding STAGE3_STEPS_def by (simp add: keys_of_def, elim disjE; simp)

lemma typed_stepI:
  assumes "step_contract e stp" and "st_name stp = n"
    and "\<And>K w0. (b \<Longrightarrow> set (needs_of n) \<subseteq> K) \<Longrightarrow>
      hoare (typed_at K w0) (st_exec stp e) (fails b w0) (\<lambda>_. typed_at (K \<union> set (keys_of n)) w0)"
  shows "typed_step e stp b"
  using assms by (simp add: typed_step_def typed_step_axioms_def)

text \<open>The steps keep the types; those with a condition do so in any case, and without a type error under the condition.\<close>

lemma hardware_step_typed: "(b \<Longrightarrow> ports_ok m) \<Longrightarrow> typed_step e (hardware_step m) b"
  by (rule typed_stepI [OF hardware.step_contract_axioms], simp add: hardware_step_def) (simp add: hardware_typed)

lemma partition_step_typed: "(b \<Longrightarrow> given disk) \<Longrightarrow> typed_step e (partition_step bl disk bsz ssz u) b"
  by (rule typed_stepI [OF partition.step_contract_axioms], simp add: partition_step_def) (simp add: partition_typed [simplified])

lemma format_step_typed: "typed_step e (format_step fs0) b"
  by (rule typed_stepI [OF format.step_contract_axioms], simp add: format_step_def) (simp add: format_typed [simplified])

lemma mount_step_typed: "typed_step e mount_step b"
  by (rule typed_stepI [OF mount.step_contract_axioms], simp add: mount_step_def) (simp add: mount_typed)

lemma stage3_step_typed: "typed_step e (stage3_step url) b"
  by (rule typed_stepI [OF stage3.step_contract_axioms], simp add: stage3_step_def) (simp add: stage3_typed [simplified])

lemma extract_step_typed: "typed_step e extract_step b"
  by (rule typed_stepI [OF stage3_extract.step_contract_axioms], simp add: extract_step_def) (simp add: extract_typed keyless)

lemma make_conf_step_typed: "typed_step e (make_conf_step march use) b"
  by (rule typed_stepI [OF make_conf.step_contract_axioms], simp add: make_conf_step_def) (simp add: make_conf_typed)

lemma chroot_init_step_typed: "typed_step e chroot_init_step b"
  by (rule typed_stepI [OF chroot_init.step_contract_axioms], simp add: chroot_init_step_def) (simp add: chroot_init_typed keyless)

lemma portage_sync_step_typed: "typed_step e portage_sync_step b"
  by (rule typed_stepI [OF portage_sync.step_contract_axioms], simp add: portage_sync_step_def) (simp add: portage_sync_typed keyless)

lemma timezone_step_typed: "typed_step e (timezone_step tz0) b"
  by (rule typed_stepI [OF timezone.step_contract_axioms], simp add: timezone_step_def) (simp add: timezone_typed)

lemma locale_step_typed: "typed_step e (locale_step loc0) b"
  by (rule typed_stepI [OF locale_gen.step_contract_axioms], simp add: locale_step_def) (simp add: locale_typed)

lemma kernel_config_step_typed: "(b \<Longrightarrow> \<not> given cache_dir) \<Longrightarrow> typed_step e (kernel_config_step m src cache_dir v) b"
  by (rule typed_stepI [OF kernel_config.step_contract_axioms], simp add: kernel_config_step_def) (simp add: kernel_config_typed [simplified])

lemma kernel_compile_step_typed: "typed_step e kernel_compile_step b"
  by (rule typed_stepI [OF kernel_compile.step_contract_axioms], simp add: kernel_compile_step_def) (simp add: kernel_compile_typed keyless)

lemma kernel_install_step_typed: "typed_step e kernel_install_step b"
  by (rule typed_stepI [OF kernel_install.step_contract_axioms], simp add: kernel_install_step_def) (simp add: kernel_install_typed keyless)

lemma hostname_step_typed: "typed_step e (hostname_step name0) b"
  by (rule typed_stepI [OF hostname.step_contract_axioms], simp add: hostname_step_def) (simp add: hostname_typed)

lemma root_password_step_typed: "typed_step e (root_password_step None) b"
  by (rule typed_stepI [OF root_password.step_contract_axioms], simp add: root_password_step_def) (simp add: root_password_typed keyless)

lemma network_step_typed: "typed_step e (network_step iface0 dhcp0) b"
  by (rule typed_stepI [OF network.step_contract_axioms], simp add: network_step_def) (simp add: network_typed keyless)

lemma bootloader_step_typed: "typed_step e bootloader_step b"
  by (rule typed_stepI [OF bootloader.step_contract_axioms], simp add: bootloader_step_def) (simp add: bootloader_typed keyless)

lemma agent_step_typed: "typed_step e (agent_step src) b"
  by (rule typed_stepI [OF agent.step_contract_axioms], simp add: agent_step_def) (simp add: agent_typed)

lemma unmount_step_typed: "typed_step e unmount_step b"
  by (rule typed_stepI [OF unmount.step_contract_axioms], simp add: unmount_step_def) (simp add: unmount_typed keyless)

lemma fstab_step_typed: "typed_step e fstab_step b"
  by (rule typed_stepI [OF fstab.step_contract_axioms], simp add: fstab_step_def) (simp add: fstab_typed keyless needs_of_def)

lemmas steps_typed = hardware_step_typed partition_step_typed format_step_typed mount_step_typed stage3_step_typed
  extract_step_typed make_conf_step_typed chroot_init_step_typed portage_sync_step_typed timezone_step_typed
  locale_step_typed kernel_config_step_typed kernel_compile_step_typed kernel_install_step_typed fstab_step_typed
  hostname_step_typed root_password_step_typed network_step_typed bootloader_step_typed agent_step_typed unmount_step_typed

text \<open>The conditions: ports that fail as the system does, a disk on the command line, no cache of the source index.\<close>

definition plain_install :: "host \<Rightarrow> install_args \<Rightarrow> bool" where
  "plain_install h a \<longleftrightarrow> ports_ok (h_machine h) \<and> given (a_disk a) \<and> \<not> given (a_cache_dir a)"

lemma stage1_typed: "stp \<in> set (build_stage1_steps h a) \<Longrightarrow> (b \<Longrightarrow> plain_install h a) \<Longrightarrow> typed_step e stp b"
  unfolding build_stage1_steps_def plain_install_def by (simp, elim disjE; simp add: steps_typed)

interpretation fstab_types: typed_step e fstab_step True for e
  by (rule fstab_step_typed)

lemma run_all_typed:
  "(\<And>stp. stp \<in> set steps \<Longrightarrow> typed_step e stp False) \<Longrightarrow>
     hoare (typed_at {} w0) (run_all_steps e steps) (fails True w0) (\<lambda>_. typed_at {} w0)"
proof (induction steps)
  case Nil
  then show ?case by (simp add: t_ret)
next
  case (Cons x xs)
  have "hoare (typed_at {} w0) (run_step e x) (fails True w0) (\<lambda>_. typed_at {} w0)"
    using typed_step.run_step_typed [of e x False] Cons.prems by simp
  then show ?case
    unfolding run_all_steps.simps by (rule hoare_bind) (use Cons in \<open>simp add: t_ret\<close>)
qed

subsection \<open>The agent\<close>

lemma emerge_typed: "hoare (typed_at K w0) (emerge e args) (fails b w0) (\<lambda>_. typed_at K w0)"
  unfolding emerge_def by (intro t_bind_world nte_world world_rules t_prod t_ret) simp_all

lemma agent_bodies_typed:
  assumes "(n, body) \<in> set (stage3_bodies e)"
  shows "hoare (typed_at K w0) body (fails b w0) (\<lambda>_. typed_at K w0)" and "keys_of n = []"
proof -
  have stop: "hoare (typed_at K w0) (raise (SystemExit 1)) (fails b w0) Q" for Q
    by (rule hoare_raise) (auto simp: fails_def intro: typed_at_mono)
  have quiet: "hoare (typed_at K w0) (on_world (run_quiet e c)) (fails b w0) (\<lambda>_. typed_at K w0)" for c
    by (intro t_on_world nte_commands plain_run)
  have "hoare (typed_at K w0) (sync_body e) (fails b w0) (\<lambda>_. typed_at K w0)"
    "hoare (typed_at K w0) (cleanup_body e) (fails b w0) (\<lambda>_. typed_at K w0)"
    "hoare (typed_at K w0) (disable_body e) (fails b w0) (\<lambda>_. typed_at K w0)"
    unfolding sync_body_def cleanup_body_def disable_body_def
    by (intro t_bind emerge_typed t_ret t_cfg_text quiet; simp add: text_keys_def)+
  moreover have "hoare (typed_at K w0) (world_body e) (fails b w0) (\<lambda>_. typed_at K w0)"
    unfolding world_body_def
    by (intro t_bind emerge_typed hoare_if t_ret hoare_then [OF mark_failed_typed] stop subset_refl)
  ultimately show "hoare (typed_at K w0) body (fails b w0) (\<lambda>_. typed_at K w0)" "keys_of n = []"
    using assms by (auto simp: stage3_bodies_def keyless STAGE3_STEPS_def)
qed

lemma run_stage3_typed: "hoare (typed_at {} w0) (run_stage3 e) (fails True w0) (\<lambda>_. typed_at {} w0)"
proof -
  have once: "hoare (typed_at {} w0) (once e n body) (fails True w0) (\<lambda>_. typed_at {} w0)"
    if "(n, body) \<in> set (stage3_bodies e)" for n body
    unfolding once_def
    by (intro t_getM hoare_if t_ret t_seq_same mark_started_typed agent_bodies_typed [OF that] mark_done_typed t_seq_Nil)
      (simp_all add: agent_bodies_typed [OF that])
  have "hoare (typed_at {} w0) (mapM (\<lambda>(n, body). once e n body) (stage3_bodies e)) (fails True w0) (\<lambda>_. typed_at {} w0)"
    by (rule hoare_mapM) (auto intro: once)
  then show ?thesis
    unfolding run_stage3_def
    by (intro t_then_same t_on_world nte_world world_rules t_seq_same t_upd_state t_save t_seq_Nil) simp_all
qed

subsection \<open>The commands\<close>

lemma typed_runD:
  assumes "hoare (typed_at {} w) m (fails True w) (\<lambda>_. typed_at {} w)" and "well_typed s" and "m (s, w) = (r, (s', w'))"
  shows "well_typed s' \<and> adds_events typed_file w w'"
proof -
  have "typed_at {} w (s, w)" using assms(2) by (simp add: typed_at_def adds_events_refl)
  from assms(1) [unfolded hoare_def, rule_format, OF this] assms(3) show ?thesis
    by (auto simp: fails_def typed_at_def split: sum.splits)
qed

lemma typed_savedD:
  assumes "adds_events typed_file w w'" and "t \<in> set (saved_texts w w')" and "load_text t = Inr (Typed s'')"
  shows "well_typed s''"
proof -
  obtain p where "typed_file (Wrote p t)" "is_state_file p" using saved_textsD [OF assms(1,2)] by blast
  then obtain s where s: "t = state_text s" "well_typed s" by (auto simp: typed_file_def)
  moreover have "good_state s" using s(2) by (simp add: well_typed_def)
  ultimately show ?thesis using assms(3) load_text_state_text by auto
qed

lemma install_typed:
  assumes "well_typed s" and "install_from e h a (s, w) = (r, (s', w'))"
  shows "well_typed s' \<and> adds_events typed_file w w'"
proof -
  have "well_typed (set_mountpoint a s)" using assms(1) well_typed_cong [of "set_mountpoint a s" s] by simp
  moreover have "hoare (typed_at {} w) (run_all_steps e (build_stage1_steps h a)) (fails True w) (\<lambda>_. typed_at {} w)"
    by (rule run_all_typed, rule stage1_typed) simp_all
  ultimately show ?thesis using typed_runD assms(2) unfolding install_from_def by simp
qed

lemma continue_typed:
  assumes "well_typed s" and "continue_from e (s, w) = (r, (s', w'))"
  shows "well_typed s' \<and> adds_events typed_file w w'"
proof (cases "phase s \<in> {''stage1_complete'', ''stage3''}")
  case True
  then have run: "seqM [upd_state (\<lambda>s. s\<lparr>phase := ''stage3''\<rparr>), save e None, run_stage3 e] (s, w) = (r, (s', w'))"
    using assms(2) by (auto simp: continue_from_def)
  have "hoare (typed_at {} w) (seqM [upd_state (\<lambda>s. s\<lparr>phase := ''stage3''\<rparr>), save e None, run_stage3 e])
      (fails True w) (\<lambda>_. typed_at {} w)"
    by (intro t_seq_same t_upd_state t_save run_stage3_typed t_seq_Nil) simp_all
  then show ?thesis using typed_runD assms(1) run by blast
next
  case False
  then show ?thesis using assms by (simp add: continue_from_def adds_events_refl)
qed

lemma session_typed:
  assumes "session s s'" and "well_typed s"
  shows "well_typed s'"
  using assms(1)
proof cases
  case (installed e h a w r w')
  then show ?thesis using install_typed [OF assms(2)] by blast
next
  case (install_cut e h a w r s' w' t)
  then show ?thesis using install_typed [OF assms(2)] typed_savedD by blast
next
  case (continued e w r w')
  then show ?thesis using continue_typed [OF assms(2)] by blast
next
  case (continue_cut e w r s' w' t)
  then show ?thesis using continue_typed [OF assms(2)] typed_savedD by blast
qed

lemma reachable_typed: "reachable s \<Longrightarrow> well_typed s"
proof (induction rule: reachable.induct)
  case reach_fresh
  show ?case by (simp add: well_typed_def good_state_def fresh_state_def)
qed (rule session_typed)

text \<open>
  C8. In every reachable state, whatever the runs, failures and crashes before it: each value in the
  configuration has the type of its key, a key that no step writes is absent, and every completed step has left its keys.
\<close>

theorem configuration_typed:
  assumes "reachable s"
  shows "(\<forall>(k, v) \<in> set (config s). value_ok k v) \<and> (\<forall>n \<in> set (completed s). set (keys_of n) \<subseteq> fst ` set (config s))"
  using reachable_typed [OF assms] by (simp add: well_typed_def)

theorem configuration_typed_witness:
  "\<exists>s. reachable s \<and> set (config s) \<noteq> {} \<and> (\<forall>(k, v) \<in> set (config s). value_ok k v)"
proof -
  let ?run = "install_from calm_env bare_host default_args (fresh_state, empty_world)"
  obtain r s' w' where r: "?run = (r, (s', w'))" by (metis prod.exhaust)
  have "config (fst (snd ?run)) \<noteq> []" by code_simp
  then have "set (config s') \<noteq> {}" by (simp add: r)
  moreover have "reachable s'" by (rule reach_install [OF reach_fresh r])
  ultimately show ?thesis using configuration_typed by blast
qed



subsection \<open>What is never configured\<close>

lemma unset_key: "reachable s \<Longrightarrow> (\<And>x. \<not> value_ok k x) \<Longrightarrow> get_config s k v = v"
  using reachable_typed well_typed_value
  by (fastforce simp: get_config_def dget_default_def split: option.split)

text \<open>
  C31. No run ever sets a password hash, a device tree file or a network address: in every reachable state the step
  for the root password returns at once and changes nothing, neither in the target nor in the record, and the
  device tree file and the network settings are the built-in defaults.
\<close>

theorem settings_never_made:
  assumes "reachable s"
  shows "st_exec (root_password_step None) e (s, w) = (Inr (), (s, w))
    \<and> get_config s ''dtb_path'' v = v \<and> get_config s ''network_ip'' v = v \<and> get_config s ''network_gateway'' v = v"
proof -
  have d: "\<not> value_ok ''dtb_path'' x" for x by (simp add: value_ok_def text_keys_def)
  have "get_config s ''root_password_hash'' JNull = JNull" by (rule unset_key [OF assms]) (rule unwritten)
  then have "st_exec (root_password_step None) e (s, w) = (Inr (), (s, w))"
    by (simp add: root_password_step_def target_root_def cfg_def getM_def bindM_def whenM_def ret_def)
  then show ?thesis using unset_key [OF assms] unwritten d by simp
qed

theorem settings_never_made_witness:
  "st_exec (root_password_step None) calm_env (fresh_state, empty_world) = (Inr (), (fresh_state, empty_world))"
  using settings_never_made [OF reach_fresh] by blast

end
