(* ===== verification/Stages.thy ===== *)
theory Stages
  imports Sessions
begin

text \<open>
  The installation as an abstract machine: how many steps of each stage are completed, and which part of the
  installation is on. Every session of the installer, a crash included, is a path of this machine.
\<close>

datatype stage = Installing | HandedOver | Updating | Finished

definition stage_of :: "str \<Rightarrow> stage" where
  "stage_of ph = (if ph = ''stage1_complete'' then HandedOver else if ph = ''stage3'' then Updating
     else if ph = ''complete'' then Finished else Installing)"

definition done_count :: "str list \<Rightarrow> str list \<Rightarrow> nat" where
  "done_count ns c = length (filter (\<lambda>n. n \<in> set c) ns)"

definition abs_state :: "installer_state \<Rightarrow> nat \<times> nat \<times> stage" where
  "abs_state s = (done_count stage1_names (completed s), done_count STAGE3_STEPS (completed s), stage_of (phase s))"

text \<open>
  The second stage can be handed over to as soon as the 19 steps before the agent are done, and again when the agent is
  installed again; it advances only while updating, and finishes only with all of its steps done.
\<close>

inductive stage_step :: "nat \<times> nat \<times> stage \<Rightarrow> nat \<times> nat \<times> stage \<Rightarrow> bool" where
  first: "i < 21 \<Longrightarrow> stage_step (i, j, p) (Suc i, j, p)"
| hand_over: "19 \<le> i \<Longrightarrow> stage_step (i, j, p) (i, j, HandedOver)"
| start: "p \<in> {HandedOver, Updating} \<Longrightarrow> stage_step (i, j, p) (i, j, Updating)"
| second: "j < 4 \<Longrightarrow> stage_step (i, j, Updating) (i, Suc j, Updating)"
| finish: "stage_step (i, 4, Updating) (i, 4, Finished)"

abbreviation stage_path :: "nat \<times> nat \<times> stage \<Rightarrow> nat \<times> nat \<times> stage \<Rightarrow> bool" where
  "stage_path \<equiv> stage_step\<^sup>*\<^sup>*"

lemma first_path:
  assumes "i \<le> i'" and "i' \<le> 21"
  shows "stage_path (i, j, p) (i', j, p)"
  using assms
proof (induction i' rule: dec_induct)
  case (step n)
  then show ?case using first [of n j p] by (meson Suc_leD less_eq_Suc_le rtranclp.rtrancl_into_rtrancl)
qed simp

lemma second_path:
  assumes "j \<le> j'" and "j' \<le> 4"
  shows "stage_path (i, j, Updating) (i, j', Updating)"
  using assms
proof (induction j' rule: dec_induct)
  case (step n)
  then show ?case using second [of n i] by (meson Suc_leD less_eq_Suc_le rtranclp.rtrancl_into_rtrancl)
qed simp

lemma count_mono: "set c \<subseteq> set c' \<Longrightarrow> done_count ns c \<le> done_count ns c'"
  unfolding done_count_def by (induction ns) auto

lemma count_bounds: "done_count stage1_names c \<le> 21" "done_count STAGE3_STEPS c \<le> 4"
  unfolding done_count_def
  using length_filter_le [of _ stage1_names] length_filter_le [of _ STAGE3_STEPS] length_stage1
  by (simp_all add: STAGE3_STEPS_def)

lemma count_other: "set ns \<inter> set ms = {} \<Longrightarrow> done_count ns (done_after c (take k ms)) = done_count ns c"
  unfolding done_count_def set_done_after using set_take_subset [of k ms]
  by (intro arg_cong [of _ _ length] filter_cong) auto

lemma count_taken: "min k (length ns) \<le> done_count ns (done_after c (take k ns))"
proof -
  have "take k ns = filter (\<lambda>n. n \<in> set (done_after c (take k ns))) (take k ns)"
    by (simp add: set_done_after)
  then have "min k (length ns) = length (filter (\<lambda>n. n \<in> set (done_after c (take k ns))) (take k ns))"
    by (metis length_take min.commute)
  also have "\<dots> \<le> length (filter (\<lambda>n. n \<in> set (done_after c (take k ns))) (take k ns @ drop k ns))"
    by (simp only: filter_append length_append le_add1)
  finally show ?thesis by (simp add: done_count_def)
qed

lemma first_stage_refines:
  assumes "stage1_progress s s'"
  shows "stage_path (abs_state s) (abs_state s')"
proof -
  obtain k where c: "completed s' = done_after (completed s) (take k stage1_names)"
    and ph: "phase s' \<in> phase_after (phase s) stage1_names k"
    using assms by (auto simp: stage1_progress_def)
  let ?i = "done_count stage1_names (completed s)" and ?i' = "done_count stage1_names (completed s')"
    and ?j = "done_count STAGE3_STEPS (completed s)"
  have "?i \<le> ?i'" by (rule count_mono) (simp add: c set_done_after)
  then have path: "stage_path (abs_state s) (?i', ?j, stage_of (phase s))"
    unfolding abs_state_def using count_bounds(1) by (rule first_path)
  have j: "done_count STAGE3_STEPS (completed s') = ?j"
    unfolding c by (rule count_other) (use stages_disjoint in blast)
  have "phase s' = phase s \<or> phase s' = ''stage1_complete'' \<and> 19 \<le> k"
    using ph agent_position [of _ k] by (auto simp: phase_after_def phases_def split: if_splits)
  then show ?thesis
  proof
    assume "phase s' = phase s"
    with path j show ?thesis by (simp add: abs_state_def)
  next
    assume p: "phase s' = ''stage1_complete'' \<and> 19 \<le> k"
    then have "19 \<le> min k 21" by simp
    then have "19 \<le> ?i'"
      using count_taken [of k stage1_names "completed s"] unfolding length_stage1 c by (rule le_trans)
    from hand_over [OF this] path have "stage_path (abs_state s) (?i', ?j, HandedOver)"
      by (rule rtranclp.rtrancl_into_rtrancl [rotated])
    with p j show ?thesis by (simp add: abs_state_def stage_of_def)
  qed
qed

lemma second_stage_refines:
  assumes "stage3_progress s s'"
  shows "stage_path (abs_state s) (abs_state s')"
proof -
  obtain k where c: "completed s' = done_after (completed s) (take k STAGE3_STEPS)" and p: "phase s \<in> {''stage1_complete'', ''stage3''}"
    and ph: "phase s' = ''stage3'' \<or> phase s' = ''complete'' \<and> k = length STAGE3_STEPS"
    using assms by (auto simp: stage3_progress_def)
  let ?i = "done_count stage1_names (completed s)" and ?j = "done_count STAGE3_STEPS (completed s)"
    and ?j' = "done_count STAGE3_STEPS (completed s')"
  have "stage_step (abs_state s) (?i, ?j, Updating)"
    unfolding abs_state_def by (rule start) (use p in \<open>auto simp: stage_of_def\<close>)
  moreover have "stage_path (?i, ?j, Updating) (?i, ?j', Updating)"
  proof (rule second_path)
    show "?j \<le> ?j'" by (rule count_mono) (simp add: c set_done_after)
  qed (rule count_bounds)
  ultimately have path: "stage_path (abs_state s) (?i, ?j', Updating)" by (rule converse_rtranclp_into_rtranclp)
  have i: "done_count stage1_names (completed s') = ?i" unfolding c by (rule count_other [OF stages_disjoint])
  from ph show ?thesis
  proof
    assume "phase s' = ''stage3''"
    with path i show ?thesis by (simp add: abs_state_def stage_of_def)
  next
    assume q: "phase s' = ''complete'' \<and> k = length STAGE3_STEPS"
    have "length STAGE3_STEPS = 4" by (simp add: STAGE3_STEPS_def)
    then have j: "?j' = 4" using q count_taken [of k STAGE3_STEPS "completed s"] count_bounds(2) [of "completed s'"] by (simp add: c)
    have "stage_path (abs_state s) (?i, 4, Finished)"
      using path finish [of ?i] unfolding j by (rule rtranclp.rtrancl_into_rtrancl)
    with q i j show ?thesis by (simp add: abs_state_def stage_of_def)
  qed
qed

lemma session_path: "session s s' \<Longrightarrow> good_state s \<Longrightarrow> stage_path (abs_state s) (abs_state s')"
  using session_progress first_stage_refines second_stage_refines by blast

lemma reachable_path: "reachable s \<Longrightarrow> stage_path (0, 0, Installing) (abs_state s)"
proof (induction rule: reachable.induct)
  case reach_fresh
  have "abs_state fresh_state = (0, 0, Installing)"
    by (simp add: abs_state_def done_count_def stage_of_def fresh_state_def)
  then show ?case by simp
next
  case (reach_session s s')
  then show ?case using session_path reachable_progress_ok [OF reach_session(1)] by (meson progress_ok_def rtranclp_trans)
qed



text \<open>An invariant of the machine, and what it says of the installer.\<close>

lemma finished_path:
  assumes "stage_path x y" and "snd (snd x) = Finished \<longrightarrow> fst (snd x) = 4"
  shows "snd (snd y) = Finished \<longrightarrow> fst (snd y) = 4"
  using assms
proof (induction rule: rtranclp_induct)
  case (step y z)
  from step(2) step.IH [OF step.prems] show ?case by cases simp_all
qed

text \<open>
  An installation that is finished has been through all of it: in every reachable state whose phase is complete,
  the 19 steps before the agent and all steps of the second stage are completed, whatever crashes there were.
\<close>

lemma finished_means_done:
  assumes "reachable s" and "phase s = ''complete''"
  shows "set (take 19 stage1_names) \<union> set STAGE3_STEPS \<subseteq> set (completed s)"
proof -
  have ok: "progress_ok s" by (rule reachable_progress_ok [OF assms(1)])
  have "snd (snd (abs_state s)) = Finished \<longrightarrow> fst (snd (abs_state s)) = 4"
    by (rule finished_path [OF reachable_path [OF assms(1)]]) simp
  then have "done_count STAGE3_STEPS (completed s) = length STAGE3_STEPS"
    using assms(2) by (simp add: abs_state_def stage_of_def STAGE3_STEPS_def)
  then have "set STAGE3_STEPS \<subseteq> set (completed s)"
    unfolding done_count_def using length_filter_less by (metis less_irrefl subsetI)
  moreover have "set (take 19 stage1_names) \<subseteq> set (completed s)"
    using ok assms(2) by (simp add: progress_ok_def)
  ultimately show ?thesis by simp
qed

end
