(* ===== verification/Completes.thy ===== *)
theory Completes
  imports Succeeds StepTypes SystemFacts Commands
begin

text \<open>
  Each step of the first stage succeeds when what it needs is there and all commands succeed: for every step, the layout of
  the target and the contents of the configuration before and after it; then the same for the step with its record, and for a
  run of several steps.
\<close>

subsection \<open>Rules\<close>

text \<open>
  The layout, the mountpoint, the completed steps, and the configuration but for the one key that nothing reads.
\<close>

definition placed :: "layout \<Rightarrow> str \<Rightarrow> (str \<rightharpoonup> json) \<Rightarrow> str list \<Rightarrow> sys \<Rightarrow> bool" where
  "placed L mp c d sw \<longleftrightarrow> on_target L mp sw \<and> completed (fst sw) = d
     \<and> (\<forall>k. k \<noteq> ''kernel_config_symbols'' \<longrightarrow> dget (config (fst sw)) k = c k)"

abbreviation goes :: "(sys \<Rightarrow> bool) \<Rightarrow> (sys, 'a) act \<Rightarrow> (sys \<Rightarrow> bool) \<Rightarrow> bool" where
  "goes P m Q \<equiv> hoare P m (\<lambda>_ _. False) (\<lambda>_. Q)"

lemma goesI: "(\<And>s. P s \<Longrightarrow> \<exists>v s'. m s = (Inr v, s') \<and> Q s') \<Longrightarrow> goes P m Q"
  by (rule hoareI) fastforce

lemma goesE:
  assumes "goes P m Q" and "P s"
  obtains v s' where "m s = (Inr v, s')" "Q s'"
proof -
  obtain r s' where m: "m s = (r, s')" by (cases "m s")
  show ?thesis
    using hoare_Inl [OF assms(1,2)] hoare_Inr [OF assms(1,2)] m that by (cases r) blast+
qed

text \<open>A target that can be worked on: commands succeed and saving the record disturbs nothing.\<close>

definition workable :: "env \<Rightarrow> layout \<Rightarrow> str \<Rightarrow> bool" where
  "workable e L mp \<longleftrightarrow> gentle L e \<and> clear_of live_state_path L \<and> clear_of (path_join (mk_path mp) target_rel) L"

lemma g_world: "succeeds (in_layout L) m \<Longrightarrow> goes (placed L mp c d) (on_world m) (placed L mp c d)"
  by (rule goesI) (fastforce simp: placed_def on_target_def on_world_def elim!: succeedsE split: prod.splits)

lemma g_ret: "goes P (ret v) P"
  by (simp add: hoare_ret)

lemma g_bind: "goes P m R \<Longrightarrow> (\<And>v. goes R (f v) Q) \<Longrightarrow> goes P (bindM m f) Q"
  by (rule hoare_bind)

lemma g_bind_world:
  "succeeds (in_layout L) m \<Longrightarrow> (\<And>v. goes (placed L mp c d) (f v) Q) \<Longrightarrow> goes (placed L mp c d) (bindM (on_world m) f) Q"
  by (rule g_bind) (rule g_world)

lemma g_cfg:
  assumes "k \<noteq> ''kernel_config_symbols''" and "goes (placed L mp c d) (f (case c k of None \<Rightarrow> v | Some x \<Rightarrow> x)) Q"
  shows "goes (placed L mp c d) (bindM (cfg k v) f) Q"
proof (rule goesI)
  fix sw assume p: "placed L mp c d sw"
  have "bindM (cfg k v) f sw = f (case c k of None \<Rightarrow> v | Some x \<Rightarrow> x) sw"
    using p assms(1) by (cases sw) (simp add: placed_def cfg_def getM_def bindM_def get_config_def dget_default_def)
  then show "\<exists>v' s'. bindM (cfg k v) f sw = (Inr v', s') \<and> Q s'"
    using goesE [OF assms(2) p] by metis
qed

lemma g_getM:
  assumes "\<And>s w. placed L mp c d (s, w) \<Longrightarrow> goes (placed L mp c d) (f (g (s, w))) Q"
  shows "goes (placed L mp c d) (bindM (getM g) f) Q"
proof (rule goesI)
  fix sw assume p: "placed L mp c d sw"
  obtain s w where sw: "sw = (s, w)" by (cases sw)
  have "goes (placed L mp c d) (f (g sw)) Q" using p assms by (simp add: sw)
  then obtain v s' where "f (g sw) sw = (Inr v, s')" "Q s'" using p by (rule goesE)
  then show "\<exists>v s'. bindM (getM g) f sw = (Inr v, s') \<and> Q s'" by (simp add: bindM_def getM_def)
qed

text \<open>What a step reads for a key, given its default.\<close>

abbreviation setting :: "(str \<rightharpoonup> json) \<Rightarrow> str \<Rightarrow> json \<Rightarrow> json" where
  "setting c k v \<equiv> (case c k of None \<Rightarrow> v | Some x \<Rightarrow> x)"

lemma placedD: "placed L mp c d (s, w) \<Longrightarrow> laid_out L (fs w)" "placed L mp c d (s, w) \<Longrightarrow> mountpoint s = mp"
  "placed L mp c d (s, w) \<Longrightarrow> k \<noteq> ''kernel_config_symbols'' \<Longrightarrow> get_config s k v = (case c k of None \<Rightarrow> v | Some x \<Rightarrow> x)"
  by (simp_all add: placed_def on_target_def get_config_def dget_default_def)

lemma g_target: "goes (placed L mp c d) (f (mk_path mp)) Q \<Longrightarrow> goes (placed L mp c d) (bindM target_root f) Q"
  unfolding target_root_def by (rule g_getM) (simp add: placedD)

lemma g_exists:
  "(\<And>v. goes (placed L mp c d) (f v) Q) \<Longrightarrow> goes (placed L mp c d) (bindM (existsM p) f) Q"
  "p \<in> texts L \<union> present L \<Longrightarrow> goes (placed L mp c d) (f True) Q \<Longrightarrow> goes (placed L mp c d) (bindM (existsM p) f) Q"
  "p \<in> dirs L \<Longrightarrow> goes (placed L mp c d) (f True) Q \<Longrightarrow> goes (placed L mp c d) (bindM (is_dirM p) f) Q"
proof -
  show "(\<And>v. goes (placed L mp c d) (f v) Q) \<Longrightarrow> goes (placed L mp c d) (bindM (existsM p) f) Q"
    unfolding existsM_def by (rule g_getM)
  show "goes (placed L mp c d) (bindM (existsM p) f) Q"
    if "p \<in> texts L \<union> present L" "goes (placed L mp c d) (f True) Q"
    unfolding existsM_def
  proof (rule g_getM)
    fix s and w :: world assume "placed L mp c d (s, w)"
    then have "exists_at w p" using that(1) placedD(1) by (fastforce simp: laid_out_def exists_at_def)
    then show "goes (placed L mp c d) (f (case (s, w) of (s, w) \<Rightarrow> exists_at w p)) Q" using that(2) by simp
  qed
  show "goes (placed L mp c d) (bindM (is_dirM p) f) Q" if "p \<in> dirs L" "goes (placed L mp c d) (f True) Q"
    unfolding is_dirM_def
  proof (rule g_getM)
    fix s and w :: world assume "placed L mp c d (s, w)"
    then have "is_dir_at w p" using that(1) placedD(1) by (fastforce simp: laid_out_def is_dir_at_def)
    then show "goes (placed L mp c d) (f (case (s, w) of (s, w) \<Rightarrow> is_dir_at w p)) Q" using that(2) by simp
  qed
qed

lemma g_save: "workable e L mp \<Longrightarrow> goes (placed L mp c d) (save e None) (placed L mp c d)"
proof (rule goesI)
  fix sw assume k: "workable e L mp" and p: "placed L mp c d sw"
  then obtain x sw' where "save e None sw = (Inr x, sw')" "on_target L mp sw'"
    using succ_save [of L mp e] by (auto simp: workable_def placed_def elim!: succeedsE)
  then show "\<exists>v s'. save e None sw = (Inr v, s') \<and> placed L mp c d s'"
    using p save_state_kept [of e None sw] by (auto simp: placed_def)
qed

lemma g_upd_state:
  assumes "\<And>s. mountpoint (f s) = mountpoint s" and "\<And>s. config (f s) = config s"
    and "\<And>s. completed s = d \<Longrightarrow> completed (f s) = d'"
  shows "goes (placed L mp c d) (upd_state f) (placed L mp c d')"
  by (rule goesI) (use assms in \<open>auto simp: placed_def on_target_def upd_state_def\<close>)

lemma g_append_log: "goes (placed L mp c d) (append_log e msg) (placed L mp c d)"
  by (rule goesI) (auto simp: placed_def on_target_def append_log_eq)

lemma g_set_config:
  assumes "workable e L mp"
  shows "goes (placed L mp c d) (set_config e k v) (placed L mp (c(k \<mapsto> v)) d)"
proof -
  have upd: "goes (placed L mp c d) (upd_state (\<lambda>s. s\<lparr>config := dset k v (config s)\<rparr>)) (placed L mp (c(k \<mapsto> v)) d)" for k c
    by (rule goesI) (auto simp: placed_def on_target_def upd_state_def dict_simps)
  show ?thesis
    unfolding set_config_def
    by (rule hoare_seq_Cons [OF upd], rule hoare_seq_Cons [OF g_save [OF assms]], rule hoare_seq_Nil)
qed

text \<open>Sequences and branches.\<close>

lemma g_seq_Nil: "goes P (seqM []) P"
  by (rule hoare_seq_Nil)

lemma g_seq_set:
  "workable e L mp \<Longrightarrow> goes (placed L mp (c(k \<mapsto> v)) d) (seqM ms) Q
    \<Longrightarrow> goes (placed L mp c d) (seqM (set_config e k v # ms)) Q"
  by (rule hoare_seq_Cons) (rule g_set_config)

lemma g_then_set:
  "workable e L mp \<Longrightarrow> goes (placed L mp (c(k \<mapsto> v)) d) m Q
    \<Longrightarrow> goes (placed L mp c d) (thenM (set_config e k v) m) Q"
  by (rule hoare_then) (rule g_set_config)

lemma g_seq_same: "goes P m P \<Longrightarrow> goes P (seqM ms) Q \<Longrightarrow> goes P (seqM (m # ms)) Q"
  by (rule hoare_seq_Cons)

lemma g_then_same: "goes P m P \<Longrightarrow> goes P n Q \<Longrightarrow> goes P (thenM m n) Q"
  by (rule hoare_then)

lemmas g_seq = g_seq_same [of _ "on_world m" for m] g_seq_same [of _ "bindM m f" for m f] g_seq_same [of _ "whenM b m" for b m]
lemmas g_then = g_then_same [of _ "on_world m" for m] g_then_same [of _ "whenM b m" for b m]

lemma g_when: "(b \<Longrightarrow> goes P m P) \<Longrightarrow> goes P (whenM b m) P"
  by (simp add: whenM_def g_ret)

lemma g_prod: "(\<And>x y. goes P (f x y) Q) \<Longrightarrow> goes P (case z of (x, y) \<Rightarrow> f x y) Q"
  by (cases z) simp

subsection \<open>The world\<close>

lemma succ_append: "may_file e L p \<Longrightarrow> succeeds (in_layout L) (append_text e p t)"
  unfolding append_text_def using succ_write [of e L p] by (simp add: succeeds_def)

lemma succ_read: "p \<in> texts L \<Longrightarrow> succeeds (in_layout L) (read_text p)"
  by (rule succeedsI) (force simp: read_text_def laid_out_def)

lemma succ_copy2:
  assumes "p \<in> texts L" and "may_file e L q"
  shows "succeeds (in_layout L) (copy2 e p q)"
proof (rule succeedsI)
  fix w :: world assume i: "laid_out L (fs w)"
  have "succeeds (in_layout L) (copy_file e p q)"
    unfolding copy_file_def by (intro succ_bind succ_read succ_write assms)
  then obtain x w' where "copy_file e p q w = (Inr x, w')" "laid_out L (fs w')" using i by (rule succeedsE)
  moreover have "\<not> is_dir_at w q" using i assms(2) by (auto simp: is_dir_at_def laid_out_def may_file_def)
  ultimately show "\<exists>x w'. copy2 e p q w = (Inr x, w') \<and> laid_out L (fs w')"
    by (simp add: copy2_def getM_def bindM_def)
qed

lemma succ_run_check: "gentle L e \<Longrightarrow> succeeds (in_layout L) (run_check e cmd)"
  unfolding run_check_def by (rule succ_check_inv)

lemma succ_make: "gentle L e \<Longrightarrow> succeeds (in_layout L) (thenM (check_inv e i) (ret ()))"
  by (intro succ_rules succ_check_inv)

lemma succ_layouts:
  assumes "gentle L e"
  shows "succeeds (in_layout L) (create_gpt_layout e plan)" "succeeds (in_layout L) (create_mbr_layout e plan)"
  unfolding create_gpt_layout_def create_mbr_layout_def wipe_disk_def
  by (intro succ_rules succ_commands succ_run_inv assms)+

lemma succ_uuid: "gentle L e \<Longrightarrow> succeeds (in_layout L) (uuid_of e dev)"
  unfolding uuid_of_def by (intro succ_rules succ_run_check)

lemma succ_install_grub: "gentle L e \<Longrightarrow> succeeds (in_layout L) (install_grub e mp (JStr disk) uefi platform)"
  unfolding install_grub_def by (intro succ_rules succ_chroot_run) (simp_all add: liftR_def succeeds_def)

lemma succ_save_config: "may_file e L p \<Longrightarrow> succeeds (in_layout L) (save_config e p meta g)"
  unfolding save_config_def using succ_write [of e L p] by (simp add: succeeds_def)

lemma succ_symlink:
  assumes "path_parent p \<in> dirs L" and "p \<notin> dirs L \<union> free L \<union> texts L \<union> dom (fixed L)" and "\<And>f. may_write e f p" and "laid_out L (fs w)"
    and "fs w p = None"
  shows "\<exists>w'. symlink_to e p t w = (Inr (), w') \<and> laid_out L (fs w')"
  using assms by (auto simp: symlink_to_def laid_out_def)

subsection \<open>The steps\<close>

text \<open>Something is found when the machine is scanned.\<close>

definition hardware_found :: "machine \<Rightarrow> bool" where
  "hardware_found m \<longleftrightarrow>
     (case (scan_pci (m_port m), scan_acpi (m_mem m), scan_dt (m_dt m) None) of
        (Inr (ps, _), Inr (i, _), Inr (ds, _)) \<Rightarrow> ps \<noteq> [] \<or> fst (scan_usb (m_usb m)) \<noteq> [] \<or> ds \<noteq> [] \<or> has_acpi i
      | _ \<Rightarrow> False)"

lemma hardware_goes:
  assumes "workable e L mp" and "hardware_found m" and "c ''dtb_path'' = None"
  obtains ps us i ds where
    "goes (placed L mp c d) (st_exec (hardware_step m) e) (placed L mp (c(''hardware'' \<mapsto> hardware_json ps us i ds)) d)"
proof -
  obtain ps x i y ds z where s: "scan_pci (m_port m) = Inr (ps, x)" "scan_acpi (m_mem m) = Inr (i, y)"
    "scan_dt (m_dt m) None = Inr (ds, z)" "ps \<noteq> [] \<or> fst (scan_usb (m_usb m)) \<noteq> [] \<or> ds \<noteq> [] \<or> has_acpi i"
    using assms(2) by (auto simp: hardware_found_def split: sum.splits prod.splits)
  obtain us u where us: "scan_usb (m_usb m) = (us, u)" by force
  have "goes (placed L mp c d) (st_exec (hardware_step m) e) (placed L mp (c(''hardware'' \<mapsto> hardware_json ps us i ds)) d)"
    unfolding hardware_step_def step.simps s us liftR_Inr prod.case
    by (rule t_bind_ret, unfold prod.case, rule g_cfg, simp, unfold assms(3) option.case dtb_hint_def truthy.simps if_False bindR_def sum.case s liftR_Inr prod.case,
        rule g_then_set [OF assms(1)]) (use s(4) us g_ret in auto)
  then show ?thesis by (rule that)
qed

text \<open>Whether the machine boots with UEFI is only known when the partitioning step runs.\<close>

lemma hoare_ex: "(\<And>x. hoare (P x) m E Q) \<Longrightarrow> hoare (\<lambda>s. \<exists>x. P x s) m E Q"
  by (rule hoareI, elim exE) (simp add: hoare_def)

lemma goes_ex: "goes P m (Q x) \<Longrightarrow> goes P m (\<lambda>s. \<exists>x. Q x s)"
  by (rule hoare_post, assumption) blast

lemma partition_goes:
  assumes "workable e L mp" and "given disk" and "dev_names b \<noteq> None"
  shows "goes (placed L mp c d) (st_exec (partition_step b disk bsz ssz None) e)
    (\<lambda>sw. \<exists>u. placed L mp (c(''disk'' \<mapsto> JStr (the disk), ''partitions'' \<mapsto> partitions_json (plan_for (the disk) bsz ssz u))) d sw)"
proof -
  have gentle: "gentle L e" using assms(1) by (simp add: workable_def)
  obtain ns where ns: "partition_numbers b (the disk) = Inr ns"
    using assms(3) by (auto simp: partition_numbers_def)
  have on: "goes (placed L mp c d) (partition_on e b bsz ssz None (the disk))
    (\<lambda>sw. \<exists>u. placed L mp (c(''disk'' \<mapsto> JStr (the disk), ''partitions'' \<mapsto> partitions_json (plan_for (the disk) bsz ssz u))) d sw)"
    unfolding partition_on_def option.case ns liftR_Inr Let_def
  proof (rule g_bind_world)
    show "succeeds (in_layout L) detect_uefi" by (simp add: detect_uefi_def succ_ret)
    fix u
    show "goes (placed L mp c d)
      (seqM [on_world (if u then create_gpt_layout e (plan_for (the disk) bsz ssz u) else create_mbr_layout e (plan_for (the disk) bsz ssz u)),
         set_config e ''disk'' (JStr (the disk)), set_config e ''partitions'' (partitions_json (plan_for (the disk) bsz ssz u))])
      (\<lambda>sw. \<exists>u. placed L mp (c(''disk'' \<mapsto> JStr (the disk), ''partitions'' \<mapsto> partitions_json (plan_for (the disk) bsz ssz u))) d sw)"
      by (rule goes_ex [of _ _ _ u], intro g_seq g_world g_seq_set assms g_seq_Nil succ_if succ_layouts gentle)
  qed
  have "choose_disk e b disk = ret (the disk)"
    using assms(2) by (auto simp: choose_disk_def given_def bindM_def ret_def liftR_def)
  then show ?thesis
    unfolding partition_step_def step.simps by (simp only:) (rule t_bind_ret, rule on)
qed

lemma root_fs_known: "mkfs_root (JStr r) \<noteq> None \<Longrightarrow> r \<in> {''ext4'', ''btrfs'', ''xfs'', ''f2fs''}"
  by (auto simp: mkfs_root_def split: if_splits)

lemma format_goes:
  assumes "workable e L mp" and "mkfs_root (JStr r) \<noteq> None" and "setting c ''root_fs'' (JStr r0) = JStr r"
    and "c ''partitions'' = Some (partitions_json plan)"
  shows "goes (placed L mp c d) (st_exec (format_step r0) e) (placed L mp (c(''root_fs'' \<mapsto> JStr r)) d)"
proof -
  have gentle: "gentle L e" using assms(1) by (simp add: workable_def)
  obtain cmd where cmd: "mkfs_root (JStr r) = Some cmd" using assms(2) by blast
  have c: "c(''root_fs'' \<mapsto> JStr r, ''partitions'' \<mapsto> partitions_json plan) = c(''root_fs'' \<mapsto> JStr r)"
    using assms(4) by auto
  have "goes (placed L mp c d) (format_parts e r0 (partitions_json plan))
    (placed L mp (c(''root_fs'' \<mapsto> JStr r, ''partitions'' \<mapsto> partitions_json plan)) d)"
    unfolding format_parts_def
    by (simp del: seqM.simps split del: if_split, rule g_cfg, simp, unfold assms(3) cmd option.case run_on_text)
      (intro g_seq g_seq_set assms(1) g_seq_Nil g_world g_when succ_commands gentle)
  then show ?thesis
    unfolding format_step_def step.simps by (intro g_cfg) (simp_all add: assms(4) c)
qed

lemma mount_at_goes:
  assumes "gentle L e" and "set (ancestors p) \<subseteq> dirs L"
  shows "goes (placed L mp c d) (mount_at e (JStr dv) p) (placed L mp c d)"
  unfolding mount_at_def as_text_str liftR_Inr
  by (intro g_then g_world g_bind_world succ_mkdir assms hoare_if g_ret succ_commands)
    (simp add: is_mounted_plain_def succ_rules succ_commands assms)

definition boot_dir_of :: "path \<Rightarrow> bool \<Rightarrow> path" where
  "boot_dir_of mp uefi = sub_path mp (if uefi then ''boot/efi'' else ''boot'')"

lemma mount_goes:
  assumes "workable e L mp" and "set (ancestors (mk_path mp)) \<subseteq> dirs L"
    and "set (ancestors (boot_dir_of (mk_path mp) (plan_uefi plan))) \<subseteq> dirs L"
    and "c ''partitions'' = Some (partitions_json plan)"
  shows "goes (placed L mp c d) (st_exec mount_step e)
    (placed L mp (c(''boot_dir'' \<mapsto> JStr (str_path (boot_dir_of (mk_path mp) (plan_uefi plan))))) d)"
proof -
  have gentle: "gentle L e" using assms(1) by (simp add: workable_def)
  have "goes (placed L mp c d) (mount_parts e (partitions_json plan))
    (placed L mp (c(''boot_dir'' \<mapsto> JStr (str_path (boot_dir_of (mk_path mp) (plan_uefi plan))))) d)"
    unfolding mount_parts_def Let_def
    by (simp del: seqM.simps split del: if_split add: boot_dir_of_def, rule g_target)
      (intro g_seq_same [OF mount_at_goes] gentle g_seq g_seq_set g_seq_Nil g_when g_world succ_commands assms [unfolded boot_dir_of_def])
  then show ?thesis
    unfolding mount_step_def step.simps by (intro g_cfg) (simp_all add: assms(4))
qed

text \<open>The archive is there after the download step, whether it was before or not.\<close>

abbreviation with_file :: "layout \<Rightarrow> path \<Rightarrow> layout" where
  "with_file L p \<equiv> L\<lparr>present := {p}\<rparr>"

definition archive_of :: "str \<Rightarrow> path" where
  "archive_of url = sub_path STAGE3_DIR (last (split_on CHR ''/'' url))"

lemma succ_verify: "succeeds I (catchM (verify_sha512 e p u) is_exception (\<lambda>_. ret ()))"
  unfolding verify_ignored by (simp add: succeeds_def)

lemma fetch_archive:
  assumes "fetch_url e url = Some t" and "may_file e L p" and "present L = {}"
  shows "goes (placed L mp c d) (bindM (existsM p) (\<lambda>cached. whenM (\<not> cached) (on_world (download e url p)))) (placed (with_file L p) mp c d)"
proof (rule goesI)
  fix sw assume i: "placed L mp c d sw"
  obtain s w where sw: "sw = (s, w)" by (cases sw)
  have l: "laid_out L (fs w)" using i by (simp add: sw placed_def on_target_def)
  show "\<exists>v s'. bindM (existsM p) (\<lambda>cached. whenM (\<not> cached) (on_world (download e url p))) sw = (Inr v, s')
      \<and> placed (with_file L p) mp c d s'"
  proof (cases "exists_at w p")
    case True
    with i show ?thesis
      by (auto simp: sw existsM_def getM_def bindM_def whenM_def ret_def placed_def on_target_def laid_out_def exists_at_def)
  next
    case False
    obtain w' where w: "write_text e p t w = (Inr (), w')" "laid_out L (fs w')"
      using succ_write [OF assms(2), of t] l by (auto elim: succeedsE)
    then have "fs w' p = Some (FFile t)" using write_text_fs by auto
    then have "laid_out (with_file L p) (fs w')" using w(2) by (simp add: laid_out_def)
    with False i w(1) show ?thesis
      by (auto simp: sw existsM_def getM_def bindM_def whenM_def ret_def placed_def on_target_def on_world_def download_def
          urlopen_def assms(1) split: prod.splits)
  qed
qed

lemma stage3_goes:
  assumes "workable e L mp" and "workable e (with_file L (archive_of url)) mp" and "url \<noteq> []" and "fetch_url e url = Some t"
    and "set (ancestors STAGE3_DIR) \<subseteq> dirs L" and "may_file e L (archive_of url)" and "present L = {}"
  shows "goes (placed L mp c d) (st_exec (stage3_step (Some url)) e) (placed (with_file L (archive_of url)) mp
    (c(''stage3_url'' \<mapsto> JStr url, ''stage3_tarball'' \<mapsto> JStr (str_path (archive_of url)))) d)"
proof -
  have "goes (placed L mp c d) (stage3_get e url) (placed (with_file L (archive_of url)) mp
    (c(''stage3_url'' \<mapsto> JStr url, ''stage3_tarball'' \<mapsto> JStr (str_path (archive_of url)))) d)"
    unfolding stage3_get_def Let_def archive_of_def [symmetric]
    by (rule g_seq_same [OF g_world [OF succ_mkdir [OF assms(5)]]], rule hoare_seq_Cons [OF fetch_archive [OF assms(4,6,7)]])
      (intro g_seq g_world succ_verify g_seq_set assms(2) g_seq_Nil)
  moreover have "stage3_url e (Some url) = ret url"
    using assms(3) by (simp add: stage3_url_def bindM_def ret_def)
  ultimately show ?thesis
    unfolding stage3_step_def step.simps by (simp only:) (rule t_bind_ret)
qed

lemma succ_run_cmd_zero:
  assumes "gentle L e" and "\<And>out. goes (placed L mp c d) (f (0, out)) Q"
  shows "goes (placed L mp c d) (bindM (on_world (run_inv e i)) f) Q"
proof (rule goesI)
  fix sw assume p: "placed L mp c d sw"
  obtain s w where sw: "sw = (s, w)" by (cases sw)
  have l: "laid_out L (fs w)" using p by (simp add: sw placed_def on_target_def)
  then obtain out f' where c: "ext_cmd e i (fs w) = (Exit 0 out, f')" "laid_out L f'"
    using assms(1) unfolding gentle_def by blast
  let ?w = "w\<lparr>events := events w @ [Cmd i], fs := f'\<rparr>"
  have "placed L mp c d (s, ?w)" using p c(2) by (simp add: sw placed_def on_target_def)
  then obtain v s' where "f (0, out) (s, ?w) = (Inr v, s')" "Q s'" using assms(2) goesE by blast
  then show "\<exists>v s'. bindM (on_world (run_inv e i)) f sw = (Inr v, s') \<and> Q s'"
    by (simp add: sw bindM_def on_world_def run_inv_def c(1))
qed

lemma extract_goes:
  assumes "workable e L mp" and "c ''stage3_tarball'' = Some (JStr t)" and "t \<noteq> []" and "mk_path t \<in> present L"
  shows "goes (placed L mp c d) (st_exec extract_step e) (placed L mp c d)"
proof -
  have gentle: "gentle L e" using assms(1) by (simp add: workable_def)
  have "goes (placed L mp c d) (extract_archive e (JStr t)) (placed L mp c d)"
    unfolding extract_archive_def
    by (simp add: assms(3), rule g_exists(2), use assms(4) in simp, simp, rule g_target, unfold run_cmd_def,
        rule succ_run_cmd_zero [OF gentle]) (simp add: g_ret)
  then show ?thesis
    unfolding extract_step_def step.simps by (intro g_cfg) (simp_all add: assms(2))
qed

text \<open>The rest of the base system: directories that are there and files that can be written.\<close>

lemma path_div_div [simp]: "path_div (path_div p x) y = path_div p (x @ y)"
  by (simp add: path_div_def)

lemma make_conf_goes:
  assumes "workable e L mp" and "set (ancestors (path_div (mk_path mp) [''etc'', ''portage''])) \<subseteq> dirs L"
    and "may_file e L (path_div (mk_path mp) [''etc'', ''portage'', ''make.conf''])"
    and "c ''hardware'' = Some (hardware_json ps us i ds)" and "c ''partitions'' = Some (partitions_json plan)"
  obtains v where "goes (placed L mp c d) (st_exec (make_conf_step march use) e) (placed L mp (c(''make_conf'' \<mapsto> v)) d)"
    and "value_ok ''make_conf'' v"
proof -
  obtain flags video platform where f: "detect_use_flags (hardware_json ps us i ds) = Inr (flags, video, platform)"
    using use_flags_total by (metis prod.exhaust)
  define conf where "conf cf fl vd pl = JObj [(''cflags'', JStr cf), (''use'', JList (map JStr fl)), (''video_cards'', JStr vd),
      (''grub_platform'', JStr pl), (''jobs'', JInt (int (cpus e)))]" for cf fl vd pl
  have conf_ok: "value_ok ''make_conf'' (conf cf fl vd pl)" for cf fl vd pl
    unfolding conf_def by (rule value_okI(4) [unfolded make_conf_json_def])
  have wr: "goes (placed L mp c d) (write_make_conf e cf fl vd pl) (placed L mp (c(''make_conf'' \<mapsto> conf cf fl vd pl)) d)" for cf fl vd pl
    unfolding write_make_conf_def Let_def conf_def [symmetric]
    by (rule g_target, unfold path_div_div append_Cons append_Nil)
      (intro g_seq g_world succ_mkdir succ_write assms g_seq_set g_seq_Nil)
  show ?thesis
    by (rule that [OF _ conf_ok], unfold make_conf_step_def step.simps, rule g_cfg, simp, rule g_cfg, simp,
        unfold assms(4,5) option.case f liftR_Inr prod.case partition_fields) (rule wr)
qed

lemma chroot_init_goes:
  assumes "workable e L mp" and "mk_path ''/etc/resolv.conf'' \<in> texts L"
    and "may_file e L (path_div (mk_path mp) [''etc'', ''resolv.conf''])"
    and "\<forall>x \<in> set portage_dirs. set (ancestors (path_div (mk_path mp) [''etc'', ''portage'', x])) \<subseteq> dirs L"
  shows "goes (placed L mp c d) (st_exec chroot_init_step e) (placed L mp c d)"
  unfolding chroot_init_step_def step.simps
  by (rule g_target, rule g_exists(1))
    (intro g_seq g_seq_same [of _ "mapM f xs" for f xs] hoare_mapM g_when g_world succ_copy2 succ_mkdir assms(2,3) g_seq_Nil,
      use assms(4) in blast)

lemma portage_sync_goes:
  assumes "workable e L mp" and "\<forall>x \<in> set BIND_MOUNTS. set (ancestors (sub_path (mk_path mp) (fst x))) \<subseteq> dirs L"
  shows "goes (placed L mp c d) (st_exec portage_sync_step e) (placed L mp c d)"
  unfolding portage_sync_step_def step.simps
  by (rule g_target, intro g_world succ_chroot_context succ_chroot_run) (use assms in \<open>simp_all add: workable_def\<close>)

definition zone_file :: "path \<Rightarrow> str \<Rightarrow> path" where
  "zone_file mp tz = path_join (path_div mp [''usr'', ''share'', ''zoneinfo'']) (mk_path tz)"

lemma timezone_goes:
  assumes "workable e L mp" and "setting c ''timezone'' (JStr tz0) = JStr tz" and "zone_file (mk_path mp) tz \<in> texts L"
    and "may_file e L (path_div (mk_path mp) [''etc'', ''timezone''])"
    and "may_file e L (path_div (mk_path mp) [''etc'', ''localtime''])"
  shows "goes (placed L mp c d) (st_exec (timezone_step tz0) e) (placed L mp (c(''timezone'' \<mapsto> JStr tz)) d)"
  unfolding timezone_step_def step.simps
  by (rule g_target, rule g_cfg, simp, unfold assms(2) set_timezone_def Let_def zone_file_def [symmetric],
      rule t_text, rule g_exists(2), use assms(3) in simp, simp del: seqM.simps)
    (intro g_seq g_world succ_write succ_copy2 assms g_seq_set g_seq_Nil)

lemma locale_goes:
  assumes "workable e L mp" and "setting c ''locale'' (JStr loc0) = JStr loc" and "words loc \<noteq> []"
    and "path_div (mk_path mp) [''etc'', ''locale.gen''] \<in> texts L"
    and "may_file e L (path_div (mk_path mp) [''etc'', ''locale.gen''])"
    and "may_file e L (path_div (mk_path mp) [''etc'', ''locale.conf''])"
    and "\<forall>x \<in> set BIND_MOUNTS. set (ancestors (sub_path (mk_path mp) (fst x))) \<subseteq> dirs L"
  shows "goes (placed L mp c d) (st_exec (locale_step loc0) e) (placed L mp (c(''locale'' \<mapsto> JStr loc)) d)"
proof -
  obtain lang rest where w: "words loc = lang # rest" using assms(3) by (cases "words loc") auto
  have gentle: "gentle L e" using assms(1) by (simp add: workable_def)
  show ?thesis
    unfolding locale_step_def step.simps
    by (rule g_target, rule g_cfg, simp, unfold assms(2) set_locale_def Let_def,
        rule t_text, rule g_exists(2), use assms(4) in simp, unfold if_True w list.case)
      (intro g_bind_world g_then g_when g_seq g_world succ_read succ_append succ_write succ_chroot_context succ_chroot_run
        gentle assms g_seq_set g_seq_Nil)
qed

text \<open>The kernel. The tree and its Kconfig files must be readable in every state of the file system that fits the layout.\<close>

definition tree_readable :: "machine \<Rightarrow> layout \<Rightarrow> path \<Rightarrow> bool" where
  "tree_readable m L src \<longleftrightarrow> (\<forall>f. laid_out L f \<longrightarrow>
     (\<exists>db. build_db (m_tree m f src) empty_db = Inr db)
   \<and> load_kconfig (m_depth m) \<lparr>k_src = src, k_file = f, k_resolve = m_resolve m\<rparr> \<noteq> None)"

lemma fs_config_known: "r \<in> {''ext4'', ''btrfs'', ''xfs'', ''f2fs''} \<Longrightarrow> dget FS_CONFIG (lower r) \<noteq> None"
proof -
  have "\<forall>r \<in> set [''ext4'', ''btrfs'', ''xfs'', ''f2fs'']. dget FS_CONFIG (lower r) \<noteq> None" by code_simp
  then show "r \<in> {''ext4'', ''btrfs'', ''xfs'', ''f2fs''} \<Longrightarrow> dget FS_CONFIG (lower r) \<noteq> None" by auto
qed

lemma boot_path_placed:
  assumes "placed L mp c d (s, w)" and "c ''partitions'' = Some (partitions_json plan)" and "c ''disk'' = Some (JStr disk)"
    and "c ''root_fs'' = Some (JStr r)"
  shows "\<exists>b. boot_path_of s = Inr b \<and> bp_root_fs b = r"
proof -
  have "jget (partitions_json plan) ''root'' v = Inr (JStr (root_part plan))" for v
    by (simp add: partitions_json_def dget_default_def)
  then show ?thesis
    using placedD(3) [OF assms(1)] assms(2-4) by (simp add: boot_path_of_def Let_def bindR_def)
qed

lemma configure_goes:
  assumes "workable e L mp" and "tree_readable m L src" and "may_file e L (path_div src [''.config''])"
    and "c ''hardware'' = Some (hardware_json ps us i ds)" and "c ''partitions'' = Some (partitions_json plan)"
    and "c ''disk'' = Some (JStr disk)" and "c ''root_fs'' = Some (JStr r)" and "r \<in> {''ext4'', ''btrfs'', ''xfs'', ''f2fs''}"
  shows "goes (placed L mp c d) (configure_kernel m e None v src) (placed L mp (c(''kernel_src'' \<mapsto> JStr (str_path src))) d)"
  unfolding configure_kernel_def
proof (rule g_getM, goal_cases)
  case (1 s w)
  have gentle: "gentle L e" using assms(1) by (simp add: workable_def)
  obtain db where db: "build_db (m_tree m (fs w) src) empty_db = Inr db"
    using assms(2) placedD(1) [OF 1] by (auto simp: tree_readable_def)
  show ?case
    unfolding prod.case
  proof (rule g_bind_world, simp add: build_source_index_def succ_ret, unfold db liftR_Inr, rule g_cfg, simp,
      unfold assms(4) option.case, rule g_getM, goal_cases)
    case (1 idx s w)
    obtain kdb where kdb: "load_kdb m src w = Inr kdb"
      using assms(2) placedD(1) [OF 1] by (auto simp: tree_readable_def load_kdb_def)
    obtain symbols where "wanted_symbols idx db kdb (hardware_json ps us i ds) = Inr (symbols, has_acpi i)"
      using wanted_total by blast
    then have wanted: "bindR (load_kdb m src w) (\<lambda>kdb. wanted_symbols idx db kdb (hardware_json ps us i ds)) = Inr (symbols, has_acpi i)"
      by (simp add: kdb bindR_def)
    show ?case
      unfolding prod.case wanted liftR_Inr
    proof (rule g_getM, goal_cases)
      case (1 s w)
      obtain b where b: "boot_path_of s = Inr b" "bp_root_fs b = r" using boot_path_placed [OF 1 assms(5-7)] by blast
      obtain g where "kernel_generator symbols (has_acpi i) v b = Inr g"
        using kernel_generator_total fs_config_known [OF assms(8)] b(2) by blast
      then have gen: "bindR (boot_path_of s) (kernel_generator symbols (has_acpi i) v) = Inr g" by (simp add: b bindR_def)
      show ?case
        unfolding prod.case gen liftR_Inr
        by (intro g_seq g_world succ_save_config succ_make gentle assms(1,3) g_seq_set)
          (rule hoare_seq_Nil, simp add: placed_def)
    qed
  qed
qed

lemma kernel_dir_goes:
  "src = Some k \<and> k \<noteq> [] \<or> c ''kernel_src'' = Some (JStr k) \<and> \<not> given src \<Longrightarrow>
    goes (placed L mp c d) (f (mk_path k)) Q \<Longrightarrow> goes (placed L mp c d) (bindM (kernel_dir src) f) Q"
proof (rule goesI)
  fix sw assume k: "src = Some k \<and> k \<noteq> [] \<or> c ''kernel_src'' = Some (JStr k) \<and> \<not> given src"
    and f: "goes (placed L mp c d) (f (mk_path k)) Q" and p: "placed L mp c d sw"
  obtain s w where sw: "sw = (s, w)" by (cases sw)
  have "kernel_dir src sw = (Inr (mk_path k), sw)"
    using k placedD(3) [OF p [unfolded sw], of "''kernel_src''" "JStr []"]
    by (auto simp: sw kernel_dir_def given_def cfg_def getM_def bindM_def ret_def liftR_def)
  then show "\<exists>v s'. bindM (kernel_dir src) f sw = (Inr v, s') \<and> Q s'"
    using goesE [OF f p] by (metis bindM_Inr)
qed

lemma kernel_config_goes:
  assumes "workable e L mp" and "k \<noteq> []" and "mk_path k \<in> dirs L" and "\<not> given cache_dir"
    and "tree_readable m L (mk_path k)" and "may_file e L (path_div (mk_path k) [''.config''])"
    and "c ''hardware'' = Some (hardware_json ps us i ds)" and "c ''partitions'' = Some (partitions_json plan)"
    and "c ''disk'' = Some (JStr disk)" and "c ''root_fs'' = Some (JStr r)" and "r \<in> {''ext4'', ''btrfs'', ''xfs'', ''f2fs''}"
  shows "goes (placed L mp c d) (st_exec (kernel_config_step m (Some k) cache_dir v) e)
    (placed L mp (c(''kernel_src'' \<mapsto> JStr (str_path (mk_path k)))) d)"
proof -
  have conf: "goes (placed L mp c d) (configure_kernel m e None v (mk_path k)) (placed L mp (c(''kernel_src'' \<mapsto> JStr (str_path (mk_path k)))) d)"
    by (rule configure_goes [OF assms(1,5-11)])
  have cache: "(cache_dir \<noteq> None \<and> cache_dir \<noteq> Some []) = False" using assms(4) by (auto simp: given_def)
  show ?thesis
    unfolding kernel_config_step_def step.simps cache if_False
    by (intro kernel_dir_goes [of "Some k" k] g_exists(3) [OF assms(3)]) (simp_all add: assms(2) conf)
qed

lemma kernel_compile_goes:
  assumes "workable e L mp" and "c ''kernel_src'' = Some (JStr k)" and "mk_path k \<in> dirs L"
  shows "goes (placed L mp c d) (st_exec kernel_compile_step e) (placed L mp c d)"
  unfolding kernel_compile_step_def step.simps
  by (rule kernel_dir_goes, use assms(2) in \<open>simp add: given_def\<close>, rule g_exists(3) [OF assms(3)], simp,
      rule succ_run_cmd_zero) (use assms(1) g_ret in \<open>simp_all add: workable_def\<close>)

lemma kernel_install_goes:
  assumes "workable e L mp" and "c ''kernel_src'' = Some (JStr k)" and "c ''boot_dir'' = Some (JStr b)"
    and "set (ancestors (mk_path b)) \<subseteq> dirs L"
  shows "goes (placed L mp c d) (st_exec kernel_install_step e) (placed L mp c d)"
proof -
  have gentle: "gentle L e" using assms(1) by (simp add: workable_def)
  show ?thesis
    unfolding kernel_install_step_def step.simps
    by (rule kernel_dir_goes, use assms(2) in \<open>simp add: given_def\<close>, rule g_target, rule g_then(1),
        rule g_world [OF succ_check_inv [OF gentle]], rule g_cfg, simp, simp add: assms(3) del: seqM.simps)
      (intro g_seq g_world succ_mkdir succ_make gentle assms g_seq_Nil)
qed

text \<open>The last steps.\<close>

lemma device_goes:
  "gentle L e \<Longrightarrow> (\<And>u. goes (placed L mp c d) (f u) Q) \<Longrightarrow> goes (placed L mp c d) (bindM (device_uuid e (JStr x)) f) Q"
  unfolding device_uuid_def as_text_str liftR_Inr by (rule g_bind_world [OF succ_uuid])

lemma fstab_goes:
  assumes "workable e L mp" and "c ''partitions'' = Some (partitions_json plan)" and "c ''root_fs'' = Some (JStr r)"
    and "may_file e L (path_div (mk_path mp) [''etc'', ''fstab''])"
  shows "goes (placed L mp c d) (st_exec fstab_step e) (placed L mp c d)"
proof -
  have gentle: "gentle L e" using assms(1) by (simp add: workable_def)
  have swap: "goes (placed L mp c d) (if truthy (JStr x) then bindM (device_uuid e (JStr x)) (\<lambda>u. ret (Some u)) else ret None)
      (placed L mp c d)" for x
    by (simp add: g_ret device_goes gentle)
  show ?thesis
    unfolding fstab_step_def step.simps
    by (rule g_cfg, simp, rule g_target, rule g_cfg, simp, unfold assms(2,3) option.case partition_fields liftR_Inr)
      (intro device_goes gentle g_bind [OF swap] g_world succ_write assms(4))
qed

lemma hostname_goes:
  assumes "workable e L mp" and "setting c ''hostname'' (JStr name0) = JStr name" and "path_div (mk_path mp) [''etc'', ''hosts''] \<in> texts L"
    and "may_file e L (path_div (mk_path mp) [''etc'', ''hosts''])" and "may_file e L (path_div (mk_path mp) [''etc'', ''hostname''])"
  shows "goes (placed L mp c d) (st_exec (hostname_step name0) e) (placed L mp (c(''hostname'' \<mapsto> JStr name)) d)"
  unfolding hostname_step_def step.simps
  by (rule g_target, rule g_cfg, simp, unfold assms(2) set_hostname_def Let_def, rule t_text, rule g_then(1),
      rule g_world [OF succ_write [OF assms(5)]], rule g_exists(2), use assms(3) in simp, unfold if_True)
    (intro g_bind_world succ_read g_seq g_when g_world succ_append assms g_seq_set g_seq_Nil)

lemma root_password_goes:
  assumes "c ''root_password_hash'' = None"
  shows "goes (placed L mp c d) (st_exec (root_password_step None) e) (placed L mp c d)"
  unfolding root_password_step_def step.simps
  by (rule g_target, simp, rule g_cfg, simp) (simp add: assms whenM_def g_ret)

lemma bootloader_goes:
  assumes "workable e L mp" and "c ''partitions'' = Some (partitions_json plan)" and "c ''disk'' = Some (JStr disk)" and "disk \<noteq> []"
    and "c ''make_conf'' = Some v" and "value_ok ''make_conf'' v"
    and "set (ancestors (path_div (mk_path mp) [''etc'', ''default''])) \<subseteq> dirs L"
    and "may_file e L (path_div (mk_path mp) [''etc'', ''default'', ''grub''])"
    and "\<forall>x \<in> set BIND_MOUNTS. set (ancestors (sub_path (mk_path mp) (fst x))) \<subseteq> dirs L"
  shows "goes (placed L mp c d) (st_exec bootloader_step e) (placed L mp c d)"
proof -
  have gentle: "gentle L e" using assms(1) by (simp add: workable_def)
  obtain pl where pl: "jget v ''grub_platform'' (JStr ''pc'') = Inr pl"
    using assms(6) by (rule value_okE) (simp add: make_conf_json_def)
  show ?thesis
    unfolding bootloader_step_def step.simps
    by (rule g_cfg, simp, rule g_target, rule g_cfg, simp, unfold assms(2,3) option.case partition_fields liftR_Inr, rule g_cfg, simp,
        unfold assms(5) option.case pl liftR_Inr, simp add: assms(4) del: seqM.simps)
      (intro g_seq g_world succ_mkdir succ_write succ_chroot_context succ_install_grub gentle assms g_seq_Nil)
qed

lemma link_goes:
  assumes "path_parent p \<in> dirs L" and "p \<notin> dirs L \<union> free L \<union> texts L \<union> dom (fixed L)" and "\<And>f. may_write e f p"
    and "goes (placed L mp c d) (seqM ms) Q"
  shows "goes (placed L mp c d) (bindM (existsM p) (\<lambda>linked. seqM (whenM (tpl \<and> \<not> linked) (on_world (symlink_to e p t)) # ms))) Q"
proof (rule goesI)
  fix sw assume i: "placed L mp c d sw"
  obtain s w where sw: "sw = (s, w)" by (cases sw)
  have "\<exists>w'. whenM (tpl \<and> \<not> exists_at w p) (on_world (symlink_to e p t)) (s, w) = (Inr (), (s, w')) \<and> placed L mp c d (s, w')"
  proof (cases "tpl \<and> \<not> exists_at w p")
    case True
    then obtain w' where "symlink_to e p t w = (Inr (), w')" "laid_out L (fs w')"
      using succ_symlink [OF assms(1-3), of w t] placedD(1) [OF i [unfolded sw]] by (auto simp: exists_at_def)
    with True i show ?thesis by (auto simp: sw whenM_def on_world_def placed_def on_target_def)
  next
    case False
    show ?thesis unfolding whenM_def if_not_P [OF False] using i by (simp add: sw ret_def)
  qed
  then obtain w' where w': "whenM (tpl \<and> \<not> exists_at w p) (on_world (symlink_to e p t)) (s, w) = (Inr (), (s, w'))"
    "placed L mp c d (s, w')" by blast
  from assms(4) w'(2) obtain v s' where "seqM ms (s, w') = (Inr v, s')" "Q s'" by (rule goesE)
  with w'(1) show "\<exists>v s'. bindM (existsM p) (\<lambda>linked. seqM (whenM (tpl \<and> \<not> linked) (on_world (symlink_to e p t)) # ms)) sw
      = (Inr v, s') \<and> Q s'"
    by (simp add: sw existsM_def getM_def bindM_def thenM_apply)
qed

definition link_of :: "path \<Rightarrow> str \<Rightarrow> path" where
  "link_of mp iface = path_join (path_div mp [''etc'', ''init.d'']) (mk_path (''net.'' @ iface))"

lemma network_goes:
  assumes "workable e L mp" and "c ''network_iface'' = None" and "c ''network_dhcp'' = None" and "c ''network_ip'' = None"
    and "c ''network_gateway'' = None"
    and "may_file e L (path_div (mk_path mp) [''etc'', ''conf.d'', ''net''])"
    and "path_parent (link_of (mk_path mp) iface) \<in> dirs L"
    and "link_of (mk_path mp) iface \<notin> dirs L \<union> free L \<union> texts L \<union> dom (fixed L)" and "\<And>f. may_write e f (link_of (mk_path mp) iface)"
    and "\<forall>x \<in> set BIND_MOUNTS. set (ancestors (sub_path (mk_path mp) (fst x))) \<subseteq> dirs L"
  shows "goes (placed L mp c d) (st_exec (network_step iface dhcp) e) (placed L mp c d)"
proof -
  have gentle: "gentle L e" using assms(1) by (simp add: workable_def)
  have static: "goes (placed L mp c d) (if truthy (JBool dhcp) then ret None
               else bindM (cfg ''network_ip'' (JStr ip)) (\<lambda>ip. bindM (cfg ''network_gateway'' (JStr gw)) (\<lambda>gw. ret (Some (fmt ip, fmt gw)))))
      (placed L mp c d)" for ip gw
    by (intro hoare_if g_ret g_cfg) simp_all
  show ?thesis
    unfolding network_step_def step.simps Let_def
    by (rule g_target, rule g_cfg, simp, unfold assms(2) option.case, rule g_cfg, simp, unfold assms(3) option.case, rule g_bind [OF static],
        unfold fmt_str link_of_def [symmetric], rule g_then(1), rule g_world [OF succ_write [OF assms(6)]],
        rule g_exists(1), rule link_goes [OF assms(7-9)])
      (intro g_seq g_world succ_chroot_context succ_chroot_run gentle assms(10) g_seq_Nil)
qed

subsection \<open>The runner\<close>

lemma g_marks:
  assumes "workable e L mp"
  shows "goes (placed L mp c d) (mark_started e n) (placed L mp c d)"
    and "n \<notin> set d \<Longrightarrow> goes (placed L mp c d) (mark_done e n) (placed L mp c (d @ [n]))"
proof -
  show "goes (placed L mp c d) (mark_started e n) (placed L mp c d)"
    unfolding mark_started_def by (intro g_seq_same g_upd_state g_append_log g_save assms g_seq_Nil) simp_all
  show "goes (placed L mp c d) (mark_done e n) (placed L mp c (d @ [n]))" if "n \<notin> set d"
    unfolding mark_done_def
    by (rule hoare_seq_Cons [OF g_upd_state [where d' = "d @ [n]"]])
      (use that in \<open>auto intro!: g_seq_same g_append_log g_save assms g_seq_Nil simp del: seqM.simps\<close>)
qed

lemma g_step:
  assumes "goes (placed L mp c d) (st_exec stp e) (\<lambda>sw. \<exists>c'. X c' \<and> placed L' mp c' d sw)"
    and "workable e L mp" and "workable e L' mp" and "st_name stp \<notin> set d"
  shows "hoare (placed L mp c d) (run_step e stp) (\<lambda>_ _. False) (\<lambda>r sw. r \<and> (\<exists>c'. X c' \<and> placed L' mp c' (d @ [st_name stp]) sw))"
proof (rule hoareI)
  fix sw assume p: "placed L mp c d sw"
  let ?Q = "\<lambda>d sw. \<exists>c'. X c' \<and> placed L' mp c' d sw"
  have body: "goes (placed L mp c d) (as_step_error (st_exec stp e)) (?Q d)"
    by (rule goesI) (auto simp: as_step_error_def catchM_def elim!: goesE [OF assms(1)])
  have marked: "goes (?Q d) (mark_done e (st_name stp)) (?Q (d @ [st_name stp]))"
  proof (rule hoare_ex, rule goesI)
    fix c' sw assume "X c' \<and> placed L' mp c' d sw"
    then show "\<exists>v s'. mark_done e (st_name stp) sw = (Inr v, s') \<and> ?Q (d @ [st_name stp]) s'"
      using goesE [OF g_marks(2) [OF assms(3,4)]] by metis
  qed
  have "goes (placed L mp c d) (seqM [mark_started e (st_name stp), as_step_error (st_exec stp e), mark_done e (st_name stp)])
      (?Q (d @ [st_name stp]))"
    by (rule hoare_seq_Cons [OF g_marks(1) [OF assms(2)]], rule hoare_seq_Cons [OF body], rule hoare_seq_Cons [OF marked], rule g_seq_Nil)
  then obtain v sw' where "seqM [mark_started e (st_name stp), as_step_error (st_exec stp e), mark_done e (st_name stp)] sw = (Inr v, sw')"
    "?Q (d @ [st_name stp]) sw'" using p by (rule goesE)
  moreover have "\<not> is_done (fst sw) (st_name stp)" using p assms(4) by (simp add: placed_def is_done_def)
  ultimately show "case run_step e stp sw of (Inl x, s') \<Rightarrow> False
      | (Inr r, s') \<Rightarrow> r \<and> ?Q (d @ [st_name stp]) s'"
    by (cases sw) (simp add: run_step_def step_run_def)
qed

text \<open>
  A run of several steps, one after the other. Between two steps there is a configuration and a list of completed steps
  with a property that the first step has to turn into that of the rest.
\<close>

definition runs :: "env \<Rightarrow> step list \<Rightarrow> (sys \<Rightarrow> bool) \<Rightarrow> (sys \<Rightarrow> bool) \<Rightarrow> bool" where
  "runs e steps P Q \<longleftrightarrow> hoare P (run_all_steps e steps) (\<lambda>_ _. False) (\<lambda>r sw. r \<and> Q sw)"

definition held :: "layout \<Rightarrow> str \<Rightarrow> ((str \<rightharpoonup> json) \<Rightarrow> str list \<Rightarrow> bool) \<Rightarrow> sys \<Rightarrow> bool" where
  "held L mp P sw \<longleftrightarrow> (\<exists>c d. P c d \<and> placed L mp c d sw)"

lemma runs_Nil: "runs e [] P P"
  by (simp add: runs_def hoare_ret)

lemma runsE:
  assumes "runs e steps P Q" and "P sw"
  obtains sw' where "run_all_steps e steps sw = (Inr True, sw')" "Q sw'"
proof -
  obtain r sw' where m: "run_all_steps e steps sw = (r, sw')" by (cases "run_all_steps e steps sw")
  show ?thesis
  proof (cases r)
    case (Inl x)
    then show thesis using hoare_Inl [OF assms(1) [unfolded runs_def] assms(2)] m by blast
  next
    case (Inr b)
    have "b \<and> Q sw'" by (rule hoare_Inr [OF assms(1) [unfolded runs_def] assms(2)]) (simp add: m Inr)
    then show thesis using that m Inr by simp
  qed
qed

lemma runs_Cons:
  assumes "\<And>c d. P c d \<Longrightarrow> goes (placed L mp c d) (st_exec stp e) (\<lambda>sw. \<exists>c'. P' c' (d @ [st_name stp]) \<and> placed L' mp c' d sw)"
    and "workable e L mp" and "workable e L' mp" and "\<And>c d. P c d \<Longrightarrow> st_name stp \<notin> set d"
    and "runs e steps (held L' mp P') Q"
  shows "runs e (stp # steps) (held L mp P) Q"
  unfolding runs_def run_all_steps.simps
proof (rule hoare_bind)
  show "hoare (held L mp P) (run_step e stp) (\<lambda>_ _. False) (\<lambda>r sw. r \<and> held L' mp P' sw)"
  proof (rule hoareI)
    fix sw assume "held L mp P sw"
    then obtain c d where p: "P c d" "placed L mp c d sw" by (auto simp: held_def)
    show "case run_step e stp sw of (Inl x, s') \<Rightarrow> False | (Inr r, s') \<Rightarrow> r \<and> held L' mp P' s'"
      using g_step [OF assms(1) [OF p(1)] assms(2-3) assms(4) [OF p(1)], unfolded hoare_def, rule_format, OF p(2)]
      by (auto simp: held_def split: prod.splits sum.splits)
  qed
  fix ok
  show "hoare (\<lambda>sw. ok \<and> held L' mp P' sw) (if ok then run_all_steps e steps else ret False) (\<lambda>_ _. False) (\<lambda>r sw. r \<and> Q sw)"
    using assms(5) by (cases ok) (simp_all add: runs_def hoare_def)
qed

subsection \<open>Paths as text\<close>

text \<open>The record keeps paths as text; read back, they are the same paths.\<close>

definition plain_part :: "str \<Rightarrow> bool" where
  "plain_part c \<longleftrightarrow> c \<noteq> [] \<and> c \<noteq> ''.'' \<and> CHR ''/'' \<notin> set c"

definition plain_path :: "path \<Rightarrow> bool" where
  "plain_path p \<longleftrightarrow> proot p \<in> {[], ''/'', ''//''} \<and> (\<forall>c \<in> set (pparts p). plain_part c)"

lemma split_on_acc_append: "d \<notin> set x \<Longrightarrow> split_on_acc d cur (x @ d # s) = (cur @ x) # split_on_acc d [] s"
  by (induction x arbitrary: cur) auto

lemma split_on_join: "\<forall>c \<in> set cs. d \<notin> set c \<Longrightarrow> cs \<noteq> [] \<Longrightarrow> split_on d (join [d] cs) = cs"
  by (induction cs rule: induct_list012) (simp_all add: split_on_def split_on_acc_append split_on_absent)

lemma plain_parts_split:
  "\<forall>c \<in> set cs. plain_part c \<Longrightarrow> filter (\<lambda>c. c \<noteq> [] \<and> c \<noteq> ''.'') (split_on CHR ''/'' (join ''/'' cs)) = cs"
proof (cases "cs = []")
  case False
  assume c: "\<forall>c \<in> set cs. plain_part c"
  then have "split_on CHR ''/'' (join ''/'' cs) = cs" using False by (intro split_on_join) (simp_all add: plain_part_def)
  then show ?thesis using c by (simp add: plain_part_def filter_id_conv)
qed (simp add: split_on_def)

lemma plain_text_start: "\<forall>c \<in> set cs. plain_part c \<Longrightarrow> \<not> starts_with ''/'' (join ''/'' cs)"
  by (cases cs rule: remdups_adj.cases) (auto simp: plain_part_def starts_with_def prefix_def neq_Nil_conv)

lemma path_text:
  assumes "plain_path p"
  shows "mk_path (str_path p) = p"
proof -
  obtain r cs where p: "p = Path r cs" by (cases p)
  have c: "\<forall>c \<in> set cs. plain_part c" and r: "r \<in> {[], ''/'', ''//''}" using assms by (simp_all add: p plain_path_def)
  have s: "\<not> starts_with ''/'' (join ''/'' cs)" by (rule plain_text_start [OF c])
  then have "\<not> starts_with ''//'' (join ''/'' cs)" by (cases "join ''/'' cs") (simp_all add: starts_with_def)
  with s show ?thesis
    using r plain_parts_split [OF c] by (auto simp: p mk_path_def str_path_def split_on_def starts_with_def)
qed

lemma mk_path_plain: "plain_path (mk_path s)"
  by (auto simp: plain_path_def mk_path_def plain_part_def split_on_def dest: split_on_parts)

lemma sub_path_plain: "plain_path p \<Longrightarrow> plain_path (sub_path p s)"
  using mk_path_plain [of s] by (auto simp: sub_path_def path_join_def plain_path_def)

end
