(* ===== verification/Installs.thy ===== *)
theory Installs
  imports Completes TypedRuns
begin

text \<open>
  A whole installation succeeds: what it needs of the machine, the target, the command line and the network; what the
  configuration has to hold between the steps; and the run of the first stage, from any state that earlier runs may have left, put
  together from the steps.
\<close>

subsection \<open>What an installation needs\<close>

text \<open>The arguments given, the target's files and directories, and what is read from elsewhere.\<close>

definition arguments_ok :: "host \<Rightarrow> install_args \<Rightarrow> bool" where
  "arguments_ok h a \<longleftrightarrow> a_mountpoint a \<noteq> [] \<and> given (a_disk a) \<and> dev_names (h_blocks h) \<noteq> None
     \<and> mkfs_root (JStr (a_root_fs a)) \<noteq> None \<and> given (a_stage3_url a) \<and> words (a_locale a) \<noteq> []
     \<and> given (a_kernel_src a) \<and> \<not> given (a_cache_dir a)"

definition target_files :: "str list list" where
  "target_files = [[''etc'', ''portage'', ''make.conf''], [''etc'', ''resolv.conf''], [''etc'', ''timezone''], [''etc'', ''localtime''],
     [''etc'', ''locale.gen''], [''etc'', ''locale.conf''], [''etc'', ''fstab''], [''etc'', ''hosts''], [''etc'', ''hostname''],
     [''etc'', ''conf.d'', ''net''], [''etc'', ''default'', ''grub'']]"

definition target_dirs :: "str list list" where
  "target_dirs = [[''etc'', ''portage'', ''package.use''], [''etc'', ''portage'', ''package.accept_keywords''],
     [''etc'', ''portage'', ''package.mask''], [''etc'', ''portage''], [''etc'', ''default''], []]"

definition target_ready :: "env \<Rightarrow> layout \<Rightarrow> path \<Rightarrow> bool" where
  "target_ready e L mp \<longleftrightarrow> (\<forall>p \<in> set target_files. may_file e L (path_div mp p))
     \<and> (\<forall>p \<in> set target_dirs. set (ancestors (path_div mp p)) \<subseteq> dirs L)
     \<and> (\<forall>p \<in> set [[''etc'', ''locale.gen''], [''etc'', ''hosts'']]. path_div mp p \<in> texts L)
     \<and> (\<forall>x \<in> set BIND_MOUNTS. set (ancestors (sub_path mp (fst x))) \<subseteq> dirs L)
     \<and> (\<forall>u. set (ancestors (boot_dir_of mp u)) \<subseteq> dirs L)"

definition link_ready :: "env \<Rightarrow> layout \<Rightarrow> path \<Rightarrow> str \<Rightarrow> bool" where
  "link_ready e L mp iface \<longleftrightarrow> path_parent (link_of mp iface) \<in> dirs L \<and> (\<forall>f. may_write e f (link_of mp iface))
     \<and> link_of mp iface \<notin> dirs L \<union> free L \<union> texts L \<union> dom (fixed L)"

definition kernel_ready :: "env \<Rightarrow> machine \<Rightarrow> layout \<Rightarrow> path \<Rightarrow> bool" where
  "kernel_ready e m L src \<longleftrightarrow> src \<in> dirs L \<and> may_file e L (path_div src [''.config'']) \<and> tree_readable m L src"

definition fetch_ready :: "env \<Rightarrow> layout \<Rightarrow> str \<Rightarrow> bool" where
  "fetch_ready e L url \<longleftrightarrow> fetch_url e url \<noteq> None \<and> set (ancestors STAGE3_DIR) \<subseteq> dirs L \<and> may_file e L (archive_of url)
     \<and> present L = {} \<and> gentle L e"

text \<open>All of it, with the layout before the archive is there; the handover is that of the layout with the archive.\<close>

definition install_ready :: "env \<Rightarrow> host \<Rightarrow> install_args \<Rightarrow> layout \<Rightarrow> bool" where
  "install_ready e h a L \<longleftrightarrow>
     (let mp = mk_path (a_mountpoint a); M = with_file L (archive_of (the (a_stage3_url a)))
      in arguments_ok h a \<and> hardware_found (h_machine h) \<and> fetch_ready e L (the (a_stage3_url a)) \<and> target_ready e M mp
       \<and> kernel_ready e (h_machine h) M (mk_path (the (a_kernel_src a))) \<and> link_ready e M mp (a_iface a)
       \<and> zone_file mp (a_timezone a) \<in> texts L \<and> mk_path ''/etc/resolv.conf'' \<in> texts L
       \<and> handover_ready e M mp (h_source h))"

lemma target_readyD:
  assumes "target_ready e L mp"
  shows "p \<in> set target_files \<Longrightarrow> may_file e L (path_div mp p)"
    and "p \<in> set target_dirs \<Longrightarrow> set (ancestors (path_div mp p)) \<subseteq> dirs L"
    and "path_div mp [''etc'', ''locale.gen''] \<in> texts L" "path_div mp [''etc'', ''hosts''] \<in> texts L"
    and "\<forall>x \<in> set BIND_MOUNTS. set (ancestors (sub_path mp (fst x))) \<subseteq> dirs L"
    and "set (ancestors (boot_dir_of mp u)) \<subseteq> dirs L"
  using assms by (simp_all add: target_ready_def)

lemma step_names:
  "st_name (hardware_step m) = ''hardware_detect''" "st_name (partition_step b dk bs ss opt) = ''disk_select''"
  "st_name (format_step r) = ''format''" "st_name mount_step = ''mount''" "st_name (stage3_step u) = ''stage3_download''"
  "st_name extract_step = ''stage3_extract''" "st_name (make_conf_step march use) = ''makeconf''"
  "st_name chroot_init_step = ''chroot_init''" "st_name portage_sync_step = ''portage_sync''"
  "st_name (timezone_step tz) = ''timezone''" "st_name (locale_step l) = ''locale''"
  "st_name (kernel_config_step m k cd v) = ''kernel_config''" "st_name kernel_compile_step = ''kernel_compile''"
  "st_name kernel_install_step = ''kernel_install''" "st_name fstab_step = ''fstab''" "st_name (hostname_step n) = ''hostname''"
  "st_name (root_password_step pw) = ''root_password''" "st_name (network_step i dh) = ''network''"
  "st_name bootloader_step = ''bootloader''"
  by (simp_all add: step_defs)

subsection \<open>The configuration between the steps\<close>

text \<open>A value that the steps still to come can work with.\<close>

definition usable :: "install_args \<Rightarrow> layout \<Rightarrow> str \<Rightarrow> json \<Rightarrow> bool" where
  "usable a M k v \<longleftrightarrow> (\<forall>t. v = JStr t \<longrightarrow>
       (k = ''disk'' \<longrightarrow> t \<noteq> []) \<and> (k = ''root_fs'' \<longrightarrow> mkfs_root (JStr t) \<noteq> None)
     \<and> (k = ''boot_dir'' \<longrightarrow> set (ancestors (mk_path t)) \<subseteq> dirs M)
     \<and> (k = ''stage3_tarball'' \<longrightarrow> t \<noteq> [] \<and> mk_path t \<in> present M) \<and> (k = ''kernel_src'' \<longrightarrow> mk_path t \<in> dirs M)
     \<and> (k = ''timezone'' \<longrightarrow> zone_file (mk_path (a_mountpoint a)) t \<in> texts M) \<and> (k = ''locale'' \<longrightarrow> words t \<noteq> []))"

definition fits :: "install_args \<Rightarrow> layout \<Rightarrow> (str \<rightharpoonup> json) \<Rightarrow> bool" where
  "fits a M c \<longleftrightarrow> (\<forall>k v. k \<noteq> ''kernel_config_symbols'' \<longrightarrow> c k = Some v \<longrightarrow> value_ok k v \<and> usable a M k v)"

definition left :: "(str \<rightharpoonup> json) \<Rightarrow> str list \<Rightarrow> bool" where
  "left c ns \<longleftrightarrow> (\<forall>n \<in> set ns. \<forall>k \<in> set (keys_of n). k = ''kernel_config_symbols'' \<or> c k \<noteq> None)"

lemma fits_upd: "fits a M c \<Longrightarrow> value_ok k v \<Longrightarrow> usable a M k v \<Longrightarrow> fits a M (c(k \<mapsto> v))"
  by (simp add: fits_def)

lemma fits_none: "fits a M c \<Longrightarrow> (\<And>x. \<not> value_ok k x) \<Longrightarrow> k \<noteq> ''kernel_config_symbols'' \<Longrightarrow> c k = None"
  unfolding fits_def by (cases "c k") blast+

lemma setting_text:
  assumes "fits a M c" and "k \<in> set text_keys" and "usable a M k (JStr t0)"
  obtains t where "setting c k (JStr t0) = JStr t" "usable a M k (JStr t)"
proof (cases "c k")
  case None
  then show ?thesis using that assms(3) by simp
next
  case (Some v)
  have "k \<noteq> ''kernel_config_symbols''" using assms(2) by (auto simp: text_keys_def)
  with assms(1) Some have v: "value_ok k v" "usable a M k v" by (simp_all add: fits_def)
  obtain t where "v = JStr t" by (rule value_okE(1) [OF v(1) assms(2)])
  with v(2) Some show ?thesis by (intro that) simp_all
qed

lemma left_has:
  assumes "fits a M c" and "left c ns" and "n \<in> set ns" and "k \<in> set (keys_of n)" and "k \<noteq> ''kernel_config_symbols''"
  shows "\<exists>v. c k = Some v \<and> value_ok k v \<and> usable a M k v"
proof -
  have "c k \<noteq> None" using assms(2-5) by (auto simp: left_def)
  then obtain v where "c k = Some v" by blast
  with assms(1,5) show ?thesis by (simp add: fits_def)
qed

lemma left_text:
  assumes "fits a M c" and "left c ns" and "n \<in> set ns" and "k \<in> set (keys_of n)" and "k \<in> set text_keys"
  obtains t where "c k = Some (JStr t)" "usable a M k (JStr t)"
proof -
  have "k \<noteq> ''kernel_config_symbols''" using assms(5) by (auto simp: text_keys_def)
  then obtain v where v: "c k = Some v" "value_ok k v" "usable a M k v" using left_has [OF assms(1-4)] by blast
  obtain t where "v = JStr t" by (rule value_okE(1) [OF v(2) assms(5)])
  with v show ?thesis by (intro that) simp_all
qed

lemma left_known:
  assumes "fits a M c" and "left c ns"
  shows "''hardware_detect'' \<in> set ns \<Longrightarrow> \<exists>ps us i ds. c ''hardware'' = Some (hardware_json ps us i ds)"
    and "''disk_select'' \<in> set ns \<Longrightarrow> \<exists>plan. c ''partitions'' = Some (partitions_json plan)"
    and "''disk_select'' \<in> set ns \<Longrightarrow> \<exists>t. c ''disk'' = Some (JStr t) \<and> t \<noteq> []"
    and "''format'' \<in> set ns \<Longrightarrow> \<exists>t. c ''root_fs'' = Some (JStr t) \<and> mkfs_root (JStr t) \<noteq> None"
    and "''mount'' \<in> set ns \<Longrightarrow> \<exists>t. c ''boot_dir'' = Some (JStr t) \<and> set (ancestors (mk_path t)) \<subseteq> dirs M"
    and "''stage3_download'' \<in> set ns \<Longrightarrow> \<exists>t. c ''stage3_tarball'' = Some (JStr t) \<and> t \<noteq> [] \<and> mk_path t \<in> present M"
    and "''makeconf'' \<in> set ns \<Longrightarrow> \<exists>v. c ''make_conf'' = Some v \<and> value_ok ''make_conf'' v"
    and "''kernel_config'' \<in> set ns \<Longrightarrow> \<exists>t. c ''kernel_src'' = Some (JStr t) \<and> mk_path t \<in> dirs M"
proof -
  note txt_of = left_text [OF assms] and has = left_has [OF assms]
  show "''hardware_detect'' \<in> set ns \<Longrightarrow> \<exists>ps us i ds. c ''hardware'' = Some (hardware_json ps us i ds)"
    using has [of "''hardware_detect''" "''hardware''"] by (auto elim!: value_okE(3))
  show "''disk_select'' \<in> set ns \<Longrightarrow> \<exists>plan. c ''partitions'' = Some (partitions_json plan)"
    using has [of "''disk_select''" "''partitions''"] by (auto elim!: value_okE(2))
  show "''disk_select'' \<in> set ns \<Longrightarrow> \<exists>t. c ''disk'' = Some (JStr t) \<and> t \<noteq> []"
    by (rule txt_of [of "''disk_select''" "''disk''"]) (simp_all add: text_keys_def usable_def)
  show "''format'' \<in> set ns \<Longrightarrow> \<exists>t. c ''root_fs'' = Some (JStr t) \<and> mkfs_root (JStr t) \<noteq> None"
    by (rule txt_of [of "''format''" "''root_fs''"]) (simp_all add: text_keys_def usable_def)
  show "''mount'' \<in> set ns \<Longrightarrow> \<exists>t. c ''boot_dir'' = Some (JStr t) \<and> set (ancestors (mk_path t)) \<subseteq> dirs M"
    by (rule txt_of [of "''mount''" "''boot_dir''"]) (simp_all add: text_keys_def usable_def)
  show "''stage3_download'' \<in> set ns \<Longrightarrow> \<exists>t. c ''stage3_tarball'' = Some (JStr t) \<and> t \<noteq> [] \<and> mk_path t \<in> present M"
    by (rule txt_of [of "''stage3_download''" "''stage3_tarball''"]) (simp_all add: text_keys_def usable_def)
  show "''makeconf'' \<in> set ns \<Longrightarrow> \<exists>v. c ''make_conf'' = Some v \<and> value_ok ''make_conf'' v"
    using has [of "''makeconf''" "''make_conf''"] by auto
  show "''kernel_config'' \<in> set ns \<Longrightarrow> \<exists>t. c ''kernel_src'' = Some (JStr t) \<and> mk_path t \<in> dirs M"
    by (rule txt_of [of "''kernel_config''" "''kernel_src''"]) (simp_all add: text_keys_def usable_def)
qed

subsection \<open>The steps, one after the other\<close>

definition with_archive :: "install_args \<Rightarrow> layout \<Rightarrow> layout" where
  "with_archive a L = with_file L (archive_of (the (a_stage3_url a)))"

text \<open>The archive is there from the fifth step on.\<close>

definition layout_at :: "install_args \<Rightarrow> layout \<Rightarrow> nat \<Rightarrow> layout" where
  "layout_at a L k = (if k < 5 then L else with_archive a L)"

definition fit_at :: "install_args \<Rightarrow> layout \<Rightarrow> nat \<Rightarrow> (str \<rightharpoonup> json) \<Rightarrow> bool" where
  "fit_at a L k c \<longleftrightarrow> fits a (with_archive a L) c \<and> left c (take k stage1_names)"

definition step_ok :: "env \<Rightarrow> host \<Rightarrow> install_args \<Rightarrow> layout \<Rightarrow> nat \<Rightarrow> bool" where
  "step_ok e h a L k \<longleftrightarrow> (\<forall>c d. fit_at a L k c \<longrightarrow>
     goes (placed (layout_at a L k) (a_mountpoint a) c d) (st_exec (build_stage1_steps h a ! k) e)
       (\<lambda>sw. \<exists>c'. fit_at a L (Suc k) c' \<and> placed (layout_at a L (Suc k)) (a_mountpoint a) c' d sw))"

lemma goes_some: "goes P m (placed N mp c' d) \<Longrightarrow> X c' \<Longrightarrow> goes P m (\<lambda>sw. \<exists>c'. X c' \<and> placed N mp c' d sw)"
  by (rule hoare_post, assumption) blast

text \<open>A step that writes nothing of its own, and one that writes a value.\<close>

lemma fit_same:
  "fit_at a L k c \<Longrightarrow> k < 21 \<Longrightarrow> \<forall>x \<in> set (keys_of (stage1_names ! k)). x = ''kernel_config_symbols'' \<or> c x \<noteq> None \<Longrightarrow> fit_at a L (Suc k) c"
  by (simp add: fit_at_def left_def take_Suc_conv_app_nth length_stage1)

lemma fit_set: "fit_at a L k c \<Longrightarrow> value_ok x v \<Longrightarrow> usable a (with_archive a L) x v \<Longrightarrow> fit_at a L k (c(x \<mapsto> v))"
  by (auto simp: fit_at_def left_def intro: fits_upd)

lemma install_readyD:
  assumes "install_ready e h a L"
  shows "hardware_found (h_machine h)" "fetch_ready e L (the (a_stage3_url a))"
    "target_ready e (with_archive a L) (mk_path (a_mountpoint a))"
    "kernel_ready e (h_machine h) (with_archive a L) (mk_path (the (a_kernel_src a)))"
    "link_ready e (with_archive a L) (mk_path (a_mountpoint a)) (a_iface a)"
    "zone_file (mk_path (a_mountpoint a)) (a_timezone a) \<in> texts (with_archive a L)" "mk_path ''/etc/resolv.conf'' \<in> texts (with_archive a L)"
    "handover_ready e (with_archive a L) (mk_path (a_mountpoint a)) (h_source h)"
    "workable e L (a_mountpoint a)" "workable e (with_archive a L) (a_mountpoint a)"
    "the (a_stage3_url a) \<noteq> []" "a_stage3_url a = Some (the (a_stage3_url a))" "the (a_kernel_src a) \<noteq> []"
    "a_kernel_src a = Some (the (a_kernel_src a))" "given (a_disk a)" "the (a_disk a) \<noteq> []" "\<not> given (a_cache_dir a)"
    "words (a_locale a) \<noteq> []" "dev_names (h_blocks h) \<noteq> None" "mkfs_root (JStr (a_root_fs a)) \<noteq> None" "a_mountpoint a \<noteq> []"
proof -
  let ?mp = "mk_path (a_mountpoint a)" and ?M = "with_archive a L"
  show r: "hardware_found (h_machine h)" "fetch_ready e L (the (a_stage3_url a))" "target_ready e ?M ?mp"
    "kernel_ready e (h_machine h) ?M (mk_path (the (a_kernel_src a)))" "link_ready e ?M ?mp (a_iface a)"
    "zone_file ?mp (a_timezone a) \<in> texts ?M" "mk_path ''/etc/resolv.conf'' \<in> texts ?M" "handover_ready e ?M ?mp (h_source h)"
    using assms by (simp_all add: install_ready_def with_archive_def Let_def)
  have "gentle ?M e" "gentle L e" using r(2,8) by (simp_all add: handover_ready_def fetch_ready_def)
  then show "workable e L (a_mountpoint a)" "workable e ?M (a_mountpoint a)"
    using r(8) by (simp_all add: workable_def handover_ready_def clear_of_def with_archive_def)
  have "arguments_ok h a" using assms by (simp add: install_ready_def Let_def)
  then show "the (a_stage3_url a) \<noteq> []" "a_stage3_url a = Some (the (a_stage3_url a))" "the (a_kernel_src a) \<noteq> []"
    "a_kernel_src a = Some (the (a_kernel_src a))" "given (a_disk a)" "the (a_disk a) \<noteq> []" "\<not> given (a_cache_dir a)"
    "words (a_locale a) \<noteq> []" "dev_names (h_blocks h) \<noteq> None" "mkfs_root (JStr (a_root_fs a)) \<noteq> None" "a_mountpoint a \<noteq> []"
    by (auto simp: arguments_ok_def given_def)
qed

lemma workable_at: "install_ready e h a L \<Longrightarrow> workable e (layout_at a L k) (a_mountpoint a)"
  by (simp add: layout_at_def install_readyD)

lemma fit_known:
  assumes "fit_at a L k c"
  shows "1 \<le> k \<Longrightarrow> \<exists>ps us i ds. c ''hardware'' = Some (hardware_json ps us i ds)"
    and "2 \<le> k \<Longrightarrow> \<exists>plan. c ''partitions'' = Some (partitions_json plan)"
    and "2 \<le> k \<Longrightarrow> \<exists>t. c ''disk'' = Some (JStr t) \<and> t \<noteq> []"
    and "3 \<le> k \<Longrightarrow> \<exists>t. c ''root_fs'' = Some (JStr t) \<and> mkfs_root (JStr t) \<noteq> None"
    and "4 \<le> k \<Longrightarrow> \<exists>t. c ''boot_dir'' = Some (JStr t) \<and> set (ancestors (mk_path t)) \<subseteq> dirs L"
    and "5 \<le> k \<Longrightarrow> \<exists>t. c ''stage3_tarball'' = Some (JStr t) \<and> t \<noteq> [] \<and> mk_path t \<in> present (with_archive a L)"
    and "7 \<le> k \<Longrightarrow> \<exists>v. c ''make_conf'' = Some v \<and> value_ok ''make_conf'' v"
    and "12 \<le> k \<Longrightarrow> \<exists>t. c ''kernel_src'' = Some (JStr t) \<and> mk_path t \<in> dirs L"
proof -
  have in_take: "stage1_names ! i \<in> set (take k stage1_names)" if "Suc i \<le> k" "i < 21" for i
  proof -
    have "take k stage1_names ! i \<in> set (take k stage1_names)" using that by (intro nth_mem) (simp add: length_stage1)
    then show ?thesis using that(1) by simp
  qed
  have d: "dirs (with_archive a L) = dirs L" by (simp add: with_archive_def)
  note known = left_known [OF assms [unfolded fit_at_def, THEN conjunct1] assms [unfolded fit_at_def, THEN conjunct2], unfolded d]
  show "1 \<le> k \<Longrightarrow> \<exists>ps us i ds. c ''hardware'' = Some (hardware_json ps us i ds)"
    by (rule known(1)) (use in_take [of 0] in \<open>simp add: stage1_names_def\<close>)
  show "2 \<le> k \<Longrightarrow> \<exists>plan. c ''partitions'' = Some (partitions_json plan)"
    by (rule known(2)) (use in_take [of 1] in \<open>simp add: stage1_names_def\<close>)
  show "2 \<le> k \<Longrightarrow> \<exists>t. c ''disk'' = Some (JStr t) \<and> t \<noteq> []"
    by (rule known(3)) (use in_take [of 1] in \<open>simp add: stage1_names_def\<close>)
  show "3 \<le> k \<Longrightarrow> \<exists>t. c ''root_fs'' = Some (JStr t) \<and> mkfs_root (JStr t) \<noteq> None"
    by (rule known(4)) (use in_take [of 2] in \<open>simp add: stage1_names_def\<close>)
  show "4 \<le> k \<Longrightarrow> \<exists>t. c ''boot_dir'' = Some (JStr t) \<and> set (ancestors (mk_path t)) \<subseteq> dirs L"
    by (rule known(5)) (use in_take [of 3] in \<open>simp add: stage1_names_def\<close>)
  show "5 \<le> k \<Longrightarrow> \<exists>t. c ''stage3_tarball'' = Some (JStr t) \<and> t \<noteq> [] \<and> mk_path t \<in> present (with_archive a L)"
    by (rule known(6)) (use in_take [of 4] in \<open>simp add: stage1_names_def\<close>)
  show "7 \<le> k \<Longrightarrow> \<exists>v. c ''make_conf'' = Some v \<and> value_ok ''make_conf'' v"
    by (rule known(7)) (use in_take [of 6] in \<open>simp add: stage1_names_def\<close>)
  show "12 \<le> k \<Longrightarrow> \<exists>t. c ''kernel_src'' = Some (JStr t) \<and> mk_path t \<in> dirs L"
    by (rule known(8)) (use in_take [of 11] in \<open>simp add: stage1_names_def\<close>)
qed

lemma step_at:
  "build_stage1_steps h a ! 0 = hardware_step (h_machine h)"
  "build_stage1_steps h a ! 1 = partition_step (h_blocks h) (a_disk a) (a_boot_size a) (a_swap_size a) None"
  "build_stage1_steps h a ! 2 = format_step (a_root_fs a)" "build_stage1_steps h a ! 3 = mount_step"
  "build_stage1_steps h a ! 4 = stage3_step (a_stage3_url a)" "build_stage1_steps h a ! 5 = extract_step"
  "build_stage1_steps h a ! 6 = make_conf_step (a_march a) (a_use a)" "build_stage1_steps h a ! 7 = chroot_init_step"
  "build_stage1_steps h a ! 8 = portage_sync_step" "build_stage1_steps h a ! 9 = timezone_step (a_timezone a)"
  "build_stage1_steps h a ! 10 = locale_step (a_locale a)"
  "build_stage1_steps h a ! 11 = kernel_config_step (h_machine h) (a_kernel_src a) (a_cache_dir a) (a_driver_value a)"
  "build_stage1_steps h a ! 12 = kernel_compile_step" "build_stage1_steps h a ! 13 = kernel_install_step"
  "build_stage1_steps h a ! 14 = fstab_step" "build_stage1_steps h a ! 15 = hostname_step (a_hostname a)"
  "build_stage1_steps h a ! 16 = root_password_step None" "build_stage1_steps h a ! 17 = network_step (a_iface a) (\<not> a_static_ip a)"
  "build_stage1_steps h a ! 18 = bootloader_step"
  by (simp_all add: build_stage1_steps_def)

lemma step_okI:
  assumes "\<And>c d. fit_at a L k c \<Longrightarrow> \<exists>c'. goes (placed (layout_at a L k) (a_mountpoint a) c d) (st_exec (build_stage1_steps h a ! k) e)
      (placed (layout_at a L (Suc k)) (a_mountpoint a) c' d) \<and> fit_at a L (Suc k) c'"
  shows "step_ok e h a L k"
  unfolding step_ok_def
proof (intro allI impI)
  fix c d assume "fit_at a L k c"
  then obtain c' where "goes (placed (layout_at a L k) (a_mountpoint a) c d) (st_exec (build_stage1_steps h a ! k) e)
      (placed (layout_at a L (Suc k)) (a_mountpoint a) c' d)" "fit_at a L (Suc k) c'" using assms by blast
  then show "goes (placed (layout_at a L k) (a_mountpoint a) c d) (st_exec (build_stage1_steps h a ! k) e)
      (\<lambda>sw. \<exists>c'. fit_at a L (Suc k) c' \<and> placed (layout_at a L (Suc k)) (a_mountpoint a) c' d sw)" by (rule goes_some)
qed

text \<open>Steps that keep the configuration.\<close>

lemma step_ok_same:
  assumes "k < 21" and "k \<noteq> 4" and "keys_of (stage1_names ! k) = []"
    and "\<And>c d. fit_at a L k c \<Longrightarrow> goes (placed (layout_at a L k) (a_mountpoint a) c d) (st_exec (build_stage1_steps h a ! k) e)
      (placed (layout_at a L k) (a_mountpoint a) c d)"
  shows "step_ok e h a L k"
proof (rule step_okI, intro exI conjI)
  fix c d assume f: "fit_at a L k c"
  have "layout_at a L (Suc k) = layout_at a L k" using assms(2) by (simp add: layout_at_def)
  then show "goes (placed (layout_at a L k) (a_mountpoint a) c d) (st_exec (build_stage1_steps h a ! k) e)
      (placed (layout_at a L (Suc k)) (a_mountpoint a) c d)" using assms(4) [OF f] by simp
  show "fit_at a L (Suc k) c" by (rule fit_same [OF f assms(1)]) (simp add: assms(3))
qed

text \<open>Steps that set one key, and those that set it to the setting or the given text.\<close>

lemma step_ok_set:
  assumes "k < 21" and "k \<noteq> 4" and "\<forall>y \<in> set (keys_of (stage1_names ! k)). y = ''kernel_config_symbols'' \<or> y = x \<or> (\<forall>c. fit_at a L k c \<longrightarrow> c y \<noteq> None)"
    and "\<And>c d. fit_at a L k c \<Longrightarrow> \<exists>v. goes (placed (layout_at a L k) (a_mountpoint a) c d) (st_exec (build_stage1_steps h a ! k) e)
      (placed (layout_at a L k) (a_mountpoint a) (c(x \<mapsto> v)) d) \<and> value_ok x v \<and> usable a (with_archive a L) x v"
  shows "step_ok e h a L k"
proof (rule step_okI)
  fix c d assume f: "fit_at a L k c"
  then obtain v where v: "goes (placed (layout_at a L k) (a_mountpoint a) c d) (st_exec (build_stage1_steps h a ! k) e)
      (placed (layout_at a L k) (a_mountpoint a) (c(x \<mapsto> v)) d)" "value_ok x v" "usable a (with_archive a L) x v"
    using assms(4) by blast
  have "fit_at a L (Suc k) (c(x \<mapsto> v))"
    by (rule fit_same [OF fit_set [OF f v(2,3)] assms(1)]) (use assms(3) f in auto)
  moreover have "layout_at a L (Suc k) = layout_at a L k" using assms(2) by (simp add: layout_at_def)
  ultimately show "\<exists>c'. goes (placed (layout_at a L k) (a_mountpoint a) c d) (st_exec (build_stage1_steps h a ! k) e)
      (placed (layout_at a L (Suc k)) (a_mountpoint a) c' d) \<and> fit_at a L (Suc k) c'" using v(1) by auto
qed

lemma fit_setting:
  assumes "fit_at a L k c" and "x \<in> set text_keys" and "usable a (with_archive a L) x (JStr t0)"
  obtains t where "setting c x (JStr t0) = JStr t" "usable a (with_archive a L) x (JStr t)"
  using setting_text [OF _ assms(2,3)] assms(1) by (auto simp: fit_at_def)

lemma fit_none: "fit_at a L k c \<Longrightarrow> (\<And>v. \<not> value_ok x v) \<Longrightarrow> x \<noteq> ''kernel_config_symbols'' \<Longrightarrow> c x = None"
  unfolding fit_at_def by (rule fits_none) blast+

lemma never_set: "\<not> value_ok ''dtb_path'' v" "\<not> value_ok ''root_password_hash'' v" "\<not> value_ok ''network_iface'' v"
  "\<not> value_ok ''network_dhcp'' v" "\<not> value_ok ''network_ip'' v" "\<not> value_ok ''network_gateway'' v"
  by (simp_all add: value_ok_def text_keys_def)

subsection \<open>Every step succeeds\<close>

lemma disk_steps_ok:
  assumes "install_ready e h a L"
  shows "step_ok e h a L 0" "step_ok e h a L 1" "step_ok e h a L 2" "step_ok e h a L 3"
proof -
  note r = install_readyD [OF assms]
  have L: "layout_at a L k = L" if "k < 5" for k using that by (simp add: layout_at_def)
  have L1: "layout_at a L 1 = L" "layout_at a L (Suc 1) = L" by (simp_all add: layout_at_def)
  have dirs: "dirs (with_archive a L) = dirs L" by (simp add: with_archive_def)
  show "step_ok e h a L 0"
  proof (rule step_ok_set [where x = "''hardware''"])
    fix c d assume f: "fit_at a L 0 c"
    have none: "c ''dtb_path'' = None" by (rule fit_none [OF f never_set(1)]) simp
    obtain ps us i ds where "goes (placed L (a_mountpoint a) c d) (st_exec (hardware_step (h_machine h)) e)
        (placed L (a_mountpoint a) (c(''hardware'' \<mapsto> hardware_json ps us i ds)) d)"
      by (rule hardware_goes [where c = c, OF r(9,1) none])
    then show "\<exists>v. goes (placed (layout_at a L 0) (a_mountpoint a) c d) (st_exec (build_stage1_steps h a ! 0) e)
        (placed (layout_at a L 0) (a_mountpoint a) (c(''hardware'' \<mapsto> v)) d) \<and> value_ok ''hardware'' v
        \<and> usable a (with_archive a L) ''hardware'' v"
      unfolding step_at L [of 0, simplified] by (intro exI [of _ "hardware_json ps us i ds"]) (simp add: value_okI usable_def)
  qed (simp_all add: stage1_names_def)
  show "step_ok e h a L 1"
    unfolding step_ok_def
  proof (intro allI impI)
    fix c d assume f: "fit_at a L 1 c"
    have "fit_at a L (Suc 1) (c(''disk'' \<mapsto> JStr (the (a_disk a)), ''partitions'' \<mapsto> partitions_json plan))" for plan
      by (rule fit_same [OF fit_set [OF fit_set [OF f]]]) (use r(16) in \<open>simp_all add: written_values usable_def stage1_names_def\<close>)
    then show "goes (placed (layout_at a L 1) (a_mountpoint a) c d) (st_exec (build_stage1_steps h a ! 1) e)
        (\<lambda>sw. \<exists>c'. fit_at a L (Suc 1) c' \<and> placed (layout_at a L (Suc 1)) (a_mountpoint a) c' d sw)"
      unfolding step_at L1
      by (intro hoare_post [OF partition_goes [OF r(9,15,19)]]) blast
  qed
  show "step_ok e h a L 2"
  proof (rule step_ok_set [where x = "''root_fs''"])
    fix c d assume f: "fit_at a L 2 c"
    obtain plan where p: "c ''partitions'' = Some (partitions_json plan)" using fit_known(2) [OF f] by auto
    obtain t where t: "setting c ''root_fs'' (JStr (a_root_fs a)) = JStr t" "usable a (with_archive a L) ''root_fs'' (JStr t)"
      by (rule fit_setting [OF f, of "''root_fs''" "a_root_fs a"]) (use r(20) in \<open>simp_all add: text_keys_def usable_def\<close>)
    have "mkfs_root (JStr t) \<noteq> None" using t(2) by (simp add: usable_def)
    from format_goes [where c = c and d = d, OF r(9) this t(1) p] t(2)
    show "\<exists>v. goes (placed (layout_at a L 2) (a_mountpoint a) c d) (st_exec (build_stage1_steps h a ! 2) e)
        (placed (layout_at a L 2) (a_mountpoint a) (c(''root_fs'' \<mapsto> v)) d) \<and> value_ok ''root_fs'' v
        \<and> usable a (with_archive a L) ''root_fs'' v"
      unfolding step_at L [of 2, simplified] using written_values by blast
  qed (use fit_known(2) in \<open>fastforce simp: stage1_names_def\<close>)+
  show "step_ok e h a L 3"
  proof (rule step_ok_set [where x = "''boot_dir''"])
    fix c d assume f: "fit_at a L 3 c"
    obtain plan where p: "c ''partitions'' = Some (partitions_json plan)" using fit_known(2) [OF f] by auto
    let ?b = "boot_dir_of (mk_path (a_mountpoint a)) (plan_uefi plan)"
    have mp: "set (ancestors (mk_path (a_mountpoint a))) \<subseteq> dirs L" "set (ancestors ?b) \<subseteq> dirs L"
      using target_readyD(2) [OF r(3), of "[]"] target_readyD(6) [OF r(3)] by (simp_all add: dirs target_dirs_def path_div_def)
    have "mk_path (str_path ?b) = ?b" by (simp add: path_text boot_dir_of_def sub_path_plain mk_path_plain)
    then have "usable a (with_archive a L) ''boot_dir'' (JStr (str_path ?b))" using mp(2) by (simp add: usable_def dirs)
    with mount_goes [where c = c and d = d, OF r(9) mp p]
    show "\<exists>v. goes (placed (layout_at a L 3) (a_mountpoint a) c d) (st_exec (build_stage1_steps h a ! 3) e)
        (placed (layout_at a L 3) (a_mountpoint a) (c(''boot_dir'' \<mapsto> v)) d) \<and> value_ok ''boot_dir'' v
        \<and> usable a (with_archive a L) ''boot_dir'' v"
      unfolding step_at L [of 3, simplified] using written_values by blast
  qed (simp_all add: stage1_names_def)
qed

lemma archive_steps_ok:
  assumes "install_ready e h a L"
  shows "step_ok e h a L 4" "step_ok e h a L 5" "step_ok e h a L 6"
proof -
  note r = install_readyD [OF assms]
  let ?url = "the (a_stage3_url a)" and ?M = "with_archive a L" and ?mp = "a_mountpoint a"
  have M: "with_file L (archive_of ?url) = ?M" by (simp add: with_archive_def)
  have L: "layout_at a L 4 = L" "layout_at a L k = ?M" if "4 < k" for k using that by (simp_all add: layout_at_def)
  note f4 = r(2) [unfolded fetch_ready_def]
  have "plain_path (archive_of ?url)"
    unfolding archive_of_def by (rule sub_path_plain) (simp add: STAGE3_DIR_def plain_path_def plain_part_def)
  then have archive: "str_path (archive_of ?url) \<noteq> []" "mk_path (str_path (archive_of ?url)) \<in> present ?M"
    by (simp_all add: with_archive_def path_text)
      (simp add: archive_of_def sub_path_def path_join_def str_path_def STAGE3_DIR_def is_absolute_def)
  show "step_ok e h a L 4"
  proof (rule step_okI)
    fix c d assume f: "fit_at a L 4 c"
    let ?c = "c(''stage3_url'' \<mapsto> JStr ?url, ''stage3_tarball'' \<mapsto> JStr (str_path (archive_of ?url)))"
    obtain body where "fetch_url e ?url = Some body" using f4 by blast
    then have "goes (placed L ?mp c d) (st_exec (stage3_step (Some ?url)) e) (placed ?M ?mp ?c d)"
      using stage3_goes [of e L ?mp ?url body c d, unfolded M] r(9-11) f4 by blast
    moreover have "fit_at a L (Suc 4) ?c"
      by (rule fit_same [OF fit_set [OF fit_set [OF f]]]) (use archive in \<open>simp_all add: written_values usable_def stage1_names_def\<close>)
    ultimately show "\<exists>c'. goes (placed (layout_at a L 4) ?mp c d) (st_exec (build_stage1_steps h a ! 4) e)
        (placed (layout_at a L (Suc 4)) ?mp c' d) \<and> fit_at a L (Suc 4) c'"
      using r(12) L(1) [of 5] L(2) [of "Suc 4"] by (auto simp: step_at)
  qed
  show "step_ok e h a L 5"
  proof (rule step_ok_same)
    fix c d assume f: "fit_at a L 5 c"
    obtain t where "c ''stage3_tarball'' = Some (JStr t)" "t \<noteq> []" "mk_path t \<in> present ?M" using fit_known(6) [OF f] by auto
    then show "goes (placed (layout_at a L 5) ?mp c d) (st_exec (build_stage1_steps h a ! 5) e) (placed (layout_at a L 5) ?mp c d)"
      unfolding step_at L(2) [of 5, simplified] by (rule extract_goes [OF r(10)])
  qed (simp_all add: stage1_names_def keyless)
  show "step_ok e h a L 6"
  proof (rule step_ok_set [where x = "''make_conf''"])
    fix c d assume f: "fit_at a L 6 c"
    obtain ps us i ds plan where c: "c ''hardware'' = Some (hardware_json ps us i ds)" "c ''partitions'' = Some (partitions_json plan)"
      using fit_known(1,2) [OF f] by auto
    have conf: "set (ancestors (path_div (mk_path ?mp) [''etc'', ''portage''])) \<subseteq> dirs ?M"
      "may_file e ?M (path_div (mk_path ?mp) [''etc'', ''portage'', ''make.conf''])"
      by (rule target_readyD(2) [OF r(3)], simp add: target_dirs_def) (rule target_readyD(1) [OF r(3)], simp add: target_files_def)
    obtain v where "goes (placed ?M ?mp c d) (st_exec (make_conf_step (a_march a) (a_use a)) e) (placed ?M ?mp (c(''make_conf'' \<mapsto> v)) d)"
      "value_ok ''make_conf'' v"
      by (rule make_conf_goes [where c = c, OF r(10) conf c])
    then show "\<exists>v. goes (placed (layout_at a L 6) ?mp c d) (st_exec (build_stage1_steps h a ! 6) e)
        (placed (layout_at a L 6) ?mp (c(''make_conf'' \<mapsto> v)) d) \<and> value_ok ''make_conf'' v \<and> usable a ?M ''make_conf'' v"
      unfolding step_at L(2) [of 6, simplified] by (auto simp: usable_def)
  qed (simp_all add: stage1_names_def)
qed

lemma after_archive: "4 < k \<Longrightarrow> layout_at a L k = with_archive a L"
  by (simp add: layout_at_def)

lemma base_steps_ok:
  assumes "install_ready e h a L"
  shows "step_ok e h a L 7" "step_ok e h a L 8" "step_ok e h a L 9" "step_ok e h a L 10"
proof -
  note r = install_readyD [OF assms] and t = install_readyD(3) [OF assms]
  let ?M = "with_archive a L" and ?mp = "a_mountpoint a"
  have files: "p \<in> set target_files \<Longrightarrow> may_file e ?M (path_div (mk_path ?mp) p)" for p by (rule target_readyD(1) [OF t])
  have f: "may_file e ?M (path_div (mk_path ?mp) [''etc'', ''resolv.conf''])" "may_file e ?M (path_div (mk_path ?mp) [''etc'', ''timezone''])"
    "may_file e ?M (path_div (mk_path ?mp) [''etc'', ''localtime''])" "may_file e ?M (path_div (mk_path ?mp) [''etc'', ''locale.gen''])"
    "may_file e ?M (path_div (mk_path ?mp) [''etc'', ''locale.conf''])"
    by (rule files, simp add: target_files_def)+
  have g: "\<forall>x \<in> set portage_dirs. set (ancestors (path_div (mk_path ?mp) [''etc'', ''portage'', x])) \<subseteq> dirs ?M"
    using t by (simp add: target_ready_def target_dirs_def portage_dirs_def)
  show "step_ok e h a L 7"
    by (rule step_ok_same) (simp_all add: stage1_names_def keyless step_at after_archive chroot_init_goes [OF r(10,7) f(1) g])
  show "step_ok e h a L 8"
    by (rule step_ok_same)
      (simp_all add: stage1_names_def keyless step_at after_archive portage_sync_goes [OF r(10) target_readyD(5) [OF t]])
  show "step_ok e h a L 9"
  proof (rule step_ok_set [where x = "''timezone''"])
    fix c d assume c: "fit_at a L 9 c"
    obtain tz where tz: "setting c ''timezone'' (JStr (a_timezone a)) = JStr tz" "usable a ?M ''timezone'' (JStr tz)"
      by (rule fit_setting [OF c, of "''timezone''" "a_timezone a"]) (use r(6) in \<open>simp_all add: text_keys_def usable_def\<close>)
    then have "zone_file (mk_path ?mp) tz \<in> texts ?M" by (simp add: usable_def)
    from timezone_goes [where c = c and d = d, OF r(10) tz(1) this f(2,3)] tz(2)
    show "\<exists>v. goes (placed (layout_at a L 9) ?mp c d) (st_exec (build_stage1_steps h a ! 9) e)
        (placed (layout_at a L 9) ?mp (c(''timezone'' \<mapsto> v)) d) \<and> value_ok ''timezone'' v \<and> usable a ?M ''timezone'' v"
      unfolding step_at after_archive [of 9, simplified] using written_values by blast
  qed (simp_all add: stage1_names_def)
  show "step_ok e h a L 10"
  proof (rule step_ok_set [where x = "''locale''"])
    fix c d assume c: "fit_at a L 10 c"
    obtain l where l: "setting c ''locale'' (JStr (a_locale a)) = JStr l" "usable a ?M ''locale'' (JStr l)"
      by (rule fit_setting [OF c, of "''locale''" "a_locale a"]) (use r(18) in \<open>simp_all add: text_keys_def usable_def\<close>)
    then have "words l \<noteq> []" by (simp add: usable_def)
    from locale_goes [where c = c and d = d, OF r(10) l(1) this target_readyD(3) [OF t] f(4,5) target_readyD(5) [OF t]] l(2)
    show "\<exists>v. goes (placed (layout_at a L 10) ?mp c d) (st_exec (build_stage1_steps h a ! 10) e)
        (placed (layout_at a L 10) ?mp (c(''locale'' \<mapsto> v)) d) \<and> value_ok ''locale'' v \<and> usable a ?M ''locale'' v"
      unfolding step_at after_archive [of 10, simplified] using written_values by blast
  qed (simp_all add: stage1_names_def)
qed

lemma kernel_steps_ok:
  assumes "install_ready e h a L"
  shows "step_ok e h a L 11" "step_ok e h a L 12" "step_ok e h a L 13"
proof -
  note r = install_readyD [OF assms]
  let ?M = "with_archive a L" and ?mp = "a_mountpoint a" and ?k = "the (a_kernel_src a)"
  note k = r(4) [unfolded kernel_ready_def]
  have dirs: "dirs ?M = dirs L" by (simp add: with_archive_def)
  show "step_ok e h a L 11"
  proof (rule step_ok_set [where x = "''kernel_src''"])
    fix c d assume f: "fit_at a L 11 c"
    obtain ps us i ds where hw: "c ''hardware'' = Some (hardware_json ps us i ds)" using fit_known(1) [OF f] by auto
    obtain plan where p: "c ''partitions'' = Some (partitions_json plan)" using fit_known(2) [OF f] by auto
    obtain disk where dk: "c ''disk'' = Some (JStr disk)" using fit_known(3) [OF f] by auto
    obtain fs0 where fs0: "c ''root_fs'' = Some (JStr fs0)" "mkfs_root (JStr fs0) \<noteq> None" using fit_known(4) [OF f] by auto
    have "goes (placed ?M ?mp c d) (st_exec (kernel_config_step (h_machine h) (Some ?k) (a_cache_dir a) (a_driver_value a)) e)
        (placed ?M ?mp (c(''kernel_src'' \<mapsto> JStr (str_path (mk_path ?k)))) d)"
      using k by (intro kernel_config_goes [where c = c, OF r(10,13) _ r(17) _ _ hw p dk fs0(1) root_fs_known [OF fs0(2)]]) simp_all
    moreover have "usable a ?M ''kernel_src'' (JStr (str_path (mk_path ?k)))" using k by (simp add: usable_def path_text mk_path_plain)
    ultimately show "\<exists>v. goes (placed (layout_at a L 11) ?mp c d) (st_exec (build_stage1_steps h a ! 11) e)
        (placed (layout_at a L 11) ?mp (c(''kernel_src'' \<mapsto> v)) d) \<and> value_ok ''kernel_src'' v \<and> usable a ?M ''kernel_src'' v"
      unfolding step_at after_archive [of 11, simplified] using written_values r(14) by auto
  qed (simp_all add: stage1_names_def)
  show "step_ok e h a L 12"
  proof (rule step_ok_same)
    fix c d assume f: "fit_at a L 12 c"
    obtain t where "c ''kernel_src'' = Some (JStr t)" "mk_path t \<in> dirs ?M" using fit_known(8) [OF f] by (auto simp: dirs)
    then show "goes (placed (layout_at a L 12) ?mp c d) (st_exec (build_stage1_steps h a ! 12) e) (placed (layout_at a L 12) ?mp c d)"
      unfolding step_at after_archive [of 12, simplified] by (rule kernel_compile_goes [OF r(10)])
  qed (simp_all add: stage1_names_def keyless)
  show "step_ok e h a L 13"
  proof (rule step_ok_same)
    fix c d assume f: "fit_at a L 13 c"
    obtain t where t: "c ''kernel_src'' = Some (JStr t)" using fit_known(8) [OF f] by auto
    obtain b where b: "c ''boot_dir'' = Some (JStr b)" "set (ancestors (mk_path b)) \<subseteq> dirs ?M"
      using fit_known(5) [OF f] by (auto simp: dirs)
    show "goes (placed (layout_at a L 13) ?mp c d) (st_exec (build_stage1_steps h a ! 13) e) (placed (layout_at a L 13) ?mp c d)"
      unfolding step_at after_archive [of 13, simplified] by (rule kernel_install_goes [where c = c, OF r(10) t b])
  qed (simp_all add: stage1_names_def keyless)
qed

lemma last_steps_ok:
  assumes "install_ready e h a L"
  shows "step_ok e h a L 14" "step_ok e h a L 15" "step_ok e h a L 16" "step_ok e h a L 17" "step_ok e h a L 18"
proof -
  note r = install_readyD [OF assms] and t = install_readyD(3) [OF assms] and l = install_readyD(5) [OF assms, unfolded link_ready_def]
  let ?M = "with_archive a L" and ?mp = "a_mountpoint a"
  have files: "p \<in> set target_files \<Longrightarrow> may_file e ?M (path_div (mk_path ?mp) p)" for p by (rule target_readyD(1) [OF t])
  have f: "may_file e ?M (path_div (mk_path ?mp) [''etc'', ''fstab''])" "may_file e ?M (path_div (mk_path ?mp) [''etc'', ''hosts''])"
    "may_file e ?M (path_div (mk_path ?mp) [''etc'', ''hostname''])" "may_file e ?M (path_div (mk_path ?mp) [''etc'', ''conf.d'', ''net''])"
    "may_file e ?M (path_div (mk_path ?mp) [''etc'', ''default'', ''grub''])"
    by (rule files, simp add: target_files_def)+
  have g: "set (ancestors (path_div (mk_path ?mp) [''etc'', ''default''])) \<subseteq> dirs ?M"
    by (rule target_readyD(2) [OF t]) (simp add: target_dirs_def)
  note binds = target_readyD(5) [OF t]
  have link: "path_parent (link_of (mk_path ?mp) (a_iface a)) \<in> dirs ?M" "\<And>f. may_write e f (link_of (mk_path ?mp) (a_iface a))"
    "link_of (mk_path ?mp) (a_iface a) \<notin> dirs ?M \<union> free ?M \<union> texts ?M \<union> dom (fixed ?M)"
    using l by blast+
  show "step_ok e h a L 14"
  proof (rule step_ok_same)
    fix c d assume c: "fit_at a L 14 c"
    obtain plan where p: "c ''partitions'' = Some (partitions_json plan)" using fit_known(2) [OF c] by auto
    obtain fs0 where "c ''root_fs'' = Some (JStr fs0)" using fit_known(4) [OF c] by auto
    then show "goes (placed (layout_at a L 14) ?mp c d) (st_exec (build_stage1_steps h a ! 14) e) (placed (layout_at a L 14) ?mp c d)"
      unfolding step_at after_archive [of 14, simplified] by (rule fstab_goes [where c = c, OF r(10) p _ f(1)])
  qed (simp_all add: stage1_names_def keyless)
  show "step_ok e h a L 15"
  proof (rule step_ok_set [where x = "''hostname''"])
    fix c d assume c: "fit_at a L 15 c"
    obtain n where n: "setting c ''hostname'' (JStr (a_hostname a)) = JStr n" "usable a ?M ''hostname'' (JStr n)"
      by (rule fit_setting [OF c, of "''hostname''" "a_hostname a"]) (simp_all add: text_keys_def usable_def)
    from hostname_goes [where c = c and d = d, OF r(10) n(1) target_readyD(4) [OF t] f(2,3)] n(2)
    show "\<exists>v. goes (placed (layout_at a L 15) ?mp c d) (st_exec (build_stage1_steps h a ! 15) e)
        (placed (layout_at a L 15) ?mp (c(''hostname'' \<mapsto> v)) d) \<and> value_ok ''hostname'' v \<and> usable a ?M ''hostname'' v"
      unfolding step_at after_archive [of 15, simplified] using written_values by blast
  qed (simp_all add: stage1_names_def)
  show "step_ok e h a L 16"
  proof (rule step_ok_same)
    fix c d assume "fit_at a L 16 c"
    from fit_none [OF this never_set(2)]
    show "goes (placed (layout_at a L 16) ?mp c d) (st_exec (build_stage1_steps h a ! 16) e) (placed (layout_at a L 16) ?mp c d)"
      unfolding step_at by (intro root_password_goes) simp
  qed (simp_all add: stage1_names_def keyless)
  show "step_ok e h a L 17"
  proof (rule step_ok_same)
    fix c d assume c: "fit_at a L 17 c"
    have none: "c ''network_iface'' = None" "c ''network_dhcp'' = None" "c ''network_ip'' = None" "c ''network_gateway'' = None"
      by (rule fit_none [OF c], rule never_set, simp)+
    show "goes (placed (layout_at a L 17) ?mp c d) (st_exec (build_stage1_steps h a ! 17) e) (placed (layout_at a L 17) ?mp c d)"
      unfolding step_at after_archive [of 17, simplified] by (rule network_goes [where c = c, OF r(10) none f(4) link(1,3,2) binds])
  qed (simp_all add: stage1_names_def keyless)
  show "step_ok e h a L 18"
  proof (rule step_ok_same)
    fix c d assume c: "fit_at a L 18 c"
    obtain plan where p: "c ''partitions'' = Some (partitions_json plan)" using fit_known(2) [OF c] by auto
    obtain disk where dk: "c ''disk'' = Some (JStr disk)" "disk \<noteq> []" using fit_known(3) [OF c] by auto
    obtain v where v: "c ''make_conf'' = Some v" "value_ok ''make_conf'' v" using fit_known(7) [OF c] by auto
    show "goes (placed (layout_at a L 18) ?mp c d) (st_exec (build_stage1_steps h a ! 18) e) (placed (layout_at a L 18) ?mp c d)"
      unfolding step_at after_archive [of 18, simplified] by (rule bootloader_goes [where c = c, OF r(10) p dk v g f(5) binds])
  qed (simp_all add: stage1_names_def keyless)
qed

lemma every_step_ok:
  assumes "install_ready e h a L" and "k < 19"
  shows "step_ok e h a L k"
proof -
  have "k = 0 \<or> k = 1 \<or> k = 2 \<or> k = 3 \<or> k = 4 \<or> k = 5 \<or> k = 6 \<or> k = 7 \<or> k = 8 \<or> k = 9 \<or> k = 10 \<or> k = 11 \<or> k = 12
      \<or> k = 13 \<or> k = 14 \<or> k = 15 \<or> k = 16 \<or> k = 17 \<or> k = 18"
    using assms(2) by presburger
  then show ?thesis
    using disk_steps_ok [OF assms(1)] archive_steps_ok [OF assms(1)] base_steps_ok [OF assms(1)] kernel_steps_ok [OF assms(1)]
      last_steps_ok [OF assms(1)]
    by (elim disjE) (simp_all only:)
qed

subsection \<open>The run\<close>

definition between :: "install_args \<Rightarrow> layout \<Rightarrow> nat \<Rightarrow> (str \<rightharpoonup> json) \<Rightarrow> str list \<Rightarrow> bool" where
  "between a L k c d \<longleftrightarrow> fit_at a L k c \<and> set stage1_names \<inter> set d = set (take k stage1_names)"

lemma nth_in_take: "distinct xs \<Longrightarrow> i < length xs \<Longrightarrow> xs ! i \<in> set (take k xs) \<longleftrightarrow> i < k"
  by (auto simp: in_set_conv_nth nth_eq_iff_index_eq)

lemma runs_from:
  assumes r: "install_ready e h a L" and "k \<le> 19"
  shows "runs e (drop k (take 19 (build_stage1_steps h a))) (held (layout_at a L k) (a_mountpoint a) (between a L k))
    (held (layout_at a L 19) (a_mountpoint a) (between a L 19))"
  using assms(2)
proof (induction k rule: inc_induct)
  case base
  show ?case by (simp add: runs_Nil)
next
  case (step k)
  have len: "length (build_stage1_steps h a) = 21" using length_stage1 stage1_step_names [of h a] by (metis length_map)
  have name: "st_name (build_stage1_steps h a ! k) = stage1_names ! k"
    using step.hyps len by (simp flip: stage1_step_names [of h a])
  have k: "k < length stage1_names" using step.hyps by (simp add: length_stage1)
  have split: "drop k (take 19 (build_stage1_steps h a)) = build_stage1_steps h a ! k # drop (Suc k) (take 19 (build_stage1_steps h a))"
    using step.hyps len by (simp add: Cons_nth_drop_Suc [symmetric])
  have next_set: "set (take (Suc k) stage1_names) = insert (stage1_names ! k) (set (take k stage1_names))"
    by (simp add: take_Suc_conv_app_nth [OF k])
  show ?case
    unfolding split
  proof (rule runs_Cons [OF _ workable_at [OF r] workable_at [OF r] _ step.IH])
    fix c d assume b: "between a L k c d"
    show "st_name (build_stage1_steps h a ! k) \<notin> set d"
      using b nth_in_take [OF distinct_stage1 k, of k] nth_mem [OF k] by (auto simp: between_def name)
    have "set stage1_names \<inter> set (d @ [stage1_names ! k]) = set (take (Suc k) stage1_names)"
      using b nth_mem [OF k] by (auto simp: between_def next_set)
    with b every_step_ok [OF r step.hyps(2), unfolded step_ok_def, rule_format, of c d]
    show "goes (placed (layout_at a L k) (a_mountpoint a) c d) (st_exec (build_stage1_steps h a ! k) e)
        (\<lambda>sw. \<exists>c'. between a L (Suc k) c' (d @ [st_name (build_stage1_steps h a ! k)]) \<and> placed (layout_at a L (Suc k)) (a_mountpoint a) c' d sw)"
      by (simp add: between_def name)
  qed
qed

text \<open>The state a run starts from: what it has recorded can be worked with, and the target is as the completed steps left it.\<close>

definition settings_usable :: "install_args \<Rightarrow> layout \<Rightarrow> installer_state \<Rightarrow> bool" where
  "settings_usable a L s \<longleftrightarrow> (\<forall>(k, v) \<in> set (config s). usable a (with_archive a L) k v)"

definition resume_layout :: "install_args \<Rightarrow> layout \<Rightarrow> installer_state \<Rightarrow> layout" where
  "resume_layout a L s = (if ''stage3_download'' \<in> set (completed s) then with_archive a L else L)"

lemma reachable_fit:
  assumes "reachable s" and "settings_usable a L s" and "set (take k stage1_names) \<subseteq> set (completed s)"
  shows "fit_at a L k (dget (config s))"
proof -
  have w: "well_typed s" by (rule reachable_typed [OF assms(1)])
  have "usable a (with_archive a L) x v" if "dget (config s) x = Some v" for x v
    using assms(2) that by (auto simp: settings_usable_def dest: map_of_SomeD)
  then have "fits a (with_archive a L) (dget (config s))" using well_typed_value [OF w] by (simp add: fits_def)
  moreover have "dget (config s) x \<noteq> None" if "n \<in> set (take k stage1_names)" "x \<in> set (keys_of n)" for n x
  proof -
    have "x \<in> cfg_keys s" using w assms(3) that by (auto simp: well_typed_def)
    then show ?thesis by (simp add: map_of_eq_None_iff)
  qed
  ultimately show ?thesis by (simp add: fit_at_def left_def)
qed


subsection \<open>An installation\<close>

text \<open>A machine with a USB stick, an archive to fetch, a source tree with one Kconfig file, and an empty target made ready.\<close>

definition stick_host :: host where
  "stick_host = bare_host\<lparr>h_machine := (h_machine bare_host)\<lparr>m_usb := Some [\<lparr>ud_name = ''001'', ud_is_dir = True,
     ud_nodes = [\<lparr>un_name = ''002'', un_device = True, un_rw = Some stick, un_ro = None\<rparr>]\<rparr>]\<rparr>\<rparr>"

definition full_args :: install_args where
  "full_args = default_args\<lparr>a_kernel_src := Some ''/usr/src/linux'', a_disk := Some ''/dev/sda'',
     a_stage3_url := Some ''http://mirror/stage3.tar.xz''\<rparr>"

definition full_env :: env where
  "full_env = calm_env\<lparr>fetch_url := (\<lambda>_. Some ''archive'')\<rparr>"

definition in_target :: "str list \<Rightarrow> path" where
  "in_target cs = path_div (mk_path ''/mnt/gentoo'') cs"

definition full_texts :: "path list" where
  "full_texts = [in_target [''etc'', ''locale.gen''], in_target [''etc'', ''hosts''],
     in_target [''usr'', ''share'', ''zoneinfo'', ''UTC''], mk_path ''/etc/resolv.conf'']"

definition full_files :: "path list" where
  "full_files = map in_target target_files @ [bin_file, service_file, script_file, mk_path ''/var/tmp/anaconda-gentoo/stage3.tar.xz'',
     mk_path ''/usr/src/linux/.config'']"

definition kconfig_file :: path where
  "kconfig_file = mk_path ''/usr/src/linux/Kconfig''"

definition kconfig_text :: str where
  "kconfig_text = unlines [''config USB'', CHR 0x09 # ''bool'']"

definition not_dirs :: "path list" where
  "not_dirs = full_texts @ full_files @ [kconfig_file, in_target [''etc'', ''init.d'', ''net.eth0''], live_state_path,
     path_join (mk_path ''/mnt/gentoo'') target_rel]"

definition full_dir :: "path \<Rightarrow> bool" where
  "full_dir p \<longleftrightarrow> p \<notin> set not_dirs \<and> \<not> below lib_tree p"

definition full_layout :: layout where
  "full_layout = \<lparr>dirs = {p. full_dir p}, files = set full_files, free = {lib_tree}, texts = set full_texts, present = {},
     fixed = [kconfig_file \<mapsto> FFile kconfig_text]\<rparr>"

definition full_world :: world where
  "full_world = empty_world\<lparr>fs := (\<lambda>p. if p \<in> set full_texts then Some (FFile ''text'') else if p = kconfig_file then Some (FFile kconfig_text)
     else if full_dir p then Some FDir else None)\<rparr>"

lemma full_laid_out: "laid_out full_layout (fs full_world)"
proof -
  have "kconfig_file \<notin> set full_texts" "\<not> full_dir kconfig_file" "\<forall>p \<in> set full_texts. \<not> full_dir p" "\<forall>p \<in> set full_files. \<not> full_dir p"
    "lib_tree \<notin> set full_texts" "lib_tree \<noteq> kconfig_file" "\<not> full_dir lib_tree"
    by code_simp+
  then show ?thesis by (auto simp: laid_out_def full_layout_def full_world_def)
qed

lemma full_hardware: "hardware_found (h_machine stick_host)"
  by code_simp

lemma full_arguments: "arguments_ok stick_host full_args"
  by code_simp

lemma full_file: "p \<in> set full_files \<Longrightarrow> may_file full_env (full_layout\<lparr>present := x\<rparr>) p"
proof -
  have "\<forall>p \<in> set full_files. full_dir (path_parent p) \<and> \<not> full_dir p \<and> p \<noteq> lib_tree \<and> p \<noteq> kconfig_file" by code_simp
  then show "p \<in> set full_files \<Longrightarrow> may_file full_env (full_layout\<lparr>present := x\<rparr>) p"
    by (simp add: may_file_def full_layout_def full_env_def calm_env_def)
qed

lemma full_dirs:
  "(set xs \<subseteq> dirs (full_layout\<lparr>present := x\<rparr>)) = (\<forall>q \<in> set xs. full_dir q)"
  "q \<in> dirs (full_layout\<lparr>present := x\<rparr>) \<longleftrightarrow> full_dir q" "q \<in> dirs full_layout \<longleftrightarrow> full_dir q"
  by (auto simp: full_layout_def)

lemma full_tree: "tree_readable (h_machine stick_host) (full_layout\<lparr>present := x\<rparr>) (mk_path ''/usr/src/linux'')"
  unfolding tree_readable_def
proof (intro allI impI conjI)
  fix f assume "laid_out (full_layout\<lparr>present := x\<rparr>) f"
  then have f: "f kconfig_file = Some (FFile kconfig_text)" by (simp add: laid_out_def full_layout_def)
  show "\<exists>db. build_db (m_tree (h_machine stick_host) f (mk_path ''/usr/src/linux'')) empty_db = Inr db"
  proof -
    have "case build_db (KDir True []) empty_db of Inl _ \<Rightarrow> False | Inr _ \<Rightarrow> True" by code_simp
    then show ?thesis by (simp add: stick_host_def bare_host_def split: sum.splits)
  qed
  have top: "path_div (mk_path ''/usr/src/linux'') [''Kconfig''] = kconfig_file" by code_simp
  have none: "source_names kconfig_text = []" by code_simp
  show "load_kconfig (m_depth (h_machine stick_host))
      \<lparr>k_src = mk_path ''/usr/src/linux'', k_file = f, k_resolve = m_resolve (h_machine stick_host)\<rparr> \<noteq> None"
    by (simp add: load_kconfig_def top k_exists_def f stick_host_def bare_host_def eval_nat_numeral empty_kdb_def source_paths_def none)
qed

lemma full_target: "target_ready full_env (full_layout\<lparr>present := x\<rparr>) (mk_path ''/mnt/gentoo'')"
proof -
  have boot: "\<forall>q \<in> set (ancestors (boot_dir_of (mk_path ''/mnt/gentoo'') True)). full_dir q"
    "\<forall>q \<in> set (ancestors (boot_dir_of (mk_path ''/mnt/gentoo'') False)). full_dir q" by code_simp+
  have "path_div (mk_path ''/mnt/gentoo'') p \<in> set full_files" if "p \<in> set target_files" for p
    using that by (simp add: full_files_def in_target_def)
  then have "\<forall>p \<in> set target_files. may_file full_env (full_layout\<lparr>present := x\<rparr>) (path_div (mk_path ''/mnt/gentoo'') p)"
    using full_file by blast
  moreover have "\<forall>p \<in> set target_dirs. \<forall>q \<in> set (ancestors (path_div (mk_path ''/mnt/gentoo'') p)). full_dir q" by code_simp
  moreover have "\<forall>y \<in> set BIND_MOUNTS. \<forall>q \<in> set (ancestors (sub_path (mk_path ''/mnt/gentoo'') (fst y))). full_dir q" by code_simp
  moreover have "\<forall>u. \<forall>q \<in> set (ancestors (boot_dir_of (mk_path ''/mnt/gentoo'') u)). full_dir q" by (simp add: all_bool_eq boot)
  moreover have "\<forall>p \<in> set [[''etc'', ''locale.gen''], [''etc'', ''hosts'']]. path_div (mk_path ''/mnt/gentoo'') p \<in> texts (full_layout\<lparr>present := x\<rparr>)"
    by (simp add: full_layout_def full_texts_def in_target_def)
  ultimately show ?thesis unfolding target_ready_def full_dirs by blast
qed

lemma full_handover: "handover_ready full_env (full_layout\<lparr>present := {mk_path ''/var/tmp/anaconda-gentoo/stage3.tar.xz''}\<rparr>)
    (mk_path ''/mnt/gentoo'') (h_source stick_host)"
proof -
  let ?M = "full_layout\<lparr>present := {mk_path ''/var/tmp/anaconda-gentoo/stage3.tar.xz''}\<rparr>" and ?mp = "mk_path ''/mnt/gentoo''"
  have "gentle ?M full_env" by (simp add: gentle_def full_env_def calm_env_def)
  moreover have "\<forall>y \<in> set BIND_MOUNTS. \<forall>q \<in> set (ancestors (sub_path ?mp (fst y))). full_dir q" by code_simp
  moreover have "\<forall>d \<in> set [[''usr'', ''local'', ''bin''], [''var'', ''lib'', ''anaconda-gentoo''], [''etc'', ''systemd'', ''system''],
       [''etc'', ''init.d'']]. \<forall>q \<in> set (ancestors (path_div ?mp d)). full_dir q" by code_simp
  moreover have "\<forall>p \<in> set [[''usr'', ''local'', ''bin'', ''anaconda-gentoo''], [''etc'', ''systemd'', ''system'', ''anaconda-gentoo-continue.service''],
      [''etc'', ''init.d'', ''anaconda-gentoo-continue'']]. may_file full_env ?M (path_div ?mp p)"
    by (simp add: sample_paths full_file full_files_def)
  moreover have "full_dir (h_source stick_host)" by code_simp
  moreover have "replaceable full_env ?M lib_tree"
  proof -
    have "\<forall>p \<in> set (full_files @ full_texts @ [kconfig_file, mk_path ''/var/tmp/anaconda-gentoo/stage3.tar.xz'']). \<not> below lib_tree p \<and> p \<noteq> lib_tree"
      "\<forall>q \<in> set (ancestors (path_parent lib_tree)). full_dir q" "pparts lib_tree \<noteq> []" by code_simp+
    then show ?thesis by (auto simp: replaceable_def full_layout_def full_dir_def below_def full_env_def calm_env_def)
  qed
  moreover have "clear_of live_state_path ?M \<and> clear_of (path_join ?mp target_rel) ?M"
  proof -
    have "\<forall>p \<in> set full_files. p \<notin> set (ancestors (path_parent live_state_path))
        \<and> p \<notin> set (ancestors (path_parent (path_join (mk_path ''/mnt/gentoo'') target_rel)))"
      "lib_tree \<noteq> live_state_path" "lib_tree \<noteq> path_join (mk_path ''/mnt/gentoo'') target_rel" "kconfig_file \<noteq> live_state_path"
      "kconfig_file \<noteq> path_join (mk_path ''/mnt/gentoo'') target_rel"
      by code_simp+
    then show ?thesis by (simp add: clear_of_def full_layout_def)
  qed
  ultimately show ?thesis unfolding handover_ready_def full_dirs sample_paths(4) by blast
qed

lemma full_ready: "install_ready full_env stick_host full_args full_layout"
proof -
  have args: "a_mountpoint full_args = ''/mnt/gentoo''" "the (a_stage3_url full_args) = ''http://mirror/stage3.tar.xz''"
    "the (a_kernel_src full_args) = ''/usr/src/linux''" "a_iface full_args = ''eth0''" "a_timezone full_args = ''UTC''"
    by (simp_all add: full_args_def default_args_def)
  have archive: "archive_of ''http://mirror/stage3.tar.xz'' = mk_path ''/var/tmp/anaconda-gentoo/stage3.tar.xz''"
    "\<forall>q \<in> set (ancestors STAGE3_DIR). full_dir q" by code_simp+
  have "gentle full_layout full_env" "present full_layout = {}" by (simp_all add: gentle_def full_env_def calm_env_def full_layout_def)
  then have "fetch_ready full_env full_layout ''http://mirror/stage3.tar.xz''"
    using archive(2) full_file [of "mk_path ''/var/tmp/anaconda-gentoo/stage3.tar.xz''" "{}"] full_dirs(1) [where x = "{}"]
    by (simp add: fetch_ready_def archive(1) full_files_def) (simp add: full_layout_def full_env_def calm_env_def)
  moreover have "kernel_ready full_env (h_machine stick_host) (full_layout\<lparr>present := x\<rparr>) (mk_path ''/usr/src/linux'')" for x
  proof -
    have "full_dir (mk_path ''/usr/src/linux'')" "path_div (mk_path ''/usr/src/linux'') [''.config''] = mk_path ''/usr/src/linux/.config''"
      by code_simp+
    then show ?thesis using full_file [of "mk_path ''/usr/src/linux/.config''"] by (simp add: kernel_ready_def full_dirs full_tree full_files_def)
  qed
  moreover have "link_ready full_env (full_layout\<lparr>present := x\<rparr>) (mk_path ''/mnt/gentoo'') ''eth0''" for x
  proof -
    have "full_dir (path_parent (link_of (mk_path ''/mnt/gentoo'') ''eth0''))" "\<not> full_dir (link_of (mk_path ''/mnt/gentoo'') ''eth0'')"
      "link_of (mk_path ''/mnt/gentoo'') ''eth0'' \<notin> set (lib_tree # kconfig_file # full_texts)" by code_simp+
    then show ?thesis by (simp add: link_ready_def full_layout_def full_env_def calm_env_def)
  qed
  moreover have "zone_file (mk_path ''/mnt/gentoo'') ''UTC'' \<in> set full_texts" "mk_path ''/etc/resolv.conf'' \<in> set full_texts" by code_simp+
  then have "zone_file (mk_path ''/mnt/gentoo'') ''UTC'' \<in> texts full_layout" "mk_path ''/etc/resolv.conf'' \<in> texts full_layout"
    by (simp_all add: full_layout_def)
  ultimately show ?thesis
    unfolding install_ready_def Let_def args archive(1) using full_arguments full_hardware full_target full_handover by blast
qed


end
