(* ===== verification/PciPort.thy ===== *)
theory PciPort
  imports Pci Bytes
begin

unbundle bit_operations_syntax

text \<open>
  \<^verbatim>\<open>PCIScanner\<close> of \<^verbatim>\<open>kconfig_builder/hardware/pci.py\<close> as it runs: the descriptor of
  \<^verbatim>\<open>/dev/port\<close> it holds, the position in that file, which is the number of the port, and the address register of the
  host bridge, which a write of four bytes to the first port sets. The scan on these refines the scan of \<^verbatim>\<open>Pci\<close>, where a
  configuration read is a function, and closes what it has opened.
\<close>

subsection \<open>The device file\<close>

definition CONFIG_ADDRESS :: nat where
  "CONFIG_ADDRESS = 0xCF8"

definition CONFIG_DATA :: nat where
  "CONFIG_DATA = 0xCFC"

text \<open>
  The device: the number of the descriptor \<^verbatim>\<open>os.open\<close> gives, if it may be opened; the error a write raises, if any, by position;
  what a read gives, by position and address register.
\<close>

record port_file =
  pf_open :: "int option"
  pf_write :: "nat \<Rightarrow> bytes \<Rightarrow> exn option"
  pf_data :: "nat \<Rightarrow> 32 word \<Rightarrow> exn + bytes"

text \<open>The attribute \<^verbatim>\<open>_fd\<close> of the scanner, and the state of the system: the open descriptors, the position, the register.\<close>

record port_state =
  self_fd :: int
  fds :: "int set"
  port_pos :: nat
  addr_reg :: "32 word"

type_synonym 'a port_act = "(port_state, 'a) act"

definition on_fd :: "int \<Rightarrow> 'a port_act \<Rightarrow> 'a port_act" where
  "on_fd n m = (\<lambda>s. if n \<in> fds s then m s else (Inl (OSErr ''Bad file descriptor''), s))"

definition os_open :: "port_file \<Rightarrow> int port_act" where
  "os_open f = (\<lambda>s. case pf_open f of
       None \<Rightarrow> (Inl (OSErr ''Permission denied''), s)
     | Some n \<Rightarrow> (Inr n, s\<lparr>fds := insert n (fds s), port_pos := 0\<rparr>))"

definition os_close :: "int \<Rightarrow> unit port_act" where
  "os_close n = on_fd n (\<lambda>s. (Inr (), s\<lparr>fds := fds s - {n}\<rparr>))"

definition os_lseek :: "int \<Rightarrow> nat \<Rightarrow> unit port_act" where
  "os_lseek n p = on_fd n (\<lambda>s. (Inr (), s\<lparr>port_pos := p\<rparr>))"

definition os_write :: "port_file \<Rightarrow> int \<Rightarrow> bytes \<Rightarrow> unit port_act" where
  "os_write f n bs = on_fd n (\<lambda>s. case pf_write f (port_pos s) bs of
       Some x \<Rightarrow> (Inl x, s)
     | None \<Rightarrow> (Inr (), s\<lparr>port_pos := port_pos s + length bs,
         addr_reg := (if port_pos s = CONFIG_ADDRESS \<and> length bs = 4 then of_nat (nat_le bs) else addr_reg s)\<rparr>))"

definition os_read :: "port_file \<Rightarrow> int \<Rightarrow> nat \<Rightarrow> bytes port_act" where
  "os_read f n len = on_fd n (\<lambda>s. case pf_data f (port_pos s) (addr_reg s) of
       Inl x \<Rightarrow> (Inl x, s)
     | Inr bs \<Rightarrow> (Inr (take len bs), s\<lparr>port_pos := port_pos s + length (take len bs)\<rparr>))"

subsection \<open>The scanner\<close>

definition put_fd :: "int \<Rightarrow> unit port_act" where
  "put_fd n = (\<lambda>s. (Inr (), s\<lparr>self_fd := n\<rparr>))"

definition pci_open :: "port_file \<Rightarrow> bool port_act" where
  "pci_open f = catchM (bindM (os_open f) (\<lambda>n. thenM (put_fd n) (ret True))) is_oserror (\<lambda>_. ret False)"

definition pci_close :: "unit port_act" where
  "pci_close = bindM (getM self_fd) (\<lambda>n. whenM (0 \<le> n) (seqM [os_close n, put_fd (- 1)]))"

text \<open>The context manager.\<close>

definition pci_enter :: "port_file \<Rightarrow> unit port_act" where
  "pci_enter f = thenM (pci_open f) (ret ())"

definition pci_exit :: "unit port_act" where
  "pci_exit = pci_close"

definition port_read32 :: "port_file \<Rightarrow> nat \<Rightarrow> nat \<Rightarrow> nat \<Rightarrow> nat \<Rightarrow> int port_act" where
  "port_read32 f bus dev fn offset = bindM (getM self_fd) (\<lambda>n.
     thenM (os_lseek n CONFIG_ADDRESS)
       (thenM (os_write f n (bytes_le 4 (unat (config_address bus dev fn offset))))
         (thenM (os_lseek n CONFIG_DATA)
           (bindM (os_read f n 4) (\<lambda>raw. if length raw = 4 then ret (int (nat_le raw)) else raise StructErr)))))"

definition port_read16 :: "port_file \<Rightarrow> nat \<Rightarrow> nat \<Rightarrow> nat \<Rightarrow> nat \<Rightarrow> int port_act" where
  "port_read16 f bus dev fn offset = bindM (port_read32 f bus dev fn (offset - offset mod 2))
     (\<lambda>dw. ret (drop_bit (8 * (offset AND 2)) dw AND 0xFFFF))"

definition port_read8 :: "port_file \<Rightarrow> nat \<Rightarrow> nat \<Rightarrow> nat \<Rightarrow> nat \<Rightarrow> int port_act" where
  "port_read8 f bus dev fn offset = bindM (port_read32 f bus dev fn (offset - offset mod 4))
     (\<lambda>dw. ret (drop_bit (8 * (offset AND 3)) dw AND 0xFF))"

definition port_probe :: "port_file \<Rightarrow> nat \<Rightarrow> nat \<Rightarrow> nat \<Rightarrow> int \<Rightarrow> pci_device port_act" where
  "port_probe f bus dev fn vid =
     bindM (port_read16 f bus dev fn 0x02) (\<lambda>did.
     bindM (port_read32 f bus dev fn 0x08) (\<lambda>cls_raw.
     bindM (port_read8 f bus dev fn 0x0E) (\<lambda>hdr.
     bindM (if hdr AND 0x7F = 0
            then bindM (port_read16 f bus dev fn 0x2C) (\<lambda>sv. bindM (port_read16 f bus dev fn 0x2E) (\<lambda>sd. ret (sv, sd)))
            else ret (0xFFFF, 0xFFFF)) (\<lambda>(svid, sdid).
     ret \<lparr>pci_slot = slot_name bus dev fn, pci_vendor = vid, pci_devid = did, pci_subvendor = svid, pci_subdevice = sdid,
       pci_cls = drop_bit 8 cls_raw AND 0xFFFFFF, pci_header_type = hdr\<rparr>))))"

text \<open>The three loops of \<^verbatim>\<open>scan\<close>; an \<^verbatim>\<open>OSError\<close> when the vendor is read skips the function.\<close>

fun port_fns :: "port_file \<Rightarrow> nat \<Rightarrow> nat \<Rightarrow> nat list \<Rightarrow> pci_device list port_act" where
  "port_fns f bus dev [] = ret []"
| "port_fns f bus dev (fn # fns) =
     bindM (catchM (bindM (port_read16 f bus dev fn 0x00) (\<lambda>v. ret (Some v))) is_oserror (\<lambda>_. ret None)) (\<lambda>r. case r of
         None \<Rightarrow> port_fns f bus dev fns
       | Some vid \<Rightarrow>
           if vid = 0xFFFF then (if fn = 0 then ret [] else port_fns f bus dev fns)
           else bindM (port_probe f bus dev fn vid) (\<lambda>d.
             if fn = 0 \<and> pci_header_type d AND 0x80 = 0 then ret [d]
             else bindM (port_fns f bus dev fns) (\<lambda>ds. ret (d # ds))))"

fun port_devs :: "port_file \<Rightarrow> nat \<Rightarrow> nat list \<Rightarrow> pci_device list port_act" where
  "port_devs f bus [] = ret []"
| "port_devs f bus (dev # devs) =
     bindM (port_fns f bus dev [0..<8]) (\<lambda>a. bindM (port_devs f bus devs) (\<lambda>b. ret (a @ b)))"

fun port_buses :: "port_file \<Rightarrow> nat list \<Rightarrow> pci_device list port_act" where
  "port_buses f [] = ret []"
| "port_buses f (bus # buses) =
     bindM (port_devs f bus [0..<32]) (\<lambda>a. bindM (port_buses f buses) (\<lambda>b. ret (a @ b)))"

definition port_scan :: "port_file \<Rightarrow> pci_device list port_act" where
  "port_scan f = bindM (getM self_fd) (\<lambda>n. if n < 0 then ret [] else port_buses f [0..<256])"

text \<open>\<^verbatim>\<open>scan_pci\<close>: a new scanner has no descriptor.\<close>

definition port_scan_pci :: "port_file \<Rightarrow> (pci_device list \<times> str option) port_act" where
  "port_scan_pci f = thenM (put_fd (- 1)) (bindM (pci_open f) (\<lambda>ok.
     if \<not> ok then ret ([], Some ''Cannot open /dev/port - run as root for PCI detection'')
     else finallyM (bindM (port_scan f) (\<lambda>ds. ret (ds, None))) pci_close))"

definition pci_str :: "pci_device \<Rightarrow> str" where
  "pci_str d = ''PCI ['' @ pci_slot d @ ''] '' @ fmt_x 4 (pci_vendor d) @ '':'' @ fmt_x 4 (pci_devid d)
     @ '' sub='' @ fmt_x 4 (pci_subvendor d) @ '':'' @ fmt_x 4 (pci_subdevice d) @ '' class='' @ fmt_x 6 (pci_cls d)"

subsection \<open>Refinement\<close>

text \<open>What the device file is as a function of the address word.\<close>

definition port_of :: "port_file \<Rightarrow> config_port" where
  "port_of f a = (case pf_write f CONFIG_ADDRESS (bytes_le 4 (unat a)) of
       Some x \<Rightarrow> Inl x
     | None \<Rightarrow> bindR (pf_data f CONFIG_DATA a) (\<lambda>bs. if 4 \<le> length bs then Inr (of_nat (nat_le (take 4 bs))) else Inl StructErr))"

text \<open>With the descriptor open, a computation has the given result and leaves the descriptors as they are.\<close>

definition mirrors :: "'a port_act \<Rightarrow> exn + 'a \<Rightarrow> bool" where
  "mirrors m r \<longleftrightarrow> (\<forall>s. self_fd s \<in> fds s \<longrightarrow> (\<exists>s'. m s = (r, s') \<and> self_fd s' = self_fd s \<and> fds s' = fds s))"

lemma mirrors_ret: "mirrors (ret v) (Inr v)"
  by (simp add: mirrors_def ret_def)

lemma mirrors_bind:
  assumes "mirrors m r" and "\<And>v. mirrors (g v) (h v)"
  shows "mirrors (bindM m g) (bindR r h)"
  unfolding mirrors_def
proof (intro allI impI)
  fix s :: port_state assume s: "self_fd s \<in> fds s"
  then obtain s1 where m: "m s = (r, s1)" "self_fd s1 = self_fd s" "fds s1 = fds s" using assms(1) by (auto simp: mirrors_def)
  show "\<exists>s'. bindM m g s = (bindR r h, s') \<and> self_fd s' = self_fd s \<and> fds s' = fds s"
  proof (cases r)
    case (Inl x)
    with m show ?thesis by (simp add: bindM_def bindR_def)
  next
    case (Inr v)
    obtain s2 where "g v s1 = (h v, s2)" "self_fd s2 = self_fd s1" "fds s2 = fds s1"
      using assms(2) [of v, unfolded mirrors_def, rule_format, of s1] s m(2,3) by auto
    with m Inr show ?thesis by (simp add: bindM_def bindR_def)
  qed
qed

lemma mirrors_if: "(b \<Longrightarrow> mirrors m r) \<Longrightarrow> (\<not> b \<Longrightarrow> mirrors n q) \<Longrightarrow> mirrors (if b then m else n) (if b then r else q)"
  by simp

lemma nat_le_less: "nat_le bs < 256 ^ length bs"
proof (induction bs)
  case (Cons b bs)
  have "unat b < 256" using unsigned_less [of b, where 'a = nat] by simp
  with Cons show ?case by (simp add: nat_le_def)
qed (simp add: nat_le_def)

lemma mirrors_read32: "mirrors (port_read32 f bus dev fn off) (read32 (port_of f) bus dev fn off)"
  unfolding mirrors_def
proof (intro allI impI)
  fix s :: port_state assume "self_fd s \<in> fds s"
  let ?a = "config_address bus dev fn off"
  have addr: "of_nat (nat_le (bytes_le 4 (unat ?a))) = ?a"
    using unsigned_less [of ?a, where 'a = nat] by (simp add: nat_le_bytes_le)
  have raw: "uint (of_nat (nat_le bs) :: 32 word) = int (nat_le bs)" if "length bs = 4" for bs
    using nat_le_less [of bs] that by (simp add: unsigned_of_nat take_bit_nat_eq_self)
  show "\<exists>s'. port_read32 f bus dev fn off s = (read32 (port_of f) bus dev fn off, s') \<and> self_fd s' = self_fd s \<and> fds s' = fds s"
    using \<open>self_fd s \<in> fds s\<close> addr raw
    by (auto simp: port_read32_def read32_def port_of_def bindR_def monad_defs os_lseek_def os_write_def os_read_def on_fd_def
        split: option.splits sum.splits)
qed

lemma mirrors_map: "mirrors m r \<Longrightarrow> mirrors (bindM m (\<lambda>v. ret (g v))) (map_sum id g r)"
  using mirrors_bind [of m r "\<lambda>v. ret (g v)" "\<lambda>v. Inr (g v)"] by (cases r) (simp_all add: mirrors_ret bindR_def)

lemma mirrors_reads:
  "mirrors (port_read16 f bus dev fn off) (read16 (port_of f) bus dev fn off)"
  "mirrors (port_read8 f bus dev fn off) (read8 (port_of f) bus dev fn off)"
  unfolding port_read16_def port_read8_def read16_def read8_def by (rule mirrors_map, rule mirrors_read32)+

lemma mirrors_probe: "mirrors (port_probe f bus dev fn vid) (probe (port_of f) bus dev fn vid)"
  unfolding port_probe_def probe_def
  by (intro mirrors_bind mirrors_reads mirrors_read32 mirrors_if mirrors_ret) (simp add: mirrors_ret split: prod.split)

text \<open>The read of the vendor, with its exception handler.\<close>

lemma mirrors_try:
  assumes "mirrors m r"
  shows "mirrors (catchM (bindM m (\<lambda>v. ret (Some v))) is_oserror (\<lambda>_. ret None))
    (case r of Inl x \<Rightarrow> if is_oserror x then Inr None else Inl x | Inr v \<Rightarrow> Inr (Some v))"
  unfolding mirrors_def
proof (intro allI impI)
  fix s :: port_state assume "self_fd s \<in> fds s"
  then obtain s1 where "m s = (r, s1)" "self_fd s1 = self_fd s" "fds s1 = fds s" using assms by (auto simp: mirrors_def)
  then show "\<exists>s'. catchM (bindM m (\<lambda>v. ret (Some v))) is_oserror (\<lambda>_. ret None) s
      = (case r of Inl x \<Rightarrow> if is_oserror x then Inr None else Inl x | Inr v \<Rightarrow> Inr (Some v), s') \<and> self_fd s' = self_fd s \<and> fds s' = fds s"
    by (cases r) (simp_all add: monad_defs)
qed

lemma scan_fns_tried: "scan_fns p bus dev (fn # fns) =
    bindR (case read16 p bus dev fn 0x00 of Inl x \<Rightarrow> if is_oserror x then Inr None else Inl x | Inr v \<Rightarrow> Inr (Some v)) (\<lambda>r. case r of
        None \<Rightarrow> scan_fns p bus dev fns
      | Some vid \<Rightarrow>
          if vid = 0xFFFF then (if fn = 0 then Inr [] else scan_fns p bus dev fns)
          else bindR (probe p bus dev fn vid) (\<lambda>d.
            if fn = 0 \<and> pci_header_type d AND 0x80 = 0 then Inr [d] else bindR (scan_fns p bus dev fns) (\<lambda>ds. Inr (d # ds))))"
  by (simp add: bindR_def split: sum.split)

lemma mirrors_fns: "mirrors (port_fns f bus dev fns) (scan_fns (port_of f) bus dev fns)"
proof (induction fns)
  case Nil
  show ?case by (simp add: mirrors_ret)
next
  case (Cons fn fns)
  show ?case
    unfolding port_fns.simps scan_fns_tried
  proof (rule mirrors_bind [OF mirrors_try [OF mirrors_reads(1)]])
    fix r
    show "mirrors (case r of None \<Rightarrow> port_fns f bus dev fns
       | Some vid \<Rightarrow> if vid = 0xFFFF then (if fn = 0 then ret [] else port_fns f bus dev fns)
           else bindM (port_probe f bus dev fn vid) (\<lambda>d. if fn = 0 \<and> pci_header_type d AND 0x80 = 0 then ret [d]
             else bindM (port_fns f bus dev fns) (\<lambda>ds. ret (d # ds))))
      (case r of None \<Rightarrow> scan_fns (port_of f) bus dev fns
       | Some vid \<Rightarrow> if vid = 0xFFFF then (if fn = 0 then Inr [] else scan_fns (port_of f) bus dev fns)
           else bindR (probe (port_of f) bus dev fn vid) (\<lambda>d. if fn = 0 \<and> pci_header_type d AND 0x80 = 0 then Inr [d]
             else bindR (scan_fns (port_of f) bus dev fns) (\<lambda>ds. Inr (d # ds))))"
      by (cases r) (auto intro!: mirrors_if mirrors_bind mirrors_probe mirrors_ret Cons.IH)
  qed
qed

lemma mirrors_buses: "mirrors (port_buses f buses) (scan_buses (port_of f) buses)"
proof -
  have "mirrors (port_devs f bus devs) (scan_devs (port_of f) bus devs)" for bus devs
    by (induction devs) (simp_all add: mirrors_ret mirrors_bind mirrors_fns del: upt_rec_numeral)
  then show ?thesis
    by (induction buses) (simp_all add: mirrors_ret mirrors_bind del: upt_rec_numeral)
qed

text \<open>
  C15. The scan as it runs, with the descriptor of the port file, its position and the address register, gives what the scan
  of the configuration space gives, and leaves no descriptor open and none in the scanner, whatever the reads return or raise.
\<close>

theorem port_scan_refines:
  assumes "\<forall>n. pf_open f = Some n \<longrightarrow> 0 \<le> n \<and> n \<notin> fds s"
  shows "\<exists>s'. port_scan_pci f s = (scan_pci (if pf_open f = None then None else Some (port_of f)), s')
    \<and> fds s' = fds s \<and> self_fd s' = - 1"
proof (cases "pf_open f")
  case None
  then show ?thesis by (simp add: port_scan_pci_def pci_open_def os_open_def put_fd_def scan_pci_def monad_defs)
next
  case (Some n)
  then have n: "0 \<le> n" "n \<notin> fds s" using assms by auto
  let ?s = "s\<lparr>self_fd := n, fds := insert n (fds s), port_pos := 0\<rparr>"
  obtain s' where s': "port_buses f [0..<256] ?s = (scan_buses (port_of f) [0..<256], s')" "self_fd s' = n" "fds s' = insert n (fds s)"
    using mirrors_buses [of f "[0..<256]"] by (force simp: mirrors_def)
  have "pci_open f (s\<lparr>self_fd := - 1\<rparr>) = (Inr True, ?s)"
    using Some by (simp add: pci_open_def os_open_def put_fd_def monad_defs)
  moreover have "port_scan f ?s = (scan_buses (port_of f) [0..<256], s')"
    using n(1) s'(1) by (simp add: port_scan_def monad_defs del: upt_rec_numeral)
  moreover have "pci_close s' = (Inr (), s'\<lparr>fds := fds s, self_fd := - 1\<rparr>)"
    using n s' by (simp add: pci_close_def os_close_def on_fd_def put_fd_def monad_defs)
  ultimately show ?thesis
    using Some by (cases "scan_buses (port_of f) [0..<256]")
      (simp_all add: port_scan_pci_def scan_pci_def bindR_def put_fd_def monad_defs del: upt_rec_numeral)
qed

definition one_card_file :: port_file where
  "one_card_file = \<lparr>pf_open = Some 3, pf_write = (\<lambda>_ _. None),
     pf_data = (\<lambda>_ a. Inr (bytes_le 4 (case one_card a of Inr v \<Rightarrow> unat v | Inl _ \<Rightarrow> 0)))\<rparr>"

definition idle_port :: port_state where
  "idle_port = \<lparr>self_fd = 0, fds = {0, 1, 2}, port_pos = 0, addr_reg = 0\<rparr>"

theorem port_scan_refines_witness:
  "\<exists>s'. port_scan_pci one_card_file idle_port = (scan_pci (Some (port_of one_card_file)), s')
    \<and> fds s' = {0, 1, 2} \<and> self_fd s' = - 1"
  using port_scan_refines [of one_card_file idle_port] by (simp add: one_card_file_def idle_port_def)

text \<open>The context manager releases the port, whatever happens in between.\<close>

lemma with_releases:
  assumes "\<forall>n. pf_open f = Some n \<longrightarrow> 0 \<le> n \<and> n \<notin> fds s" and "mirrors m r" and "pf_open f = Some n"
  shows "\<exists>s'. thenM (pci_enter f) (finallyM m pci_exit) s = (r, s') \<and> fds s' = fds s \<and> self_fd s' = - 1"
proof -
  let ?s = "s\<lparr>self_fd := n, fds := insert n (fds s), port_pos := 0\<rparr>"
  obtain s' where s': "m ?s = (r, s')" "self_fd s' = n" "fds s' = insert n (fds s)"
    using assms(2) by (force simp: mirrors_def)
  have "pci_enter f s = (Inr (), ?s)"
    using assms(3) by (simp add: pci_enter_def pci_open_def os_open_def put_fd_def monad_defs)
  moreover have "pci_exit s' = (Inr (), s'\<lparr>fds := fds s, self_fd := - 1\<rparr>)"
    using assms(1,3) s' by (simp add: pci_exit_def pci_close_def os_close_def on_fd_def put_fd_def monad_defs)
  ultimately show ?thesis using s' by (cases r) (simp_all add: monad_defs)
qed

end
